(* ===== verification/BobPrelude.thy ===== *)
theory BobPrelude
  imports Main "HOL-Library.Word"
begin

text \<open>
  The vocabulary shared by every component: machine integers at their width, little-endian
  byte images of integers (the source reads structs out of byte buffers with \<open>memcpy\<close> on a
  little-endian machine), the result type of operations that may fail, and the linear probing
  loop on which both open-addressing tables of the program rest.
\<close>

unbundle bit_operations_syntax

section \<open>Machine integers\<close>

type_synonym u8 = "8 word"
type_synonym u16 = "16 word"
type_synonym u32 = "32 word"
type_synonym u64 = "64 word"

text \<open>A \<open>long long\<close> is kept as its 64 bits; \<open>sint\<close> reads it as the signed value.\<close>

type_synonym i64 = "64 word"

text \<open>A \<open>m256i\<close> is its 256 bits; byte 0 of the union is the least significant byte.\<close>

type_synonym m256 = "256 word"

text \<open>Collections of rewrite rules that the component theories fill.\<close>

named_theorems bob_layout "field access after field update in packed structs"
named_theorems bob_probe "facts on the linear probing loop"

text \<open>Signed arithmetic that stays in range does not wrap.\<close>

lemma sint_diff_le:
  fixes a b :: "'a::len word"
  assumes "0 \<le> sint b" and "sint b \<le> sint a"
  shows "sint (a - b) = sint a - sint b"
proof -
  have "sint a < 2 ^ (LENGTH('a) - 1)" by (rule sint_lt)
  with assms have "signed_take_bit (LENGTH('a) - 1) (sint a - sint b) = sint a - sint b"
    by (intro signed_take_bit_int_eq_self) simp_all
  then show ?thesis by (simp add: sint_word_ariths)
qed

lemma sint_add_less:
  fixes a b :: "'a::len word"
  assumes "- (2 ^ (LENGTH('a) - 1)) \<le> sint a + sint b" and "sint a + sint b < 2 ^ (LENGTH('a) - 1)"
  shows "sint (a + b) = sint a + sint b"
  using assms by (simp add: sint_word_ariths signed_take_bit_int_eq_self)

section \<open>Results of operations that may fail\<close>

text \<open>
  \<open>Diverges\<close> is a loop that never ends, \<open>OutOfBounds\<close> an array access outside the array
  (undefined behaviour in the source) and \<open>Exit n\<close> a call of \<open>exit(n)\<close>.
\<close>

datatype failure = Diverges | OutOfBounds | Exit int

type_synonym 'a result = "failure + 'a"

definition bind_result :: "'a result \<Rightarrow> ('a \<Rightarrow> 'b result) \<Rightarrow> 'b result" where
  "bind_result x f = (case x of Inl e \<Rightarrow> Inl e | Inr a \<Rightarrow> f a)"

lemma bind_result_simps [simp]:
  "bind_result (Inl e) f = Inl e"
  "bind_result (Inr a) f = f a"
  by (simp_all add: bind_result_def)

lemma bind_result_Inr_iff: "bind_result x f = Inr b \<longleftrightarrow> (\<exists>a. x = Inr a \<and> f a = Inr b)"
  by (cases x) simp_all

lemma bind_result_cong [fundef_cong]:
  "x = y \<Longrightarrow> (\<And>a. y = Inr a \<Longrightarrow> f a = g a) \<Longrightarrow> bind_result x f = bind_result y g"
  by (cases y) simp_all

definition loop_result :: "'a option \<Rightarrow> 'a result" where
  "loop_result x = (case x of None \<Rightarrow> Inl Diverges | Some a \<Rightarrow> Inr a)"

lemma loop_result_simps [simp]:
  "loop_result None = Inl Diverges"
  "loop_result (Some a) = Inr a"
  by (simp_all add: loop_result_def)

lemma loop_result_Inr_iff [simp]: "loop_result x = Inr a \<longleftrightarrow> x = Some a"
  by (cases x) simp_all

section \<open>Little-endian byte images\<close>

fun le_nat :: "u8 list \<Rightarrow> nat" where
  "le_nat [] = 0"
| "le_nat (b # bs) = unat b + 256 * le_nat bs"

definition load_le :: "u8 list \<Rightarrow> 'a::len word" where
  "load_le bs = of_nat (le_nat bs)"

fun nat_le :: "nat \<Rightarrow> nat \<Rightarrow> u8 list" where
  "nat_le 0 v = []"
| "nat_le (Suc n) v = of_nat (v mod 256) # nat_le n (v div 256)"

definition store_le :: "'a::len word \<Rightarrow> u8 list" where
  "store_le w = nat_le (LENGTH('a) div 8) (unat w)"

text \<open>The bytes \<open>[off, off + n)\<close> of a buffer, as \<open>memcpy(dst, buf + off, n)\<close> copies them.\<close>

definition bytes_at :: "u8 list \<Rightarrow> nat \<Rightarrow> nat \<Rightarrow> u8 list" where
  "bytes_at bs off n = take n (drop off bs)"

lemma unat_u8_less: "unat (b :: u8) < 256"
  using unsigned_less [of b] by simp

lemma le_nat_bound: "le_nat bs < 256 ^ length bs"
proof (induction bs)
  case Nil
  then show ?case by simp
next
  case (Cons b bs)
  have "unat b < 256" by (rule unat_u8_less)
  with Cons show ?case by simp
qed

lemma length_nat_le [simp]: "length (nat_le n v) = n"
  by (induction n arbitrary: v) auto

lemma le_nat_nat_le: "le_nat (nat_le n v) = v mod 256 ^ n"
proof (induction n arbitrary: v)
  case 0
  then show ?case by simp
next
  case (Suc n)
  have "unat (of_nat (v mod 256) :: u8) = v mod 256"
    by (simp add: unat_of_nat)
  moreover have "v mod 256 + 256 * (v div 256 mod 256 ^ n) = v mod 256 ^ Suc n"
    by (simp add: mod_mult2_eq)
  ultimately show ?case by (simp add: Suc)
qed

lemma nat_le_le_nat: "nat_le (length bs) (le_nat bs) = bs"
proof (induction bs)
  case Nil
  then show ?case by simp
next
  case (Cons b bs)
  have "unat b < 256" by (rule unat_u8_less)
  then have "(unat b + 256 * le_nat bs) mod 256 = unat b"
    and "(unat b + 256 * le_nat bs) div 256 = le_nat bs" by simp_all
  with Cons show ?case by simp
qed

lemma le_nat_append: "le_nat (xs @ ys) = le_nat xs + 256 ^ length xs * le_nat ys"
  by (induction xs) (simp_all add: algebra_simps)

lemma byte_power:
  assumes "8 * n = m"
  shows "(256::nat) ^ n = 2 ^ m"
proof -
  have "(256::nat) ^ n = (2 ^ 8) ^ n" by simp
  also have "\<dots> = 2 ^ (8 * n)" by (rule power_mult [symmetric])
  finally show ?thesis using assms by simp
qed

lemma le_nat_store_le:
  assumes "8 dvd LENGTH('a)"
  shows "le_nat (store_le (w :: 'a::len word)) = unat w"
proof -
  have "(256::nat) ^ (LENGTH('a) div 8) = 2 ^ LENGTH('a)"
    using assms by (intro byte_power) simp
  then show ?thesis
    by (simp add: store_le_def le_nat_nat_le unsigned_less)
qed

lemma load_store_le:
  assumes "8 dvd LENGTH('a)"
  shows "load_le (store_le (w :: 'a::len word)) = w"
  using le_nat_store_le [OF assms] by (simp add: load_le_def)

lemma unat_load_le:
  assumes "8 * length bs = LENGTH('a)"
  shows "unat (load_le bs :: 'a::len word) = le_nat bs"
proof -
  have "le_nat bs < 2 ^ LENGTH('a)"
    using le_nat_bound [of bs] byte_power [OF assms] by simp
  then show ?thesis by (simp add: load_le_def unat_of_nat)
qed

lemma store_load_le:
  assumes "8 * length bs = LENGTH('a)"
  shows "store_le (load_le bs :: 'a::len word) = bs"
proof -
  have "LENGTH('a) div 8 = length bs" using assms by simp
  then show ?thesis by (simp add: store_le_def unat_load_le [OF assms] nat_le_le_nat)
qed

lemma length_store_le [simp]: "length (store_le (w :: 'a::len word)) = LENGTH('a) div 8"
  by (simp add: store_le_def)

lemma length_bytes_at [simp]: "length (bytes_at bs off n) = min n (length bs - off)"
  by (simp add: bytes_at_def)

text \<open>A 32-bit word of 24 and 8 bits, the header of packets and of log events.\<close>

lemma word_lo24: "(c :: u32) AND 0xFFFFFF = of_nat (unat c mod 2 ^ 24)"
proof -
  have "(0xFFFFFF :: u32) = mask 24" by (simp add: mask_eq_exp_minus_1)
  then have "c AND 0xFFFFFF = take_bit 24 c" by (simp add: take_bit_eq_mask)
  also have "\<dots> = of_nat (unat (take_bit 24 c))" by simp
  also have "unat (take_bit 24 c) = unat c mod 2 ^ 24"
    unfolding unsigned_take_bit_eq by (simp add: take_bit_eq_mod)
  finally show ?thesis .
qed

lemma word_hi8: "drop_bit 24 (c :: u32) AND 0xFF = of_nat (unat c div 2 ^ 24)"
proof -
  have "unat c < 2 ^ 32" using unsigned_less [of c] by simp
  then have lt: "unat c div 2 ^ 24 < 2 ^ 8" by (simp add: less_mult_imp_div_less)
  have "(0xFF :: u32) = mask 8" by (simp add: mask_eq_exp_minus_1)
  then have "drop_bit 24 c AND 0xFF = take_bit 8 (drop_bit 24 c)" by (simp add: take_bit_eq_mask)
  also have "\<dots> = of_nat (unat (take_bit 8 (drop_bit 24 c)))" by simp
  also have "unat (take_bit 8 (drop_bit 24 c)) = unat c div 2 ^ 24"
    using lt by (simp only: unsigned_take_bit_eq unsigned_drop_bit_eq) (simp add: drop_bit_eq_div take_bit_nat_eq_self)
  finally show ?thesis .
qed

lemma combo_split:
  fixes t :: u8
  assumes "n < 2 ^ 24"
  defines "c \<equiv> load_le (nat_le 3 n @ [t]) :: u32"
  shows "drop_bit 24 c AND 0xFF = ucast t" and "c AND 0x00FFFFFF = of_nat n"
proof -
  have "unat c = le_nat (nat_le 3 n @ [t])" unfolding c_def by (rule unat_load_le) simp
  also have "\<dots> = n + 2 ^ 24 * unat t" using assms(1) by (simp add: le_nat_append le_nat_nat_le)
  finally have c: "unat c = n + 2 ^ 24 * unat t" .
  show "drop_bit 24 c AND 0xFF = ucast t"
    unfolding word_hi8 c using assms(1) by simp
  show "c AND 0x00FFFFFF = of_nat n"
    unfolding word_lo24 c using assms(1) by simp
qed

end
