(* ===== verification/OpenAddressing.thy ===== *)
theory OpenAddressing
  imports BobPrelude
begin

text \<open>
  The linear probing loop of \<open>Entity.h\<close> and \<open>Asset.h\<close> (\<open>iteration: ... index = (index + 1)
  & (CAPACITY - 1); goto iteration;\<close>) and the theory of open-addressing tables it serves. The
  loop may run forever, so it is a partial function: \<open>None\<close> is "does not return". The locale
  \<open>probe_table\<close> states what a table client relies on: a key of every occupied slot and a home
  slot of every key. Its lemmas say what a probe finds, that storing at the slot a probe found
  is a map update, and that the placement invariant is kept.
\<close>

section \<open>The probing loop\<close>

partial_function (option) probe :: "nat \<Rightarrow> (nat \<Rightarrow> bool) \<Rightarrow> nat \<Rightarrow> nat option" where
  "probe cap stop index =
     (if stop index then Some index
      else probe cap stop ((index + 1) AND (cap - 1)))"

text \<open>The slot \<open>d\<close> steps after \<open>i\<close> on the ring of \<open>cap\<close> slots.\<close>

definition ring_pos :: "nat \<Rightarrow> nat \<Rightarrow> nat \<Rightarrow> nat" where
  "ring_pos cap i d = (i + d) mod cap"

lemma mask_step: "(i + 1) AND (2 ^ k - 1) = ((i + 1) mod 2 ^ k :: nat)"
  by (metis take_bit_eq_mask mask_eq_exp_minus_1 take_bit_eq_mod)

lemma ring_pos_0 [simp]: "i < cap \<Longrightarrow> ring_pos cap i 0 = i"
  by (simp add: ring_pos_def)

lemma ring_pos_Suc: "ring_pos cap i (Suc d) = ring_pos cap ((i + 1) mod cap) d"
  by (simp add: ring_pos_def mod_add_left_eq)

lemma ring_pos_less [simp]: "0 < cap \<Longrightarrow> ring_pos cap i d < cap"
  by (simp add: ring_pos_def)

text \<open>Every slot is reached from every other one in fewer than \<open>cap\<close> steps, in one way.\<close>

lemma ring_pos_surj:
  assumes "i < cap" and "j < cap"
  shows "\<exists>d<cap. ring_pos cap i d = j"
proof (cases "i \<le> j")
  case True
  with assms have "ring_pos cap i (j - i) = j" by (simp add: ring_pos_def)
  moreover have "j - i < cap" using assms by simp
  ultimately show ?thesis by blast
next
  case False
  with assms have "i + (cap + j - i) = j + cap" by simp
  then have "ring_pos cap i (cap + j - i) = j" using assms by (simp add: ring_pos_def)
  moreover have "cap + j - i < cap" using False assms by simp
  ultimately show ?thesis by blast
qed

lemma ring_pos_inj_le:
  assumes "ring_pos cap i d = ring_pos cap i e" and "d \<le> e" and "e < cap"
  shows "d = e"
proof -
  have "(i + e) mod cap = (i + d) mod cap" using assms(1) by (simp add: ring_pos_def)
  then have "cap dvd (i + e) - (i + d)" using assms(2) by (simp add: mod_eq_dvd_iff_nat)
  then have "cap dvd e - d" by simp
  moreover have "e - d < cap" using assms(3) by simp
  ultimately have "e - d = 0" using nat_dvd_not_less by blast
  with assms(2) show ?thesis by simp
qed

lemma ring_pos_inj:
  assumes "ring_pos cap i d = ring_pos cap i e" and "d < cap" and "e < cap"
  shows "d = e"
  using ring_pos_inj_le [of cap i d e] ring_pos_inj_le [of cap i e d] assms
  by (cases "d \<le> e") auto

text \<open>
  What the loop computes, for a capacity that is a power of two: the first slot at or after the
  start where the condition holds. It returns exactly when some slot satisfies the condition.
\<close>

lemma probe_first:
  assumes "i < 2 ^ k" and "stop (ring_pos (2 ^ k) i d)"
    and "\<And>e. e < d \<Longrightarrow> \<not> stop (ring_pos (2 ^ k) i e)"
  shows "probe (2 ^ k) stop i = Some (ring_pos (2 ^ k) i d)"
  using assms
proof (induction d arbitrary: i)
  case 0
  then show ?case by (simp add: probe.simps)
next
  case (Suc d)
  have "\<not> stop i" using Suc.prems(1) Suc.prems(3) [of 0] by simp
  moreover have "probe (2 ^ k) stop ((i + 1) mod 2 ^ k) = Some (ring_pos (2 ^ k) ((i + 1) mod 2 ^ k) d)"
  proof (rule Suc.IH)
    show "(i + 1) mod 2 ^ k < (2 :: nat) ^ k" by simp
    show "stop (ring_pos (2 ^ k) ((i + 1) mod 2 ^ k) d)"
      using Suc.prems(2) by (simp add: ring_pos_Suc)
    show "\<not> stop (ring_pos (2 ^ k) ((i + 1) mod 2 ^ k) e)" if "e < d" for e
      using Suc.prems(3) [of "Suc e"] that by (simp add: ring_pos_Suc)
  qed
  ultimately show ?case
    by (subst probe.simps) (simp only: mask_step ring_pos_Suc if_False)
qed

lemma probe_returns:
  assumes "i < 2 ^ k" and "j < 2 ^ k" and "stop j"
  shows "\<exists>d<2 ^ k. probe (2 ^ k) stop i = Some (ring_pos (2 ^ k) i d) \<and>
           stop (ring_pos (2 ^ k) i d) \<and> (\<forall>e<d. \<not> stop (ring_pos (2 ^ k) i e))"
proof -
  obtain d0 where d0: "d0 < 2 ^ k" "stop (ring_pos (2 ^ k) i d0)"
    using ring_pos_surj [OF assms(1,2)] assms(3) by auto
  define d where "d = (LEAST d. stop (ring_pos (2 ^ k) i d))"
  have "stop (ring_pos (2 ^ k) i d)" unfolding d_def by (rule LeastI) (rule d0(2))
  moreover have "\<not> stop (ring_pos (2 ^ k) i e)" if "e < d" for e
    using that unfolding d_def by (rule not_less_Least)
  moreover have "d < 2 ^ k"
    using Least_le [of "\<lambda>d. stop (ring_pos (2 ^ k) i d)", OF d0(2)] d0(1) by (simp add: d_def)
  ultimately show ?thesis using probe_first [OF assms(1)] by blast
qed

lemma probe_stops:
  assumes "probe cap stop i = Some j"
  shows "stop j"
proof (rule probe.raw_induct [where P = "\<lambda>cap stop i j. stop j", OF _ assms])
  fix f :: "nat \<Rightarrow> (nat \<Rightarrow> bool) \<Rightarrow> nat \<Rightarrow> nat option" and cap stop i j
  assume "\<And>cap stop i j. f cap stop i = Some j \<Longrightarrow> stop j"
    and "(if stop i then Some i else f cap stop ((i + 1) AND (cap - 1))) = Some j"
  then show "stop j" by (auto split: if_splits)
qed

lemma probe_less:
  assumes "probe cap stop i = Some j" and "cap = 2 ^ k" and "i < 2 ^ k"
  shows "j < 2 ^ k"
proof -
  have "cap = 2 ^ k \<longrightarrow> i < 2 ^ k \<longrightarrow> j < 2 ^ k"
  proof (rule probe.raw_induct
      [where P = "\<lambda>cap stop i j. cap = 2 ^ k \<longrightarrow> i < 2 ^ k \<longrightarrow> j < 2 ^ k", OF _ assms(1)])
    fix f :: "nat \<Rightarrow> (nat \<Rightarrow> bool) \<Rightarrow> nat \<Rightarrow> nat option" and cap stop i j
    assume IH: "\<And>cap stop i j. f cap stop i = Some j \<Longrightarrow>
        cap = 2 ^ k \<longrightarrow> i < 2 ^ k \<longrightarrow> j < 2 ^ k"
      and eq: "(if stop i then Some i else f cap stop ((i + 1) AND (cap - 1))) = Some j"
    have "(i + 1) AND (2 ^ k - 1) < (2 :: nat) ^ k" by (simp only: mask_step) simp
    with IH eq show "cap = 2 ^ k \<longrightarrow> i < 2 ^ k \<longrightarrow> j < 2 ^ k" by (auto split: if_splits)
  qed
  with assms(2,3) show ?thesis by blast
qed

lemma probe_Some_iff:
  assumes "i < 2 ^ k"
  shows "probe (2 ^ k) stop i = Some j \<longleftrightarrow>
    (\<exists>d<2 ^ k. j = ring_pos (2 ^ k) i d \<and> stop j \<and> (\<forall>e<d. \<not> stop (ring_pos (2 ^ k) i e)))"
    (is "?l \<longleftrightarrow> ?r")
proof
  assume ?l
  from probe_returns [where stop = stop, OF assms probe_less [OF \<open>?l\<close> refl assms] probe_stops [OF \<open>?l\<close>]] \<open>?l\<close>
  show ?r by auto
next
  assume ?r
  then show ?l using probe_first [OF assms] by blast
qed

lemma probe_diverges_iff:
  assumes "i < 2 ^ k"
  shows "probe (2 ^ k) stop i = None \<longleftrightarrow> (\<forall>j<2 ^ k. \<not> stop j)"
proof
  assume "probe (2 ^ k) stop i = None"
  then show "\<forall>j<2 ^ k. \<not> stop j" using probe_returns [OF assms] by fastforce
next
  assume none: "\<forall>j<2 ^ k. \<not> stop j"
  show "probe (2 ^ k) stop i = None"
  proof (cases "probe (2 ^ k) stop i")
    case (Some j)
    then show ?thesis using none probe_less [OF Some refl assms] probe_stops [OF Some] by blast
  qed
qed

text \<open>Slots known not to stop the loop can be skipped.\<close>

lemma probe_skip:
  assumes "i < 2 ^ k" and "\<And>e. e \<le> d \<Longrightarrow> \<not> stop (ring_pos (2 ^ k) i e)"
  shows "probe (2 ^ k) stop ((ring_pos (2 ^ k) i d + 1) AND (2 ^ k - 1)) = probe (2 ^ k) stop i"
  using assms
proof (induction d arbitrary: i)
  case 0
  then have "\<not> stop i" using "0.prems"(2) [of 0] by simp
  then show ?case using 0 by (subst (2) probe.simps) simp
next
  case (Suc d)
  have "\<not> stop i" using Suc.prems(1) Suc.prems(2) [of 0] by simp
  then have "probe (2 ^ k) stop i = probe (2 ^ k) stop ((i + 1) mod 2 ^ k)"
    by (subst probe.simps) (simp only: mask_step if_False)
  also have "\<dots> = probe (2 ^ k) stop ((ring_pos (2 ^ k) ((i + 1) mod 2 ^ k) d + 1) AND (2 ^ k - 1))"
  proof (rule Suc.IH [symmetric])
    show "(i + 1) mod 2 ^ k < (2 :: nat) ^ k" by simp
    show "\<not> stop (ring_pos (2 ^ k) ((i + 1) mod 2 ^ k) e)" if "e \<le> d" for e
      using Suc.prems(2) [of "Suc e"] that by (simp add: ring_pos_Suc)
  qed
  finally show ?case by (simp only: ring_pos_Suc)
qed

section \<open>Open-addressing tables\<close>

lemma option_eqI: "(\<And>x. a = Some x \<longleftrightarrow> b = Some x) \<Longrightarrow> a = b"
  by (cases a; cases b) auto

text \<open>
  A table of \<open>cap\<close> slots. \<open>keyof\<close> gives the key of an occupied slot and \<open>None\<close> for an empty one,
  \<open>home\<close> the slot where the search for a key starts.
  \<open>table_ok\<close>: no probe path from a key's home to the slot that holds it crosses an empty slot,
  and no key is stored twice. \<open>table_map\<close> is the map the table stands for.
\<close>

definition table_ok :: "nat \<Rightarrow> ('r \<Rightarrow> 'k option) \<Rightarrow> ('k \<Rightarrow> nat) \<Rightarrow> (nat \<Rightarrow> 'r) \<Rightarrow> bool" where
  "table_ok cap keyof home t \<longleftrightarrow>
     (\<forall>k. \<forall>d<cap. keyof (t (ring_pos cap (home k) d)) = Some k \<longrightarrow>
        (\<forall>e<d. keyof (t (ring_pos cap (home k) e)) \<noteq> None)) \<and>
     (\<forall>k. \<forall>i<cap. \<forall>j<cap. keyof (t i) = Some k \<longrightarrow> keyof (t j) = Some k \<longrightarrow> i = j)"

definition table_map :: "nat \<Rightarrow> ('r \<Rightarrow> 'k option) \<Rightarrow> (nat \<Rightarrow> 'r) \<Rightarrow> 'k \<Rightarrow> 'r option" where
  "table_map cap keyof t k = find (\<lambda>r. keyof r = Some k) (map t [0..<cap])"

definition free_slots :: "nat \<Rightarrow> ('r \<Rightarrow> 'k option) \<Rightarrow> (nat \<Rightarrow> 'r) \<Rightarrow> nat set" where
  "free_slots cap keyof t = {i. i < cap \<and> keyof (t i) = None}"

text \<open>The stopping condition of a search for \<open>k\<close>: an empty slot or the slot of \<open>k\<close>.\<close>

definition slot_for :: "('r \<Rightarrow> 'k option) \<Rightarrow> (nat \<Rightarrow> 'r) \<Rightarrow> 'k \<Rightarrow> nat \<Rightarrow> bool" where
  "slot_for keyof t k i \<longleftrightarrow> keyof (t i) = None \<or> keyof (t i) = Some k"

lemma table_map_None_iff: "table_map cap keyof t k = None \<longleftrightarrow> (\<forall>i<cap. keyof (t i) \<noteq> Some k)"
  by (auto simp: table_map_def find_None_iff)

lemma table_map_SomeD: "table_map cap keyof t k = Some r \<Longrightarrow> \<exists>i<cap. t i = r \<and> keyof r = Some k"
  by (auto simp: table_map_def find_Some_iff)

lemma finite_free_slots [simp]: "finite (free_slots cap keyof t)"
  by (simp add: free_slots_def)

lemma free_slots_update:
  assumes "keyof r \<noteq> None"
  shows "free_slots cap keyof (t(j := r)) = free_slots cap keyof t - {j}"
  using assms by (auto simp: free_slots_def)

lemma free_slots_same:
  assumes "keyof r = keyof (t j)"
  shows "free_slots cap keyof (t(j := r)) = free_slots cap keyof t"
  using assms by (auto simp: free_slots_def)

locale probe_table =
  fixes cap :: nat and keyof :: "'r \<Rightarrow> 'k option" and home :: "'k \<Rightarrow> nat"
  assumes cap_pow2: "\<exists>n. cap = 2 ^ n" and home_less: "home k < cap"
begin

lemma cap_pos: "0 < cap"
  using cap_pow2 by auto

text \<open>The facts on the loop, at this capacity.\<close>

lemma cap_probe_Some:
  "i < cap \<Longrightarrow> probe cap stop i = Some j \<longleftrightarrow>
    (\<exists>d<cap. j = ring_pos cap i d \<and> stop j \<and> (\<forall>e<d. \<not> stop (ring_pos cap i e)))"
  using cap_pow2 probe_Some_iff by blast

lemma cap_probe_less: "probe cap stop i = Some j \<Longrightarrow> i < cap \<Longrightarrow> j < cap"
  using cap_pow2 probe_less by blast

lemma cap_probe_returns: "i < cap \<Longrightarrow> j < cap \<Longrightarrow> stop j \<Longrightarrow> \<exists>j'<cap. probe cap stop i = Some j'"
  using cap_pow2 probe_returns [of i _ j stop] cap_pos ring_pos_less by metis

lemma cap_probe_cong:
  assumes "i < cap" and "\<And>j. j < cap \<Longrightarrow> stop j = stop' j"
  shows "probe cap stop i = probe cap stop' i"
proof (rule option_eqI)
  fix x
  show "probe cap stop i = Some x \<longleftrightarrow> probe cap stop' i = Some x"
    unfolding cap_probe_Some [OF assms(1)] using assms(2) cap_pos by (metis ring_pos_less)
qed

lemma table_map_Some_iff:
  assumes ok: "table_ok cap keyof home t"
  shows "table_map cap keyof t k = Some r \<longleftrightarrow> (\<exists>i<cap. t i = r \<and> keyof r = Some k)"
proof
  assume "\<exists>i<cap. t i = r \<and> keyof r = Some k"
  then obtain i where i: "i < cap" "t i = r" "keyof (t i) = Some k" by auto
  then have "table_map cap keyof t k \<noteq> None" by (auto simp: table_map_None_iff)
  then obtain r' where r': "table_map cap keyof t k = Some r'" by blast
  from table_map_SomeD [OF this] obtain j
    where "j < cap" "t j = r'" "keyof (t j) = Some k" by auto
  with ok i have "j = i" unfolding table_ok_def by blast
  with i r' \<open>t j = r'\<close> show "table_map cap keyof t k = Some r" by simp
qed (rule table_map_SomeD)

text \<open>A search returns as soon as the table has an empty slot or holds the key.\<close>

lemma search_returns:
  assumes "free_slots cap keyof t \<noteq> {} \<or> table_map cap keyof t k \<noteq> None"
  shows "\<exists>j<cap. probe cap (slot_for keyof t k) (home k) = Some j"
proof -
  obtain i where "i < cap" "slot_for keyof t k i"
    using assms by (fastforce simp: free_slots_def slot_for_def dest: table_map_SomeD)
  then show ?thesis using cap_probe_returns [OF home_less] by blast
qed

lemma search_absent:
  assumes ok: "table_ok cap keyof home t"
    and found: "probe cap (slot_for keyof t k) (home k) = Some j"
    and empty: "keyof (t j) = None"
  shows "table_map cap keyof t k = None"
  unfolding table_map_None_iff
proof (intro allI impI notI)
  fix i :: nat assume i: "i < cap" "keyof (t i) = Some k"
  obtain d where d: "d < cap" "j = ring_pos cap (home k) d"
    and before: "\<forall>e<d. \<not> slot_for keyof t k (ring_pos cap (home k) e)"
    using found unfolding cap_probe_Some [OF home_less] by blast
  obtain c where c: "c < cap" "ring_pos cap (home k) c = i"
    using ring_pos_surj [OF home_less i(1)] by blast
  have "\<not> c < d" using before i(2) c(2) by (auto simp: slot_for_def)
  moreover have "c \<noteq> d" using c(2) d(2) i(2) empty by auto
  ultimately have "d < c" by simp
  then have "keyof (t j) \<noteq> None" using ok c i(2) d(2) unfolding table_ok_def by blast
  with empty show False by simp
qed

lemma search_present:
  assumes ok: "table_ok cap keyof home t"
    and found: "probe cap (slot_for keyof t k) (home k) = Some j"
    and occ: "keyof (t j) \<noteq> None"
  shows "keyof (t j) = Some k \<and> table_map cap keyof t k = Some (t j)"
proof -
  have "keyof (t j) = Some k" using probe_stops [OF found] occ by (simp add: slot_for_def)
  moreover have "j < cap" using cap_probe_less [OF found home_less] .
  ultimately show ?thesis using table_map_Some_iff [OF ok] by blast
qed

lemma search_slot_cases:
  assumes ok: "table_ok cap keyof home t"
    and found: "probe cap (slot_for keyof t k) (home k) = Some j"
  shows "table_map cap keyof t k = (if keyof (t j) = None then None else Some (t j))"
  using search_absent [OF assms] search_present [OF assms] by auto

text \<open>Filling the empty end of a probe path with a new key keeps the placement invariant.\<close>

lemma fill_ok:
  assumes ok: "table_ok cap keyof home t"
    and key: "keyof r = Some k" and d: "d < cap"
    and path: "\<forall>e<d. keyof (t (ring_pos cap (home k) e)) \<noteq> None"
    and new: "\<forall>i<cap. i \<noteq> ring_pos cap (home k) d \<longrightarrow> keyof (t i) \<noteq> Some k"
    and slot: "keyof (t (ring_pos cap (home k) d)) = None \<or>
               keyof (t (ring_pos cap (home k) d)) = Some k"
  shows "table_ok cap keyof home (t(ring_pos cap (home k) d := r))"
    (is "table_ok _ _ _ (t(?j := r))")
proof -
  have keys: "keyof ((t(?j := r)) i) = (if i = ?j then Some k else keyof (t i))" for i
    using key by simp
  have path_ok: "keyof ((t(?j := r)) (ring_pos cap (home l) e)) \<noteq> None"
    if l: "keyof ((t(?j := r)) (ring_pos cap (home l) c)) = Some l"
      and "c < cap" and "e < c" for l c e
  proof (cases "ring_pos cap (home l) c = ?j")
    case True
    with l key have "l = k" by simp
    with True have "c = d" using ring_pos_inj that(2) d by blast
    with path that(3) \<open>l = k\<close> key show ?thesis by auto
  next
    case False
    with l have "keyof (t (ring_pos cap (home l) c)) = Some l" by simp
    with ok that(2,3) have "keyof (t (ring_pos cap (home l) e)) \<noteq> None"
      unfolding table_ok_def by blast
    with key show ?thesis by auto
  qed
  have "i = i'" if "i < cap" "i' < cap"
    "keyof ((t(?j := r)) i) = Some l" "keyof ((t(?j := r)) i') = Some l" for l i i'
    using that new ok unfolding keys table_ok_def by (metis option.inject)
  with path_ok show ?thesis unfolding table_ok_def by blast
qed

lemma store_ok:
  assumes ok: "table_ok cap keyof home t"
    and found: "probe cap (slot_for keyof t k) (home k) = Some j"
    and key: "keyof r = Some k"
  shows "table_ok cap keyof home (t(j := r))"
proof -
  obtain d where d: "d < cap" "j = ring_pos cap (home k) d"
    and stop: "slot_for keyof t k j"
    and before: "\<forall>e<d. \<not> slot_for keyof t k (ring_pos cap (home k) e)"
    using found unfolding cap_probe_Some [OF home_less] by blast
  have j: "j < cap" using d(2) cap_pos by simp
  have new: "keyof (t i) \<noteq> Some k" if "i < cap" "i \<noteq> j" for i
  proof (cases "keyof (t j) = None")
    case True
    with search_absent [OF ok found] that(1) show ?thesis by (simp add: table_map_None_iff)
  next
    case False
    with search_present [OF ok found] ok that j show ?thesis unfolding table_ok_def by blast
  qed
  show ?thesis unfolding d(2)
  proof (rule fill_ok [OF ok key d(1)])
    show "\<forall>e<d. keyof (t (ring_pos cap (home k) e)) \<noteq> None"
      using before by (auto simp: slot_for_def)
    show "\<forall>i<cap. i \<noteq> ring_pos cap (home k) d \<longrightarrow> keyof (t i) \<noteq> Some k"
      using new d(2) by blast
    show "keyof (t (ring_pos cap (home k) d)) = None \<or>
          keyof (t (ring_pos cap (home k) d)) = Some k"
      using stop d(2) by (simp add: slot_for_def)
  qed
qed

text \<open>
  A new key next to an occupied slot of its own probe path: looking for an empty slot after that
  slot is the search for the key from its home.
\<close>

lemma search_after:
  assumes found: "probe cap stop (home k) = Some i"
    and passed: "\<And>j. j < cap \<Longrightarrow> keyof (t j) = None \<Longrightarrow> stop j"
    and occ: "keyof (t i) \<noteq> None"
    and absent: "table_map cap keyof t k = None"
  shows "probe cap (\<lambda>j. keyof (t j) = None) ((i + 1) AND (cap - 1)) =
         probe cap (slot_for keyof t k) (home k)"
proof -
  obtain n where n: "cap = 2 ^ n" using cap_pow2 by blast
  obtain d where d: "i = ring_pos cap (home k) d" "\<forall>e<d. \<not> stop (ring_pos cap (home k) e)"
    using found unfolding cap_probe_Some [OF home_less] by blast
  have "keyof (t (ring_pos cap (home k) e)) \<noteq> None" if "e \<le> d" for e
  proof (cases "e = d")
    case True
    with occ d(1) show ?thesis by simp
  next
    case False
    with that d(2) have "\<not> stop (ring_pos cap (home k) e)" by simp
    with passed cap_pos show ?thesis by (metis ring_pos_less)
  qed
  then have "probe cap (\<lambda>j. keyof (t j) = None) ((i + 1) AND (cap - 1)) =
      probe cap (\<lambda>j. keyof (t j) = None) (home k)"
    using probe_skip [of "home k" n d "\<lambda>j. keyof (t j) = None"] home_less d(1) unfolding n by blast
  also have "\<dots> = probe cap (slot_for keyof t k) (home k)"
    using absent by (intro cap_probe_cong home_less) (auto simp: slot_for_def table_map_None_iff)
  finally show ?thesis .
qed

text \<open>Updating a slot in place without changing its key keeps the invariant.\<close>

lemma rewrite_ok:
  assumes ok: "table_ok cap keyof home t" and key: "keyof r = keyof (t i)"
  shows "table_ok cap keyof home (t(i := r))"
proof -
  have "keyof ((t(i := r)) j) = keyof (t j)" for j using key by simp
  with ok show ?thesis unfolding table_ok_def by simp
qed

text \<open>Storing a record under its key at slot \<open>j\<close> is a map update.\<close>

lemma map_store:
  assumes ok: "table_ok cap keyof home t"
    and ok': "table_ok cap keyof home (t(j := r))"
    and j: "j < cap" and key: "keyof r = Some k"
    and old: "keyof (t j) = None \<or> keyof (t j) = Some k"
  shows "table_map cap keyof (t(j := r)) = (table_map cap keyof t)(k \<mapsto> r)"
proof
  fix l
  show "table_map cap keyof (t(j := r)) l = ((table_map cap keyof t)(k \<mapsto> r)) l"
  proof (cases "l = k")
    case True
    have "(t(j := r)) j = r \<and> keyof r = Some k" using key by simp
    with j have "table_map cap keyof (t(j := r)) k = Some r"
      using table_map_Some_iff [OF ok'] by blast
    with True show ?thesis by simp
  next
    case False
    have eq: "(\<exists>i<cap. (t(j := r)) i = x \<and> keyof x = Some l) \<longleftrightarrow>
        (\<exists>i<cap. t i = x \<and> keyof x = Some l)" for x
    proof -
      have neq: "keyof (t j) \<noteq> Some l" "keyof r \<noteq> Some l" using old key False by auto
      show ?thesis
      proof
        assume "\<exists>i<cap. (t(j := r)) i = x \<and> keyof x = Some l"
        then obtain i where "i < cap" "(t(j := r)) i = x" "keyof x = Some l" by blast
        then show "\<exists>i<cap. t i = x \<and> keyof x = Some l"
          using neq(2) by (cases "i = j") auto
      next
        assume "\<exists>i<cap. t i = x \<and> keyof x = Some l"
        then obtain i where "i < cap" "t i = x" "keyof x = Some l" by blast
        moreover from this have "i \<noteq> j" using neq(1) by auto
        ultimately show "\<exists>i<cap. (t(j := r)) i = x \<and> keyof x = Some l"
          by (intro exI [of _ i]) simp
      qed
    qed
    have "table_map cap keyof (t(j := r)) l = Some x \<longleftrightarrow>
        table_map cap keyof t l = Some x" for x
      unfolding table_map_Some_iff [OF ok] table_map_Some_iff [OF ok'] by (rule eq)
    then have "table_map cap keyof (t(j := r)) l = table_map cap keyof t l"
      by (rule option_eqI)
    with False show ?thesis by simp
  qed
qed

lemma map_store_searched:
  assumes ok: "table_ok cap keyof home t"
    and found: "probe cap (slot_for keyof t k) (home k) = Some j"
    and key: "keyof r = Some k"
  shows "table_map cap keyof (t(j := r)) = (table_map cap keyof t)(k \<mapsto> r)"
proof (rule map_store [OF ok store_ok [OF assms] _ key])
  show "j < cap" using cap_probe_less [OF found home_less] .
  show "keyof (t j) = None \<or> keyof (t j) = Some k"
    using probe_stops [OF found] by (simp add: slot_for_def)
qed

lemma map_rewrite:
  assumes ok: "table_ok cap keyof home t" and i: "i < cap"
    and key: "keyof (t i) = Some k" "keyof r = Some k"
  shows "table_map cap keyof (t(i := r)) = (table_map cap keyof t)(k \<mapsto> r)"
  using map_store [OF ok rewrite_ok [OF ok] i] key by simp

end

end
