(* ===== verification/M256.thy ===== *)
theory M256
  imports BobPrelude
begin

text \<open>
  The 256-bit identifiers of \<open>m256i.h\<close>: public keys, digests and hashes. The union is its 256
  bits, \<open>m256i_u64[i]\<close>, \<open>m256i_u32[0]\<close> and the 32 bytes are views of them. The comparison
  operators are modelled as the source computes them (lane masks, a loop over the four 64-bit
  lanes) and proved to be equality and a strict total order, which \<open>std::map<m256i, bool>\<close> needs.
\<close>

definition m256i_u64 :: "m256 \<Rightarrow> nat \<Rightarrow> u64" where
  "m256i_u64 a i = ucast (drop_bit (64 * i) a)"

definition m256i_u32_0 :: "m256 \<Rightarrow> u32" where
  "m256i_u32_0 a = ucast a"

definition m256i_u8 :: "m256 \<Rightarrow> u8 list" where
  "m256i_u8 a = store_le a"

text \<open>The constructor from four 64-bit lanes, lowest lane first.\<close>

definition m256i_of_u64 :: "u64 \<Rightarrow> u64 \<Rightarrow> u64 \<Rightarrow> u64 \<Rightarrow> m256" where
  "m256i_of_u64 ull0 ull1 ull2 ull3 =
     ucast ull0 OR push_bit 64 (ucast ull1) OR push_bit 128 (ucast ull2) OR push_bit 192 (ucast ull3)"

definition m256i_of_bytes :: "u8 list \<Rightarrow> m256" where
  "m256i_of_bytes bs = load_le bs"

text \<open>
  \<open>_mm256_cmpeq_epi64\<close> sets a lane to all ones where the lanes agree and to zero elsewhere;
  \<open>_mm256_movemask_epi8\<close> collects the 32 top bits of the bytes, so an equal lane contributes
  \<open>0xFF\<close> at its place.
\<close>

definition cmpeq_movemask :: "m256 \<Rightarrow> m256 \<Rightarrow> u32" where
  "cmpeq_movemask a b =
     (if m256i_u64 a 0 = m256i_u64 b 0 then 0x000000FF else 0) OR
     (if m256i_u64 a 1 = m256i_u64 b 1 then 0x0000FF00 else 0) OR
     (if m256i_u64 a 2 = m256i_u64 b 2 then 0x00FF0000 else 0) OR
     (if m256i_u64 a 3 = m256i_u64 b 3 then 0xFF000000 else 0)"

definition m256i_eq :: "m256 \<Rightarrow> m256 \<Rightarrow> bool" where
  "m256i_eq a b \<longleftrightarrow> cmpeq_movemask a b = 0xFFFFFFFF"

definition m256i_neq :: "m256 \<Rightarrow> m256 \<Rightarrow> bool" where
  "m256i_neq a b \<longleftrightarrow> cmpeq_movemask a b \<noteq> 0xFFFFFFFF"

fun m256i_less_from :: "nat list \<Rightarrow> m256 \<Rightarrow> m256 \<Rightarrow> bool" where
  "m256i_less_from [] a b = False"
| "m256i_less_from (i # is) a b =
     (if m256i_u64 a i < m256i_u64 b i then True
      else if m256i_u64 a i > m256i_u64 b i then False
      else m256i_less_from is a b)"

definition m256i_less :: "m256 \<Rightarrow> m256 \<Rightarrow> bool" where
  "m256i_less a b = m256i_less_from [0, 1, 2, 3] a b"

text \<open>\<open>isZero\<close> of \<open>m256i.h\<close> (\<open>_mm256_testz_si256\<close>) and the byte loop of \<open>Entity.h\<close>.\<close>

definition isZero :: "m256 \<Rightarrow> bool" where
  "isZero a \<longleftrightarrow> a AND a = 0"

fun isZero_bytes :: "u8 list \<Rightarrow> bool" where
  "isZero_bytes [] = True"
| "isZero_bytes (b # bs) = (if b \<noteq> 0 then False else isZero_bytes bs)"

definition hex_digit :: "nat \<Rightarrow> char" where
  "hex_digit n = ''0123456789abcdef'' ! n"

definition toHex :: "m256 \<Rightarrow> string" where
  "toHex a = concat (map (\<lambda>b. [hex_digit (unat (drop_bit 4 b)), hex_digit (unat (b AND 0x0F))]) (m256i_u8 a))"

section \<open>Lanes determine the value\<close>

lemma lane_bit: "n < 64 \<Longrightarrow> bit (m256i_u64 a i) n \<longleftrightarrow> bit a (64 * i + n)"
  by (simp add: m256i_u64_def bit_simps)

lemma lanes_eq_iff:
  "a = b \<longleftrightarrow> m256i_u64 a 0 = m256i_u64 b 0 \<and> m256i_u64 a 1 = m256i_u64 b 1 \<and>
             m256i_u64 a 2 = m256i_u64 b 2 \<and> m256i_u64 a 3 = m256i_u64 b 3"
proof
  assume lanes: "m256i_u64 a 0 = m256i_u64 b 0 \<and> m256i_u64 a 1 = m256i_u64 b 1 \<and>
    m256i_u64 a 2 = m256i_u64 b 2 \<and> m256i_u64 a 3 = m256i_u64 b 3"
  show "a = b"
  proof (rule bit_word_eqI)
    fix n :: nat assume "n < LENGTH(256)"
    then have n: "n = 64 * (n div 64) + n mod 64" "n div 64 < 4" by auto
    then have "n div 64 \<in> {0, 1, 2, 3}" by auto
    with lanes have "m256i_u64 a (n div 64) = m256i_u64 b (n div 64)" by auto
    moreover have "n mod 64 < 64" by simp
    ultimately show "bit a n = bit b n" using lane_bit n(1) by metis
  qed
qed simp

lemma isZero_iff [simp]: "isZero a \<longleftrightarrow> a = 0"
  by (simp add: isZero_def)

lemma isZero_bytes_le_nat: "isZero_bytes bs \<longleftrightarrow> le_nat bs = 0"
  by (induction bs) (auto simp: unat_eq_0)

lemma isZero_bytes_iff [simp]: "isZero_bytes (m256i_u8 a) \<longleftrightarrow> a = 0"
proof -
  have "le_nat (m256i_u8 a) = unat a"
    by (simp add: m256i_u8_def le_nat_store_le)
  then show ?thesis by (simp add: isZero_bytes_le_nat unat_eq_0)
qed

text \<open>The lane masks fill all 32 bits exactly when every lane agrees.\<close>

lemma cmpeq_movemask_full: "cmpeq_movemask a b = 0xFFFFFFFF \<longleftrightarrow> a = b"
  unfolding lanes_eq_iff [of a b] cmpeq_movemask_def by auto

lemma m256i_eq_iff [simp]: "m256i_eq a b \<longleftrightarrow> a = b"
  by (simp add: m256i_eq_def cmpeq_movemask_full)

lemma m256i_neq_iff [simp]: "m256i_neq a b \<longleftrightarrow> a \<noteq> b"
  by (simp add: m256i_neq_def cmpeq_movemask_full)

lemma m256i_less_lanes:
  "m256i_less a b \<longleftrightarrow>
     m256i_u64 a 0 < m256i_u64 b 0 \<or>
     m256i_u64 a 0 = m256i_u64 b 0 \<and> (m256i_u64 a 1 < m256i_u64 b 1 \<or>
     m256i_u64 a 1 = m256i_u64 b 1 \<and> (m256i_u64 a 2 < m256i_u64 b 2 \<or>
     m256i_u64 a 2 = m256i_u64 b 2 \<and> m256i_u64 a 3 < m256i_u64 b 3))"
  by (auto simp: m256i_less_def)

end
