(* ===== verification/Spectrum.thy ===== *)
theory Spectrum
  imports OpenAddressing M256
begin

text \<open>
  The spectrum of \<open>Entity.h\<close>: the table of all entities (public key, amounts received and sent,
  transfer counters and ticks), stored by open addressing in \<open>2^24\<close> slots. The global array
  \<open>spectrum\<close> is a function from slot numbers to records and is passed explicitly. Operations
  that probe return a result, whose failure is a probe that never ends (a full table without
  the key).
\<close>

section \<open>Data and operations\<close>

definition SPECTRUM_DEPTH :: nat where
  "SPECTRUM_DEPTH = 24"

definition SPECTRUM_CAPACITY :: nat where
  "SPECTRUM_CAPACITY = push_bit SPECTRUM_DEPTH 1"

record EntityRecord =
  publicKey :: m256
  incomingAmount :: i64
  outgoingAmount :: i64
  numberOfIncomingTransfers :: u32
  numberOfOutgoingTransfers :: u32
  latestIncomingTransferTick :: u32
  latestOutgoingTransferTick :: u32

type_synonym spectrum = "nat \<Rightarrow> EntityRecord"

text \<open>A slot of zeroed memory.\<close>

definition zeroEntity :: EntityRecord where
  "zeroEntity = \<lparr>publicKey = 0, incomingAmount = 0, outgoingAmount = 0,
     numberOfIncomingTransfers = 0, numberOfOutgoingTransfers = 0,
     latestIncomingTransferTick = 0, latestOutgoingTransferTick = 0\<rparr>"

definition entityHome :: "m256 \<Rightarrow> nat" where
  "entityHome pk = unat (m256i_u32_0 pk) AND (SPECTRUM_CAPACITY - 1)"

definition energy :: "spectrum \<Rightarrow> nat \<Rightarrow> i64" where
  "energy sp index = incomingAmount (sp index) - outgoingAmount (sp index)"

definition increaseEnergy :: "m256 \<Rightarrow> i64 \<Rightarrow> u32 \<Rightarrow> spectrum \<Rightarrow> spectrum result" where
  "increaseEnergy pk amount tick sp =
     (if \<not> isZero_bytes (m256i_u8 pk) \<and> 0 \<le> sint amount then
        bind_result
          (loop_result (probe SPECTRUM_CAPACITY
             (\<lambda>i. publicKey (sp i) = pk \<or> isZero (publicKey (sp i))) (entityHome pk)))
          (\<lambda>index.
             if publicKey (sp index) = pk then
               Inr (sp(index := (sp index)
                 \<lparr>incomingAmount := incomingAmount (sp index) + amount,
                  numberOfIncomingTransfers := numberOfIncomingTransfers (sp index) + 1,
                  latestIncomingTransferTick := tick\<rparr>))
             else
               Inr (sp(index := (sp index)
                 \<lparr>publicKey := pk,
                  incomingAmount := amount,
                  numberOfIncomingTransfers := 1,
                  latestIncomingTransferTick := tick\<rparr>)))
      else Inr sp)"

definition decreaseEnergy :: "nat \<Rightarrow> i64 \<Rightarrow> u32 \<Rightarrow> spectrum \<Rightarrow> bool \<times> spectrum" where
  "decreaseEnergy index amount tick sp =
     (if 0 \<le> sint amount then
        if sint amount \<le> sint (energy sp index) then
          (True, sp(index := (sp index)
             \<lparr>outgoingAmount := outgoingAmount (sp index) + amount,
              numberOfOutgoingTransfers := numberOfOutgoingTransfers (sp index) + 1,
              latestOutgoingTransferTick := tick\<rparr>))
        else (False, sp)
      else (False, sp))"

text \<open>The index of an entity, \<open>-1\<close> when it is absent.\<close>

definition spectrumIndex :: "m256 \<Rightarrow> spectrum \<Rightarrow> int result" where
  "spectrumIndex pk sp =
     (if isZero pk then Inr (-1)
      else bind_result
        (loop_result (probe SPECTRUM_CAPACITY
           (\<lambda>i. publicKey (sp i) = pk \<or> isZero (publicKey (sp i))) (entityHome pk)))
        (\<lambda>index. if publicKey (sp index) = pk then Inr (int index) else Inr (-1)))"

text \<open>
  The end-of-epoch rebuild: every entity with a balance is inserted, in slot order, into a zeroed
  table, which then replaces the spectrum.
\<close>

fun reorganizeFrom :: "spectrum \<Rightarrow> nat list \<Rightarrow> spectrum \<Rightarrow> spectrum result" where
  "reorganizeFrom sp [] reorg = Inr reorg"
| "reorganizeFrom sp (i # is) reorg =
     (if incomingAmount (sp i) - outgoingAmount (sp i) \<noteq> 0 then
        bind_result
          (loop_result (probe SPECTRUM_CAPACITY
             (\<lambda>j. isZero (publicKey (reorg j))) (entityHome (publicKey (sp i)))))
          (\<lambda>index. reorganizeFrom sp is (reorg(index := sp i)))
      else reorganizeFrom sp is reorg)"

definition reorganizeSpectrum :: "spectrum \<Rightarrow> spectrum result" where
  "reorganizeSpectrum sp = reorganizeFrom sp [0..<SPECTRUM_CAPACITY] (\<lambda>_. zeroEntity)"

section \<open>The abstract ledger\<close>

text \<open>
  The key of an occupied slot, the map from public keys to records the spectrum stands for, and
  the invariant of the table: keys are placed on their probe paths and are unique, and an empty
  slot has no amounts (it is zeroed memory).
\<close>

definition entityKey :: "EntityRecord \<Rightarrow> m256 option" where
  "entityKey r = (if publicKey r = 0 then None else Some (publicKey r))"

definition entities :: "spectrum \<Rightarrow> m256 \<Rightarrow> EntityRecord option" where
  "entities sp = table_map SPECTRUM_CAPACITY entityKey sp"

definition spectrum_ok :: "spectrum \<Rightarrow> bool" where
  "spectrum_ok sp \<longleftrightarrow>
     table_ok SPECTRUM_CAPACITY entityKey entityHome sp \<and>
     (\<forall>i<SPECTRUM_CAPACITY. publicKey (sp i) = 0 \<longrightarrow> sp i = zeroEntity)"

definition spectrumFree :: "spectrum \<Rightarrow> nat set" where
  "spectrumFree sp = free_slots SPECTRUM_CAPACITY entityKey sp"

text \<open>The sum of all balances, modulo \<open>2^64\<close> as the source adds.\<close>

definition totalEnergy :: "spectrum \<Rightarrow> i64" where
  "totalEnergy sp = (\<Sum>i<SPECTRUM_CAPACITY. energy sp i)"

lemma SPECTRUM_CAPACITY_pow2: "SPECTRUM_CAPACITY = 2 ^ SPECTRUM_DEPTH"
  by (simp add: SPECTRUM_CAPACITY_def push_bit_eq_mult)

lemma entityHome_mod: "entityHome pk = unat (m256i_u32_0 pk) mod SPECTRUM_CAPACITY"
  unfolding entityHome_def SPECTRUM_CAPACITY_pow2
  by (metis take_bit_eq_mask mask_eq_exp_minus_1 take_bit_eq_mod)

interpretation spt: probe_table SPECTRUM_CAPACITY entityKey entityHome
proof
  show "\<exists>n. SPECTRUM_CAPACITY = 2 ^ n" using SPECTRUM_CAPACITY_pow2 by blast
  show "entityHome k < SPECTRUM_CAPACITY" for k
    by (simp add: entityHome_mod SPECTRUM_CAPACITY_pow2)
qed

lemma entity_slot_for:
  "pk \<noteq> 0 \<Longrightarrow> (\<lambda>i. publicKey (sp i) = pk \<or> publicKey (sp i) = 0) = slot_for entityKey sp pk"
  by (auto simp: slot_for_def entityKey_def)

lemma entityKey_simps [simp]:
  "entityKey (r\<lparr>incomingAmount := a\<rparr>) = entityKey r"
  "entityKey (r\<lparr>outgoingAmount := a\<rparr>) = entityKey r"
  "entityKey (r\<lparr>numberOfIncomingTransfers := n\<rparr>) = entityKey r"
  "entityKey (r\<lparr>numberOfOutgoingTransfers := n\<rparr>) = entityKey r"
  "entityKey (r\<lparr>latestIncomingTransferTick := t\<rparr>) = entityKey r"
  "entityKey (r\<lparr>latestOutgoingTransferTick := t\<rparr>) = entityKey r"
  "pk \<noteq> 0 \<Longrightarrow> entityKey (r\<lparr>publicKey := pk\<rparr>) = Some pk"
  by (simp_all add: entityKey_def)

lemma entityKey_None [simp]: "entityKey r = None \<longleftrightarrow> publicKey r = 0"
  by (simp add: entityKey_def)

lemma entityKey_Some [simp]: "entityKey r = Some pk \<longleftrightarrow> publicKey r = pk \<and> pk \<noteq> 0"
  by (auto simp: entityKey_def)

section \<open>Looking an entity up\<close>

lemma spectrum_search:
  assumes "spectrum_ok sp" and "pk \<noteq> 0" and "spectrumFree sp \<noteq> {} \<or> entities sp pk \<noteq> None"
  shows "\<exists>j<SPECTRUM_CAPACITY. probe SPECTRUM_CAPACITY (slot_for entityKey sp pk) (entityHome pk) = Some j \<and>
    (case entities sp pk of None \<Rightarrow> publicKey (sp j) = 0 | Some r \<Rightarrow> sp j = r \<and> publicKey r = pk)"
proof -
  have ok: "table_ok SPECTRUM_CAPACITY entityKey entityHome sp"
    using assms(1) by (simp add: spectrum_ok_def)
  obtain j where j: "j < SPECTRUM_CAPACITY"
    "probe SPECTRUM_CAPACITY (slot_for entityKey sp pk) (entityHome pk) = Some j"
    using spt.search_returns assms(3) unfolding spectrumFree_def entities_def by blast
  show ?thesis
  proof (cases "publicKey (sp j) = 0")
    case True
    with spt.search_absent [OF ok j(2)] j show ?thesis by (auto simp: entities_def)
  next
    case False
    with spt.search_present [OF ok j(2)] j show ?thesis by (auto simp: entities_def)
  qed
qed

text \<open>The abstract counterpart of a credit.\<close>

definition credited :: "m256 \<Rightarrow> i64 \<Rightarrow> u32 \<Rightarrow> EntityRecord option \<Rightarrow> EntityRecord" where
  "credited pk amount tick old =
     (let r = (case old of None \<Rightarrow> zeroEntity\<lparr>publicKey := pk\<rparr> | Some r \<Rightarrow> r)
      in r\<lparr>incomingAmount := incomingAmount r + amount,
           numberOfIncomingTransfers := numberOfIncomingTransfers r + 1,
           latestIncomingTransferTick := tick\<rparr>)"

lemma spectrum_ok_update:
  assumes "spectrum_ok sp" and "table_ok SPECTRUM_CAPACITY entityKey entityHome (sp(j := r))"
    and "publicKey r \<noteq> 0"
  shows "spectrum_ok (sp(j := r))"
  using assms by (auto simp: spectrum_ok_def)

lemma totalEnergy_update:
  assumes "j < SPECTRUM_CAPACITY"
  shows "totalEnergy (sp(j := r)) =
    totalEnergy sp - energy sp j + (incomingAmount r - outgoingAmount r)"
proof -
  have "totalEnergy sp' = energy sp' j + (\<Sum>i\<in>{..<SPECTRUM_CAPACITY} - {j}. energy sp' i)" for sp'
    unfolding totalEnergy_def using assms by (subst sum.remove [of _ j]) auto
  moreover have "(\<Sum>i\<in>{..<SPECTRUM_CAPACITY} - {j}. energy (sp(j := r)) i) =
      (\<Sum>i\<in>{..<SPECTRUM_CAPACITY} - {j}. energy sp i)"
    by (rule sum.cong) (auto simp: energy_def)
  ultimately show ?thesis by (simp add: energy_def)
qed

lemma increaseEnergy_at:
  assumes "spectrum_ok sp" and "pk \<noteq> 0" and "0 \<le> sint amount"
    and "spectrumFree sp \<noteq> {} \<or> entities sp pk \<noteq> None"
  shows "\<exists>j<SPECTRUM_CAPACITY.
    probe SPECTRUM_CAPACITY (slot_for entityKey sp pk) (entityHome pk) = Some j \<and>
    increaseEnergy pk amount tick sp = Inr (sp(j := credited pk amount tick (entities sp pk))) \<and>
    energy sp j = (case entities sp pk of None \<Rightarrow> 0 | Some r \<Rightarrow> incomingAmount r - outgoingAmount r)"
proof -
  obtain j where j: "j < SPECTRUM_CAPACITY"
    "probe SPECTRUM_CAPACITY (slot_for entityKey sp pk) (entityHome pk) = Some j"
    and slot: "case entities sp pk of None \<Rightarrow> publicKey (sp j) = 0
                 | Some r \<Rightarrow> sp j = r \<and> publicKey r = pk"
    using spectrum_search [OF assms(1,2,4)] by blast
  have inc: "increaseEnergy pk amount tick sp = Inr (sp(j := credited pk amount tick (entities sp pk)))
    \<and> energy sp j = (case entities sp pk of None \<Rightarrow> 0 | Some r \<Rightarrow> incomingAmount r - outgoingAmount r)"
  proof (cases "entities sp pk")
    case None
    with slot have "publicKey (sp j) = 0" by simp
    with j(1) assms(1) have "sp j = zeroEntity" by (auto simp: spectrum_ok_def)
    with None j(2) assms(2,3) show ?thesis
      by (simp add: increaseEnergy_def entity_slot_for credited_def energy_def zeroEntity_def)
  next
    case (Some r)
    with slot have "sp j = r" "publicKey r = pk" by simp_all
    with Some j(2) assms(2,3) show ?thesis
      by (simp add: increaseEnergy_def entity_slot_for credited_def energy_def)
  qed
  with j show ?thesis by blast
qed

lemma credited_fields:
  assumes "pk \<noteq> 0" and "entities sp pk = old"
  shows "publicKey (credited pk amount tick old) = pk"
    and "incomingAmount (credited pk amount tick old) - outgoingAmount (credited pk amount tick old)
      = (case old of None \<Rightarrow> 0 | Some r \<Rightarrow> incomingAmount r - outgoingAmount r) + amount"
proof -
  have "publicKey r = pk" if "old = Some r" for r
    using that assms(2) table_map_SomeD [of SPECTRUM_CAPACITY entityKey sp pk r]
    by (auto simp: entities_def)
  then show "publicKey (credited pk amount tick old) = pk"
    by (auto simp: credited_def Let_def split: option.splits)
  show "incomingAmount (credited pk amount tick old) - outgoingAmount (credited pk amount tick old)
      = (case old of None \<Rightarrow> 0 | Some r \<Rightarrow> incomingAmount r - outgoingAmount r) + amount"
    by (auto simp: credited_def Let_def zeroEntity_def split: option.splits)
qed

lemma increaseEnergy_spec:
  assumes "spectrum_ok sp" and "pk \<noteq> 0" and "0 \<le> sint amount"
    and "spectrumFree sp \<noteq> {} \<or> entities sp pk \<noteq> None"
  shows "\<exists>sp'. increaseEnergy pk amount tick sp = Inr sp' \<and> spectrum_ok sp' \<and>
    entities sp' = (entities sp)(pk \<mapsto> credited pk amount tick (entities sp pk)) \<and>
    totalEnergy sp' = totalEnergy sp + amount"
proof -
  let ?r = "credited pk amount tick (entities sp pk)"
  obtain j where j: "j < SPECTRUM_CAPACITY"
    "probe SPECTRUM_CAPACITY (slot_for entityKey sp pk) (entityHome pk) = Some j"
    and inc: "increaseEnergy pk amount tick sp = Inr (sp(j := ?r))"
    and old: "energy sp j = (case entities sp pk of None \<Rightarrow> 0 | Some r \<Rightarrow> incomingAmount r - outgoingAmount r)"
    using increaseEnergy_at [OF assms] by blast
  have ok: "table_ok SPECTRUM_CAPACITY entityKey entityHome sp"
    using assms(1) by (simp add: spectrum_ok_def)
  note fields = credited_fields [OF assms(2) refl, where sp = sp and amount = amount and tick = tick]
  have key: "entityKey ?r = Some pk" using fields(1) assms(2) by simp
  have "spectrum_ok (sp(j := ?r))"
    using spectrum_ok_update [OF assms(1) spt.store_ok [OF ok j(2) key]] fields(1) assms(2) by simp
  moreover have "entities (sp(j := ?r)) = (entities sp)(pk \<mapsto> ?r)"
    using spt.map_store_searched [OF ok j(2) key] by (simp add: entities_def)
  moreover have "totalEnergy (sp(j := ?r)) = totalEnergy sp + amount"
    using totalEnergy_update [OF j(1)] fields(2) old by simp
  ultimately show ?thesis using inc by blast
qed

section \<open>Finding and debiting an entity\<close>

text \<open>
  The index returned for a non-zero key is the slot that holds its record, and \<open>-1\<close> says that
  the ledger has no such entity.
\<close>

lemma spectrumIndex_cases:
  assumes "spectrum_ok sp" and "spectrumFree sp \<noteq> {} \<or> entities sp pk \<noteq> None"
  shows "(entities sp pk = None \<and> spectrumIndex pk sp = Inr (-1)) \<or>
    (\<exists>j<SPECTRUM_CAPACITY. spectrumIndex pk sp = Inr (int j) \<and> publicKey (sp j) = pk \<and> pk \<noteq> 0 \<and>
       entities sp pk = Some (sp j))"
proof (cases "pk = 0")
  case True
  then have "entities sp pk = None" by (simp add: entities_def table_map_None_iff)
  with True show ?thesis by (simp add: spectrumIndex_def)
next
  case False
  obtain j where j: "j < SPECTRUM_CAPACITY"
    "probe SPECTRUM_CAPACITY (slot_for entityKey sp pk) (entityHome pk) = Some j"
    "case entities sp pk of None \<Rightarrow> publicKey (sp j) = 0 | Some r \<Rightarrow> sp j = r \<and> publicKey r = pk"
    using spectrum_search [OF assms(1) False assms(2)] by blast
  have "spectrumIndex pk sp = Inr (if publicKey (sp j) = pk then int j else -1)"
    using False j(2) by (simp add: spectrumIndex_def entity_slot_for)
  with False j show ?thesis by (auto split: option.splits)
qed

text \<open>The abstract counterpart of a debit.\<close>

definition debited :: "i64 \<Rightarrow> u32 \<Rightarrow> EntityRecord \<Rightarrow> EntityRecord" where
  "debited amount tick r =
     r\<lparr>outgoingAmount := outgoingAmount r + amount,
       numberOfOutgoingTransfers := numberOfOutgoingTransfers r + 1,
       latestOutgoingTransferTick := tick\<rparr>"

lemma decreaseEnergy_eq:
  "decreaseEnergy i amount tick sp =
     (if 0 \<le> sint amount \<and> sint amount \<le> sint (energy sp i)
      then (True, sp(i := debited amount tick (sp i))) else (False, sp))"
  by (simp add: decreaseEnergy_def debited_def)

lemma debited_publicKey [simp]: "publicKey (debited amount tick r) = publicKey r"
  by (simp add: debited_def)

lemma debit_ok:
  assumes "spectrum_ok sp" and "i < SPECTRUM_CAPACITY" and "publicKey (sp i) = pk" and "pk \<noteq> 0"
  shows "spectrum_ok (sp(i := debited amount tick (sp i)))"
    and "entities (sp(i := debited amount tick (sp i))) = (entities sp)(pk \<mapsto> debited amount tick (sp i))"
    and "totalEnergy (sp(i := debited amount tick (sp i))) = totalEnergy sp - amount"
proof -
  have ok: "table_ok SPECTRUM_CAPACITY entityKey entityHome sp"
    using assms(1) by (simp add: spectrum_ok_def)
  have keys: "entityKey (sp i) = Some pk" "entityKey (debited amount tick (sp i)) = Some pk"
    using assms(3,4) by simp_all
  show "spectrum_ok (sp(i := debited amount tick (sp i)))"
    using spectrum_ok_update [OF assms(1) spt.rewrite_ok [OF ok keys(2) [folded keys(1)]]] assms(3,4)
    by simp
  show "entities (sp(i := debited amount tick (sp i))) = (entities sp)(pk \<mapsto> debited amount tick (sp i))"
    using spt.map_rewrite [OF ok assms(2) keys] by (simp add: entities_def)
  show "totalEnergy (sp(i := debited amount tick (sp i))) = totalEnergy sp - amount"
    using totalEnergy_update [OF assms(2)] by (simp add: debited_def energy_def)
qed

section \<open>The rebuild at the end of an epoch\<close>

text \<open>What the rebuild keeps: the records whose balance is not zero.\<close>

definition withBalance :: "spectrum \<Rightarrow> m256 \<Rightarrow> EntityRecord option" where
  "withBalance sp pk = (case entities sp pk of None \<Rightarrow> None
     | Some r \<Rightarrow> if incomingAmount r - outgoingAmount r \<noteq> 0 then Some r else None)"

text \<open>
  The state of the rebuild after the slots \<open>done\<close> of the old table: the new table is well formed,
  holds exactly the entities with a balance among those slots, and has used at most one slot for
  each of them.
\<close>

definition reorg_inv :: "spectrum \<Rightarrow> nat set \<Rightarrow> spectrum \<Rightarrow> bool" where
  "reorg_inv sp seen re \<longleftrightarrow>
     spectrum_ok re \<and>
     (\<forall>pk r. entities re pk = Some r \<longleftrightarrow>
        (\<exists>i\<in>seen. sp i = r \<and> publicKey r = pk \<and> pk \<noteq> 0 \<and> incomingAmount r - outgoingAmount r \<noteq> 0)) \<and>
     SPECTRUM_CAPACITY \<le> card (spectrumFree re) + card seen \<and>
     totalEnergy re = (\<Sum>i\<in>seen. energy sp i)"

lemma SPECTRUM_CAPACITY_pos: "0 < SPECTRUM_CAPACITY"
  by (simp add: SPECTRUM_CAPACITY_pow2)

lemma reorg_inv_init: "reorg_inv sp {} (\<lambda>_. zeroEntity)"
proof -
  have "entities (\<lambda>_. zeroEntity) pk = None" for pk
    by (simp add: entities_def table_map_None_iff zeroEntity_def)
  moreover have "spectrumFree (\<lambda>_. zeroEntity) = {..<SPECTRUM_CAPACITY}"
    by (auto simp: spectrumFree_def free_slots_def zeroEntity_def)
  moreover have "spectrum_ok (\<lambda>_. zeroEntity)"
    by (simp add: spectrum_ok_def table_ok_def zeroEntity_def)
  moreover have "totalEnergy (\<lambda>_. zeroEntity) = 0"
    by (simp add: totalEnergy_def energy_def zeroEntity_def)
  ultimately show ?thesis by (simp add: reorg_inv_def)
qed

lemma reorg_inv_skip:
  assumes "reorg_inv sp seen re" and "incomingAmount (sp i) - outgoingAmount (sp i) = 0"
    and "finite seen"
  shows "reorg_inv sp (insert i seen) re"
  using assms by (auto simp: reorg_inv_def card_insert_if sum.insert_if energy_def)

text \<open>
  One insertion: the entity is not in the new table yet because its key is unique in the old one,
  so the search for an empty slot is the search for its key.
\<close>

lemma reorg_inv_insert:
  assumes inv: "reorg_inv sp seen re" and fin: "finite seen" and "card seen < SPECTRUM_CAPACITY"
    and i: "i < SPECTRUM_CAPACITY" "i \<notin> seen" and seen: "seen \<subseteq> {..<SPECTRUM_CAPACITY}"
    and sp: "spectrum_ok sp" and bal: "incomingAmount (sp i) - outgoingAmount (sp i) \<noteq> 0"
  shows "\<exists>j. probe SPECTRUM_CAPACITY (\<lambda>j. isZero (publicKey (re j))) (entityHome (publicKey (sp i))) = Some j \<and>
    reorg_inv sp (insert i seen) (re(j := sp i))"
proof -
  let ?pk = "publicKey (sp i)"
  have pk: "?pk \<noteq> 0"
    using sp i(1) bal by (auto simp: spectrum_ok_def zeroEntity_def)
  have re: "spectrum_ok re" and ok: "table_ok SPECTRUM_CAPACITY entityKey entityHome re"
    and holds: "\<And>pk r. entities re pk = Some r \<longleftrightarrow>
        (\<exists>i\<in>seen. sp i = r \<and> publicKey r = pk \<and> pk \<noteq> 0 \<and> incomingAmount r - outgoingAmount r \<noteq> 0)"
    and size: "SPECTRUM_CAPACITY \<le> card (spectrumFree re) + card seen"
    and total: "totalEnergy re = (\<Sum>i\<in>seen. energy sp i)"
    using inv by (auto simp: reorg_inv_def spectrum_ok_def)
  have free: "spectrumFree re \<noteq> {}" using size assms(3) by auto
  have "entities re ?pk = None"
  proof (cases "entities re ?pk")
    case (Some r)
    then obtain i' where i': "i' \<in> seen" "publicKey (sp i') = ?pk" using holds by auto
    with sp i pk seen have "i' = i"
      by (auto simp: spectrum_ok_def table_ok_def)
    with i' i(2) show ?thesis by simp
  qed
  then have absent: "publicKey (re j) \<noteq> ?pk" if "j < SPECTRUM_CAPACITY" for j
    using that pk by (auto simp: entities_def table_map_None_iff)
  have same: "probe SPECTRUM_CAPACITY (\<lambda>j. isZero (publicKey (re j))) (entityHome ?pk) =
      probe SPECTRUM_CAPACITY (slot_for entityKey re ?pk) (entityHome ?pk)"
    using absent by (intro spt.cap_probe_cong spt.home_less) (auto simp: slot_for_def)
  obtain j where j: "j < SPECTRUM_CAPACITY"
    "probe SPECTRUM_CAPACITY (slot_for entityKey re ?pk) (entityHome ?pk) = Some j"
    "publicKey (re j) = 0"
    using spectrum_search [OF re pk] free \<open>entities re ?pk = None\<close> by auto
  have key: "entityKey (sp i) = Some ?pk" using pk by simp
  have "spectrum_ok (re(j := sp i))"
    using spectrum_ok_update [OF re spt.store_ok [OF ok j(2) key] pk] .
  moreover have ents: "entities (re(j := sp i)) = (entities re)(?pk \<mapsto> sp i)"
    using spt.map_store_searched [OF ok j(2) key] by (simp add: entities_def)
  moreover have "entities (re(j := sp i)) l = Some r \<longleftrightarrow>
      (\<exists>k\<in>insert i seen. sp k = r \<and> publicKey r = l \<and> l \<noteq> 0 \<and> incomingAmount r - outgoingAmount r \<noteq> 0)"
    for l r
    using holds [of l r] \<open>entities re ?pk = None\<close> pk bal unfolding ents by (cases "l = ?pk") auto
  moreover have "SPECTRUM_CAPACITY \<le> card (spectrumFree (re(j := sp i))) + card (insert i seen)"
  proof -
    have "spectrumFree (re(j := sp i)) = spectrumFree re - {j}"
      unfolding spectrumFree_def using key by (intro free_slots_update) simp
    moreover have "j \<in> spectrumFree re" using j(1,3) by (simp add: spectrumFree_def free_slots_def)
    moreover have "card (insert i seen) = Suc (card seen)" using fin i(2) by simp
    ultimately show ?thesis using size by (simp add: spectrumFree_def card_Diff_singleton_if)
  qed
  moreover have "totalEnergy (re(j := sp i)) = (\<Sum>k\<in>insert i seen. energy sp k)"
  proof -
    have "energy re j = 0"
      using re j(1,3) by (auto simp: spectrum_ok_def energy_def zeroEntity_def)
    then show ?thesis using totalEnergy_update [OF j(1)] total fin i(2) by (simp add: energy_def)
  qed
  ultimately show ?thesis using same j(2) by (auto simp: reorg_inv_def)
qed

lemma reorganizeFrom_returns:
  assumes "reorg_inv sp seen re" and "spectrum_ok sp" and "distinct is" and "finite seen"
    and "set is \<inter> seen = {}" and "set is \<union> seen \<subseteq> {..<SPECTRUM_CAPACITY}"
  shows "\<exists>re'. reorganizeFrom sp is re = Inr re' \<and> reorg_inv sp (set is \<union> seen) re'"
  using assms
proof (induction "is" arbitrary: seen re)
  case Nil
  then show ?case by simp
next
  case (Cons i "is")
  have rest: "distinct is" "finite (insert i seen)" "set is \<inter> insert i seen = {}"
    "set is \<union> insert i seen \<subseteq> {..<SPECTRUM_CAPACITY}" using Cons.prems by auto
  show ?case
  proof (cases "incomingAmount (sp i) - outgoingAmount (sp i) = 0")
    case True
    with Cons.prems have "reorg_inv sp (insert i seen) re" by (auto intro: reorg_inv_skip)
    from Cons.IH [OF this Cons.prems(2) rest] True show ?thesis by simp
  next
    case False
    have "insert i seen \<subseteq> {..<SPECTRUM_CAPACITY}" using rest(4) by blast
    then have "card (insert i seen) \<le> SPECTRUM_CAPACITY"
      by (metis card_lessThan card_mono finite_lessThan)
    then have "card seen < SPECTRUM_CAPACITY" using Cons.prems by auto
    then obtain j where j: "probe SPECTRUM_CAPACITY (\<lambda>j. isZero (publicKey (re j)))
        (entityHome (publicKey (sp i))) = Some j"
      and inv: "reorg_inv sp (insert i seen) (re(j := sp i))"
      using reorg_inv_insert [OF Cons.prems(1,4) _ _ _ _ Cons.prems(2) False] Cons.prems by auto
    from Cons.IH [OF inv Cons.prems(2) rest] False j show ?thesis by (simp add: fun_upd_def)
  qed
qed

section \<open>A concrete spectrum\<close>

text \<open>
  Two entities whose keys share the home slot 5: the first holds a balance of 10 and sits at its
  home, the second has spent everything and was moved to slot 6 by the probe.
\<close>

definition demoEntity :: "m256 \<Rightarrow> i64 \<Rightarrow> i64 \<Rightarrow> EntityRecord" where
  "demoEntity pk inc out = zeroEntity\<lparr>publicKey := pk, incomingAmount := inc, outgoingAmount := out\<rparr>"

definition demoSpectrum :: spectrum where
  "demoSpectrum = (\<lambda>_. zeroEntity)(5 := demoEntity 5 10 0, 6 := demoEntity 0x1000005 4 4)"

lemma spectrum_ok_zero: "spectrum_ok (\<lambda>_. zeroEntity)"
  using reorg_inv_init by (simp add: reorg_inv_def)

lemma SPECTRUM_CAPACITY_num: "SPECTRUM_CAPACITY = 16777216"
  by (simp add: SPECTRUM_CAPACITY_pow2 SPECTRUM_DEPTH_def)

lemma demoEntity_home: "entityHome 5 = 5" "entityHome 0x1000005 = 5"
  by (simp_all add: entityHome_mod m256i_u32_0_def SPECTRUM_CAPACITY_num)

lemma demoSpectrum_ok: "spectrum_ok demoSpectrum"
proof -
  define sp1 :: spectrum where "sp1 = (\<lambda>_. zeroEntity)(5 := demoEntity 5 10 0)"
  have "probe SPECTRUM_CAPACITY (slot_for entityKey (\<lambda>_. zeroEntity) 5) (entityHome 5) = Some 5"
    by (simp add: demoEntity_home probe.simps slot_for_def zeroEntity_def)
  then have ok1: "spectrum_ok sp1"
    unfolding sp1_def using spectrum_ok_zero
    by (intro spectrum_ok_update spt.store_ok) (auto simp: spectrum_ok_def demoEntity_def)
  have "probe SPECTRUM_CAPACITY (slot_for entityKey sp1 0x1000005) (entityHome 0x1000005) = Some 6"
    by (simp add: demoEntity_home probe.simps [of _ _ 5] probe.simps [of _ _ 6] slot_for_def
        sp1_def demoEntity_def zeroEntity_def SPECTRUM_CAPACITY_num)
  then have "spectrum_ok (sp1(6 := demoEntity 0x1000005 4 4))"
    using ok1 by (intro spectrum_ok_update spt.store_ok) (auto simp: spectrum_ok_def demoEntity_def)
  then show ?thesis by (simp add: sp1_def demoSpectrum_def)
qed

lemma demoSpectrum_free: "spectrumFree demoSpectrum \<noteq> {}"
proof -
  have "7 \<in> spectrumFree demoSpectrum"
    by (simp add: spectrumFree_def free_slots_def demoSpectrum_def zeroEntity_def SPECTRUM_CAPACITY_num)
  then show ?thesis by blast
qed

section \<open>Properties\<close>

text \<open>
  Claim C1. Crediting an entity refines an update of the ledger: with room in the table the search
  ends, the new table is well formed, exactly the record of the credited key changes (a fresh
  record when the key was absent) and the total of all balances grows by the amount. A zero key or
  a negative amount changes nothing.
\<close>

theorem increaseEnergy_refines_ledger:
  assumes "spectrum_ok sp" and "spectrumFree sp \<noteq> {} \<or> entities sp pk \<noteq> None"
  shows "\<exists>sp'. increaseEnergy pk amount tick sp = Inr sp' \<and> spectrum_ok sp' \<and>
    (if pk \<noteq> 0 \<and> 0 \<le> sint amount
     then entities sp' = (entities sp)(pk \<mapsto> credited pk amount tick (entities sp pk)) \<and>
          totalEnergy sp' = totalEnergy sp + amount
     else sp' = sp)"
proof (cases "pk \<noteq> 0 \<and> 0 \<le> sint amount")
  case True
  with increaseEnergy_spec [OF assms(1) _ _ assms(2)] show ?thesis by simp
next
  case False
  with assms(1) show ?thesis by (auto simp: increaseEnergy_def)
qed

theorem increaseEnergy_refines_ledger_witness:
  "\<exists>sp'. increaseEnergy 0x1000005 7 100 demoSpectrum = Inr sp' \<and> spectrum_ok sp' \<and>
     entities sp' 0x1000005 = Some (credited 0x1000005 7 100 (entities demoSpectrum 0x1000005)) \<and>
     entities sp' 5 = entities demoSpectrum 5"
  using increaseEnergy_refines_ledger [OF demoSpectrum_ok disjI1 [OF demoSpectrum_free],
      of "0x1000005" 7 100] by auto

text \<open>
  Claim C2. A debit succeeds exactly when the amount is not negative and the balance covers it. A
  successful debit lowers the balance, read as a signed number, by exactly the amount and leaves
  it non-negative, changes no other record, keeps the table well formed and lowers the total by the
  amount; a refused one changes nothing.
\<close>

theorem decreaseEnergy_never_overdraws:
  assumes "spectrum_ok sp" and "index < SPECTRUM_CAPACITY" and "publicKey (sp index) \<noteq> 0"
    and "decreaseEnergy index amount tick sp = (success, sp')"
  shows "(success \<longleftrightarrow> 0 \<le> sint amount \<and> sint amount \<le> sint (energy sp index)) \<and>
    spectrum_ok sp' \<and>
    (if success
     then sint (energy sp' index) = sint (energy sp index) - sint amount \<and> 0 \<le> sint (energy sp' index) \<and>
          entities sp' = (entities sp)(publicKey (sp index) \<mapsto> debited amount tick (sp index)) \<and>
          totalEnergy sp' = totalEnergy sp - amount
     else sp' = sp)"
proof (cases "0 \<le> sint amount \<and> sint amount \<le> sint (energy sp index)")
  case True
  with assms(4) have res: "success" "sp' = sp(index := debited amount tick (sp index))"
    by (simp_all add: decreaseEnergy_eq)
  have "energy sp' index = energy sp index - amount"
    by (simp add: res energy_def debited_def)
  with True have "sint (energy sp' index) = sint (energy sp index) - sint amount"
    by (simp add: sint_diff_le)
  with True res debit_ok [OF assms(1,2) refl assms(3)] show ?thesis by simp
next
  case False
  with assms(1,4) show ?thesis by (auto simp: decreaseEnergy_eq)
qed

theorem decreaseEnergy_never_overdraws_witness:
  "fst (decreaseEnergy 5 3 100 demoSpectrum) \<and>
   sint (energy (snd (decreaseEnergy 5 3 100 demoSpectrum)) 5) = 7"
proof -
  have e: "energy demoSpectrum 5 = 10" and k: "publicKey (demoSpectrum 5) \<noteq> 0"
    by (simp_all add: energy_def demoSpectrum_def demoEntity_def zeroEntity_def)
  have "5 < SPECTRUM_CAPACITY" by (simp add: SPECTRUM_CAPACITY_num)
  from decreaseEnergy_never_overdraws [OF demoSpectrum_ok this k, of 3 100] show ?thesis
    by (cases "decreaseEnergy 5 3 100 demoSpectrum") (simp add: e)
qed

text \<open>
  Claim C7. The end-of-epoch rebuild always ends, for every well-formed spectrum, even a full one:
  the new table is well formed, holds exactly the entities with a non-zero balance, each with its
  record unchanged, and the total of all balances is the same.
\<close>

theorem reorganizeSpectrum_keeps_balances:
  assumes "spectrum_ok sp"
  shows "\<exists>re. reorganizeSpectrum sp = Inr re \<and> spectrum_ok re \<and> entities re = withBalance sp \<and>
    totalEnergy re = totalEnergy sp"
proof -
  obtain re where re: "reorganizeSpectrum sp = Inr re" "reorg_inv sp {..<SPECTRUM_CAPACITY} re"
    using reorganizeFrom_returns [OF reorg_inv_init assms, of "[0..<SPECTRUM_CAPACITY]"]
    by (auto simp: reorganizeSpectrum_def atLeast0LessThan)
  have ok: "table_ok SPECTRUM_CAPACITY entityKey entityHome sp"
    using assms by (simp add: spectrum_ok_def)
  have "entities re pk = withBalance sp pk" for pk
  proof (rule option_eqI)
    fix r
    have "entities re pk = Some r \<longleftrightarrow> entities sp pk = Some r \<and> incomingAmount r - outgoingAmount r \<noteq> 0"
      using re(2) unfolding reorg_inv_def entities_def spt.table_map_Some_iff [OF ok] by auto
    then show "entities re pk = Some r \<longleftrightarrow> withBalance sp pk = Some r"
      by (auto simp: withBalance_def split: option.splits if_splits)
  qed
  then have "entities re = withBalance sp" ..
  with re show ?thesis by (simp add: reorg_inv_def totalEnergy_def)
qed

theorem reorganizeSpectrum_keeps_balances_witness:
  "\<exists>re. reorganizeSpectrum demoSpectrum = Inr re \<and> spectrum_ok re \<and>
     entities re = withBalance demoSpectrum \<and> totalEnergy re = totalEnergy demoSpectrum"
  using reorganizeSpectrum_keeps_balances [OF demoSpectrum_ok] by blast

end
