(* ===== verification/Assets.thy ===== *)
theory Assets
  imports OpenAddressing M256
begin

text \<open>
  The universe of \<open>Asset.h\<close>: issuance, ownership and possession records in one open-addressing
  table of \<open>2^24\<close> slots, and the change flags the digest computation reads. An \<open>AssetRecord\<close> is a
  union of three packed 48-byte layouts. They overlap field by field as follows, so the record
  below has one field per byte range and the name and the measurement bytes of an issuance are
  views of them:
  \<^item> bytes 0..31: \<open>publicKey\<close>; byte 32: \<open>type\<close>;
  \<^item> byte 33, 34..35, 36..39: \<open>padding\<close>, \<open>managingContractIndex\<close> and \<open>issuanceIndex\<close> or
    \<open>ownershipIndex\<close>; for an issuance these seven bytes are the \<open>name\<close>;
  \<^item> bytes 40..47: \<open>numberOfShares\<close>; for an issuance \<open>numberOfDecimalPlaces\<close> and
    \<open>unitOfMeasurement\<close>.
\<close>

section \<open>Data\<close>

definition ASSETS_DEPTH :: nat where
  "ASSETS_DEPTH = 24"

definition ASSETS_CAPACITY :: nat where
  "ASSETS_CAPACITY = 0x1000000"

abbreviation (input) EMPTY :: u8 where "EMPTY \<equiv> 0"
abbreviation (input) ISSUANCE :: u8 where "ISSUANCE \<equiv> 1"
abbreviation (input) OWNERSHIP :: u8 where "OWNERSHIP \<equiv> 2"
abbreviation (input) POSSESSION :: u8 where "POSSESSION \<equiv> 3"

record AssetRecord =
  assetPublicKey :: m256
  assetType :: u8
  assetPadding :: u8
  managingContractIndex :: u16
  assetIndex :: u32
  numberOfShares :: i64

definition zeroAsset :: AssetRecord where
  "zeroAsset = \<lparr>assetPublicKey = 0, assetType = 0, assetPadding = 0, managingContractIndex = 0,
     assetIndex = 0, numberOfShares = 0\<rparr>"

record universe =
  assets :: "nat \<Rightarrow> AssetRecord"
  assetChangeFlags :: "nat \<Rightarrow> u64"

text \<open>The seven name bytes as the low 56 bits of the \<open>unsigned long long\<close> read at \<open>name\<close>.\<close>

definition issuanceName :: "AssetRecord \<Rightarrow> u64" where
  "issuanceName r =
     ucast (assetPadding r) OR push_bit 8 (ucast (managingContractIndex r)) OR push_bit 24 (ucast (assetIndex r))"

definition setIssuanceName :: "u64 \<Rightarrow> AssetRecord \<Rightarrow> AssetRecord" where
  "setIssuanceName nm r = r\<lparr>assetPadding := ucast nm,
     managingContractIndex := ucast (drop_bit 8 nm), assetIndex := ucast (drop_bit 24 nm)\<rparr>"

definition nameMask :: u64 where
  "nameMask = 0xFFFFFFFFFFFFFF"

text \<open>\<open>assetChangeFlags[i >> 6] |= (1ULL << (i & 63))\<close>\<close>

definition markChanged :: "nat \<Rightarrow> universe \<Rightarrow> universe" where
  "markChanged i u = u\<lparr>assetChangeFlags := (assetChangeFlags u)
     (drop_bit 6 i := assetChangeFlags u (drop_bit 6 i) OR push_bit (i AND 63) 1)\<rparr>"

definition setAsset :: "nat \<Rightarrow> AssetRecord \<Rightarrow> universe \<Rightarrow> universe" where
  "setAsset i r u = u\<lparr>assets := (assets u)(i := r)\<rparr>"

definition addShares :: "nat \<Rightarrow> i64 \<Rightarrow> universe \<Rightarrow> universe" where
  "addShares i n u = setAsset i ((assets u i)\<lparr>numberOfShares := numberOfShares (assets u i) + n\<rparr>) u"

definition assetHome :: "m256 \<Rightarrow> nat" where
  "assetHome pk = unat (m256i_u32_0 pk) AND (ASSETS_CAPACITY - 1)"

definition nextSlot :: "nat \<Rightarrow> nat" where
  "nextSlot i = (i + 1) AND (ASSETS_CAPACITY - 1)"

section \<open>Issuing\<close>

definition matchesIssuance :: "universe \<Rightarrow> m256 \<Rightarrow> u64 \<Rightarrow> nat \<Rightarrow> bool" where
  "matchesIssuance u issuer nm i \<longleftrightarrow> assetType (assets u i) = ISSUANCE \<and>
     issuanceName (assets u i) = nm AND nameMask \<and> assetPublicKey (assets u i) = issuer"

text \<open>
  The result is the returned number of shares, the three indices (the last two are not written
  when the asset exists already) and the new universe.
\<close>

definition issueAsset ::
  "m256 \<Rightarrow> u64 \<Rightarrow> u8 \<Rightarrow> u64 \<Rightarrow> i64 \<Rightarrow> u16 \<Rightarrow> universe \<Rightarrow>
   (i64 \<times> nat \<times> (nat \<times> nat) option \<times> universe) result" where
  "issueAsset issuer nm decimals unit shares managing u =
     bind_result
       (loop_result (probe ASSETS_CAPACITY
          (\<lambda>i. assetType (assets u i) = EMPTY \<or> matchesIssuance u issuer nm i) (assetHome issuer)))
       (\<lambda>issuanceIdx.
          if assetType (assets u issuanceIdx) = EMPTY then
            let u1 = setAsset issuanceIdx
                  ((setIssuanceName nm ((assets u issuanceIdx)\<lparr>assetPublicKey := issuer, assetType := ISSUANCE\<rparr>))
                     \<lparr>numberOfShares := ucast decimals OR push_bit 8 unit\<rparr>) u
            in bind_result
              (loop_result (probe ASSETS_CAPACITY (\<lambda>i. assetType (assets u1 i) = EMPTY) (nextSlot issuanceIdx)))
              (\<lambda>ownershipIdx.
                 let u2 = setAsset ownershipIdx ((assets u1 ownershipIdx)\<lparr>assetPublicKey := issuer,
                       assetType := OWNERSHIP, managingContractIndex := managing,
                       assetIndex := of_nat issuanceIdx, numberOfShares := shares\<rparr>) u1
                 in bind_result
                   (loop_result (probe ASSETS_CAPACITY (\<lambda>i. assetType (assets u2 i) = EMPTY) (nextSlot ownershipIdx)))
                   (\<lambda>possessionIdx.
                      let u3 = setAsset possessionIdx ((assets u2 possessionIdx)\<lparr>assetPublicKey := issuer,
                            assetType := POSSESSION, managingContractIndex := managing,
                            assetIndex := of_nat ownershipIdx, numberOfShares := shares\<rparr>) u2
                      in Inr (shares, issuanceIdx, Some (ownershipIdx, possessionIdx),
                           markChanged possessionIdx (markChanged ownershipIdx (markChanged issuanceIdx u3)))))
          else Inr (0, issuanceIdx, None, u))"

section \<open>Transferring shares\<close>

text \<open>
  An index argument is an \<open>int\<close>; using it on \<open>assets\<close> outside the array is undefined behaviour in
  the source and the failure \<open>OutOfBounds\<close> here.
\<close>

definition inTable :: "int \<Rightarrow> bool" where
  "inTable i \<longleftrightarrow> 0 \<le> i \<and> i < int ASSETS_CAPACITY"

text \<open>
  The source record checks that open both transfer functions, in evaluation order: \<open>Some False\<close>
  is the early \<open>return false\<close>, \<open>Some True\<close> goes on, and reading outside the array fails.
\<close>

definition sourceCheck :: "int \<Rightarrow> int \<Rightarrow> i64 \<Rightarrow> universe \<Rightarrow> bool result" where
  "sourceCheck srcO srcP n u =
     (if sint n \<le> 0 then Inr False
      else if \<not> inTable srcO then Inl OutOfBounds
      else if assetType (assets u (nat srcO)) \<noteq> OWNERSHIP \<or>
              sint (numberOfShares (assets u (nat srcO))) < sint n then Inr False
      else if \<not> inTable srcP then Inl OutOfBounds
      else if assetType (assets u (nat srcP)) \<noteq> POSSESSION \<or>
              sint (numberOfShares (assets u (nat srcP))) < sint n \<or>
              assetIndex (assets u (nat srcP)) \<noteq> word_of_int srcO then Inr False
      else Inr True)"

text \<open>
  Filling the destination slot: an empty slot takes the key fields first, then the shares are
  added.
\<close>

definition creditRecord :: "u8 \<Rightarrow> m256 \<Rightarrow> u16 \<Rightarrow> u32 \<Rightarrow> i64 \<Rightarrow> AssetRecord \<Rightarrow> AssetRecord" where
  "creditRecord ty pk managing idx n r =
     (let r' = (if assetType r = EMPTY
                then r\<lparr>assetPublicKey := pk, assetType := ty, managingContractIndex := managing, assetIndex := idx\<rparr>
                else r)
      in r'\<lparr>numberOfShares := numberOfShares r' + n\<rparr>)"

definition slotFor :: "u8 \<Rightarrow> m256 \<Rightarrow> u16 \<Rightarrow> u32 \<Rightarrow> universe \<Rightarrow> nat \<Rightarrow> bool" where
  "slotFor ty pk managing idx u i \<longleftrightarrow>
     assetType (assets u i) = EMPTY \<or>
     (assetType (assets u i) = ty \<and> managingContractIndex (assets u i) = managing \<and>
      assetIndex (assets u i) = idx \<and> assetPublicKey (assets u i) = pk)"

text \<open>
  The common body of the two transfers (the loops \<open>iteration\<close> and \<open>iteration2\<close>): shares move from
  the source records to the ownership record of \<open>owner\<close> managed by \<open>ownerMc\<close> and the possession
  record of \<open>possessor\<close> managed by \<open>possMc\<close>. The result holds the two destination indices.
\<close>

definition moveShares ::
  "nat \<Rightarrow> nat \<Rightarrow> m256 \<Rightarrow> u16 \<Rightarrow> m256 \<Rightarrow> u16 \<Rightarrow> i64 \<Rightarrow> universe \<Rightarrow> (nat \<times> nat \<times> universe) result" where
  "moveShares srcO srcP owner ownerMc possessor possMc n u =
     (let issuanceIdx = assetIndex (assets u srcO)
      in bind_result
        (loop_result (probe ASSETS_CAPACITY (slotFor OWNERSHIP owner ownerMc issuanceIdx u) (assetHome owner)))
        (\<lambda>dstO.
           let u1 = addShares srcO (- n) u;
               u2 = setAsset dstO (creditRecord OWNERSHIP owner ownerMc issuanceIdx n (assets u1 dstO)) u1
           in bind_result
             (loop_result (probe ASSETS_CAPACITY
                (slotFor POSSESSION possessor possMc (of_nat dstO) u2) (assetHome possessor)))
             (\<lambda>dstP.
                let u3 = addShares srcP (- n) u2;
                    u4 = setAsset dstP (creditRecord POSSESSION possessor possMc (of_nat dstO) n (assets u3 dstP)) u3
                in Inr (dstO, dstP, markChanged dstP (markChanged dstO (markChanged srcP (markChanged srcO u4)))))))"

definition transferShareOwnershipAndPossession ::
  "int \<Rightarrow> int \<Rightarrow> m256 \<Rightarrow> i64 \<Rightarrow> universe \<Rightarrow> (bool \<times> universe) result" where
  "transferShareOwnershipAndPossession srcO srcP destination n u =
     bind_result (sourceCheck srcO srcP n u) (\<lambda>go.
       if \<not> go then Inr (False, u)
       else if isZero destination then
         (if ASSETS_CAPACITY \<le> unat (assetIndex (assets u (nat srcO))) then Inl OutOfBounds
          else if isZero (assetPublicKey (assets u (unat (assetIndex (assets u (nat srcO)))))) then Inr (False, u)
          else Inr (True, markChanged (nat srcP) (markChanged (nat srcO)
                 (addShares (nat srcP) (- n) (addShares (nat srcO) (- n) u)))))
       else bind_result
         (moveShares (nat srcO) (nat srcP) destination (managingContractIndex (assets u (nat srcO)))
            destination (managingContractIndex (assets u (nat srcP))) n u)
         (\<lambda>(dstO, dstP, u'). Inr (True, u')))"

definition transferShareManagementRights ::
  "int \<Rightarrow> int \<Rightarrow> u16 \<Rightarrow> u16 \<Rightarrow> i64 \<Rightarrow> universe \<Rightarrow> (bool \<times> (nat \<times> nat) option \<times> universe) result" where
  "transferShareManagementRights srcO srcP ownerMc possMc n u =
     bind_result (sourceCheck srcO srcP n u) (\<lambda>go.
       if \<not> go then Inr (False, None, u)
       else bind_result
         (moveShares (nat srcO) (nat srcP) (assetPublicKey (assets u (nat srcO))) ownerMc
            (assetPublicKey (assets u (nat srcP))) possMc n u)
         (\<lambda>(dstO, dstP, u'). Inr (True, Some (dstO, dstP), u')))"

section \<open>Finding records\<close>

text \<open>The index stored through the pointer argument; \<open>-1\<close> with the return value \<open>false\<close>.\<close>

definition findIssuerIndex :: "m256 \<Rightarrow> u64 \<Rightarrow> universe \<Rightarrow> int result" where
  "findIssuerIndex issuer nm u =
     bind_result
       (loop_result (probe ASSETS_CAPACITY
          (\<lambda>i. assetType (assets u i) = EMPTY \<or>
               (assetType (assets u i) = ISSUANCE \<and> issuanceName (assets u i) = nm \<and>
                assetPublicKey (assets u i) = issuer)) (assetHome issuer)))
       (\<lambda>i. Inr (if assetType (assets u i) = EMPTY then -1 else int i))"

definition findRecordIndex :: "u8 \<Rightarrow> int \<Rightarrow> m256 \<Rightarrow> int \<Rightarrow> universe \<Rightarrow> int result" where
  "findRecordIndex ty idx pk managing u =
     bind_result
       (loop_result (probe ASSETS_CAPACITY
          (\<lambda>i. assetType (assets u i) = EMPTY \<or>
               (assetType (assets u i) = ty \<and> assetIndex (assets u i) = word_of_int idx \<and>
                assetPublicKey (assets u i) = pk \<and> int (unat (managingContractIndex (assets u i))) = managing))
          (assetHome pk)))
       (\<lambda>i. Inr (if assetType (assets u i) = EMPTY then -1 else int i))"

definition findOwnershipIndex :: "int \<Rightarrow> m256 \<Rightarrow> int \<Rightarrow> universe \<Rightarrow> int result" where
  "findOwnershipIndex issuanceIdx owner managing u = findRecordIndex OWNERSHIP issuanceIdx owner managing u"

definition findPossessionIndex :: "int \<Rightarrow> m256 \<Rightarrow> int \<Rightarrow> universe \<Rightarrow> int result" where
  "findPossessionIndex ownershipIdx possessor managing u =
     findRecordIndex POSSESSION ownershipIdx possessor managing u"

text \<open>The pair of balances; \<open>-1\<close> where a record is missing.\<close>

definition getAssetBalances :: "m256 \<Rightarrow> m256 \<Rightarrow> u64 \<Rightarrow> u32 \<Rightarrow> universe \<Rightarrow> (i64 \<times> i64) result" where
  "getAssetBalances pk issuer nm manageSCIndex u =
     bind_result (findIssuerIndex issuer nm u) (\<lambda>issuanceIdx.
       if issuanceIdx = -1 then Inr (-1, -1)
       else bind_result (findOwnershipIndex issuanceIdx pk (sint manageSCIndex) u) (\<lambda>ownershipIdx.
         if ownershipIdx = -1 then Inr (-1, -1)
         else bind_result (findPossessionIndex ownershipIdx pk (sint manageSCIndex) u) (\<lambda>possIdx.
           if possIdx = -1 then Inr (numberOfShares (assets u (nat ownershipIdx)), -1)
           else Inr (numberOfShares (assets u (nat ownershipIdx)), numberOfShares (assets u (nat possIdx))))))"

section \<open>Transferring by name\<close>

text \<open>
  The overload ported from the contract interface: it finds the issuance, ownership and possession
  records and calls the transfer above. The returned number is the possessor's remaining shares, a
  negative number where a record is missing or the shares do not suffice, and \<open>-1\<close> where the
  possession record is managed by another contract or the transfer is refused.
\<close>

definition transferSharesByName ::
  "u64 \<Rightarrow> m256 \<Rightarrow> m256 \<Rightarrow> m256 \<Rightarrow> i64 \<Rightarrow> i64 \<Rightarrow> m256 \<Rightarrow> universe \<Rightarrow> (i64 \<times> universe) result" where
  "transferSharesByName nm issuer owner possessor n managing newOwner u =
     bind_result
       (loop_result (probe ASSETS_CAPACITY
          (\<lambda>i. assetType (assets u i) = EMPTY \<or>
               (assetType (assets u i) = ISSUANCE \<and> issuanceName (assets u i) = nm \<and>
                assetPublicKey (assets u i) = issuer)) (assetHome issuer)))
       (\<lambda>issuanceIdx.
          if assetType (assets u issuanceIdx) = EMPTY then Inr (- n, u)
          else bind_result
            (loop_result (probe ASSETS_CAPACITY
               (\<lambda>i. assetType (assets u i) = EMPTY \<or>
                    (assetType (assets u i) = OWNERSHIP \<and> assetIndex (assets u i) = of_nat issuanceIdx \<and>
                     assetPublicKey (assets u i) = owner \<and>
                     int (unat (managingContractIndex (assets u i))) = sint managing)) (assetHome owner)))
            (\<lambda>ownershipIdx.
               if assetType (assets u ownershipIdx) = EMPTY then Inr (- n, u)
               else bind_result
                 (loop_result (probe ASSETS_CAPACITY
                    (\<lambda>i. assetType (assets u i) = EMPTY \<or>
                         (assetType (assets u i) = POSSESSION \<and> assetIndex (assets u i) = of_nat ownershipIdx \<and>
                          assetPublicKey (assets u i) = possessor)) (assetHome possessor)))
                 (\<lambda>possessionIdx.
                    if assetType (assets u possessionIdx) = EMPTY then Inr (- n, u)
                    else if int (unat (managingContractIndex (assets u possessionIdx))) = sint managing then
                      if sint n \<le> sint (numberOfShares (assets u possessionIdx)) then
                        bind_result
                          (transferShareOwnershipAndPossession (int ownershipIdx) (int possessionIdx) newOwner n u)
                          (\<lambda>(ok, u'). if \<not> ok then Inr (-1, u')
                             else Inr (numberOfShares (assets u' possessionIdx), u'))
                      else Inr (numberOfShares (assets u possessionIdx) - n, u)
                    else Inr (-1, u))))"

section \<open>The rebuild at the end of an epoch\<close>

text \<open>
  One possession record with shares: its issuance, ownership and possession records are found or
  created in the new table \<open>re\<close>, and its shares are added to the last two.
\<close>

definition endEpochEntry :: "(nat \<Rightarrow> AssetRecord) \<Rightarrow> nat \<Rightarrow> universe \<Rightarrow> universe result" where
  "endEpochEntry old i re =
     (let oldOwnershipIdx = unat (assetIndex (old i))
      in if ASSETS_CAPACITY \<le> oldOwnershipIdx then Inl OutOfBounds
      else let oldIssuanceIdx = unat (assetIndex (old oldOwnershipIdx))
      in if ASSETS_CAPACITY \<le> oldIssuanceIdx then Inl OutOfBounds
      else let issuer = assetPublicKey (old oldIssuanceIdx); nm = issuanceName (old oldIssuanceIdx)
      in bind_result
        (loop_result (probe ASSETS_CAPACITY
           (\<lambda>j. assetType (assets re j) = EMPTY \<or>
                (assetType (assets re j) = ISSUANCE \<and> issuanceName (assets re j) = nm \<and>
                 assetPublicKey (assets re j) = issuer)) (assetHome issuer)))
        (\<lambda>issuanceIdx.
           let re1 = (if assetType (assets re issuanceIdx) = EMPTY
                      then setAsset issuanceIdx (old oldIssuanceIdx) re else re);
               owner = assetPublicKey (old oldOwnershipIdx);
               ownerMc = managingContractIndex (old oldOwnershipIdx)
           in bind_result
             (loop_result (probe ASSETS_CAPACITY
                (slotFor OWNERSHIP owner ownerMc (of_nat issuanceIdx) re1) (assetHome owner)))
             (\<lambda>ownershipIdx.
                let re2 = setAsset ownershipIdx (creditRecord OWNERSHIP owner ownerMc (of_nat issuanceIdx)
                      (numberOfShares (old i)) (assets re1 ownershipIdx)) re1;
                    possessor = assetPublicKey (old i); possMc = managingContractIndex (old i)
                in bind_result
                  (loop_result (probe ASSETS_CAPACITY
                     (slotFor POSSESSION possessor possMc (of_nat ownershipIdx) re2) (assetHome possessor)))
                  (\<lambda>possessionIdx.
                     Inr (setAsset possessionIdx (creditRecord POSSESSION possessor possMc (of_nat ownershipIdx)
                       (numberOfShares (old i)) (assets re2 possessionIdx)) re2)))))"

fun endEpochFrom :: "(nat \<Rightarrow> AssetRecord) \<Rightarrow> nat list \<Rightarrow> universe \<Rightarrow> universe result" where
  "endEpochFrom old [] re = Inr re"
| "endEpochFrom old (i # is) re =
     (if assetType (old i) = POSSESSION \<and> 0 < sint (numberOfShares (old i))
      then bind_result (endEpochEntry old i re) (endEpochFrom old is)
      else endEpochFrom old is re)"

definition assetsEndEpoch :: "universe \<Rightarrow> universe result" where
  "assetsEndEpoch u =
     bind_result
       (endEpochFrom (assets u) [0..<ASSETS_CAPACITY] \<lparr>assets = (\<lambda>_. zeroAsset), assetChangeFlags = assetChangeFlags u\<rparr>)
       (\<lambda>re. Inr \<lparr>assets = assets re,
          assetChangeFlags = (\<lambda>w. if w < ASSETS_CAPACITY div 64 then 0xFFFFFFFFFFFFFFFF else assetChangeFlags u w)\<rparr>)"

section \<open>The table of records\<close>

datatype assetKey =
    IssuanceKey m256 u64
  | OwnershipKey m256 u16 u32
  | PossessionKey m256 u16 u32
  | OtherKey m256 u8

definition keyOfAsset :: "AssetRecord \<Rightarrow> assetKey option" where
  "keyOfAsset r =
     (if assetType r = EMPTY then None
      else if assetType r = ISSUANCE then Some (IssuanceKey (assetPublicKey r) (issuanceName r))
      else if assetType r = OWNERSHIP then Some (OwnershipKey (assetPublicKey r) (managingContractIndex r) (assetIndex r))
      else if assetType r = POSSESSION then Some (PossessionKey (assetPublicKey r) (managingContractIndex r) (assetIndex r))
      else Some (OtherKey (assetPublicKey r) (assetType r)))"

fun homeOfKey :: "assetKey \<Rightarrow> nat" where
  "homeOfKey (IssuanceKey pk nm) = assetHome pk"
| "homeOfKey (OwnershipKey pk mc idx) = assetHome pk"
| "homeOfKey (PossessionKey pk mc idx) = assetHome pk"
| "homeOfKey (OtherKey pk ty) = assetHome pk"

lemma ASSETS_CAPACITY_pow2: "ASSETS_CAPACITY = 2 ^ ASSETS_DEPTH"
  by (simp add: ASSETS_CAPACITY_def ASSETS_DEPTH_def)

lemma assetHome_less [simp]: "assetHome pk < ASSETS_CAPACITY"
proof -
  have "assetHome pk = unat (m256i_u32_0 pk) mod ASSETS_CAPACITY"
    unfolding assetHome_def ASSETS_CAPACITY_pow2
    by (metis take_bit_eq_mask mask_eq_exp_minus_1 take_bit_eq_mod)
  then show ?thesis by (simp add: ASSETS_CAPACITY_def)
qed

interpretation ast: probe_table ASSETS_CAPACITY keyOfAsset homeOfKey
proof
  show "\<exists>n. ASSETS_CAPACITY = 2 ^ n" using ASSETS_CAPACITY_pow2 by blast
  show "homeOfKey k < ASSETS_CAPACITY" for k by (cases k) simp_all
qed

end
