(* ===== verification/AssetsInv.thy ===== *)
theory AssetsInv
  imports Assets
begin

text \<open>
  The invariant of the universe and the lemmas that every asset operation keeps it. A well-formed
  table has its records on their probe paths under unique keys, points from every ownership record
  to an issuance and from every possession record to an ownership, keeps empty slots zeroed, and
  accounts for the shares: the shares of an ownership record are the sum of the shares of the
  possession records under it.
\<close>

section \<open>Keys and views\<close>

lemma issuanceName_setIssuanceName [simp]:
  "issuanceName (setIssuanceName nm r) = nm AND nameMask"
proof (rule bit_word_eqI)
  fix n :: nat assume n: "n < LENGTH(64)"
  have mask: "nameMask = mask 56" by (simp add: nameMask_def mask_eq_exp_minus_1)
  consider "n < 8" | "8 \<le> n \<and> n < 24" | "24 \<le> n \<and> n < 56" | "56 \<le> n" by linarith
  then show "bit (issuanceName (setIssuanceName nm r)) n = bit (nm AND nameMask) n"
    using n by cases (auto simp: issuanceName_def setIssuanceName_def mask bit_simps)
qed

lemma keyOfAsset_shares [simp]: "keyOfAsset (r\<lparr>numberOfShares := x\<rparr>) = keyOfAsset r"
  by (simp add: keyOfAsset_def issuanceName_def)

lemma keyOfAsset_None [simp]: "keyOfAsset r = None \<longleftrightarrow> assetType r = 0"
  by (simp add: keyOfAsset_def)

lemma keyOfAsset_Issuance [simp]:
  "keyOfAsset r = Some (IssuanceKey pk nm) \<longleftrightarrow>
     assetType r = 1 \<and> issuanceName r = nm \<and> assetPublicKey r = pk"
  by (auto simp: keyOfAsset_def)

lemma keyOfAsset_Ownership [simp]:
  "keyOfAsset r = Some (OwnershipKey pk mc idx) \<longleftrightarrow>
     assetType r = 2 \<and> managingContractIndex r = mc \<and> assetIndex r = idx \<and> assetPublicKey r = pk"
  by (auto simp: keyOfAsset_def)

lemma keyOfAsset_Possession [simp]:
  "keyOfAsset r = Some (PossessionKey pk mc idx) \<longleftrightarrow>
     assetType r = 3 \<and> managingContractIndex r = mc \<and> assetIndex r = idx \<and> assetPublicKey r = pk"
  by (auto simp: keyOfAsset_def)

text \<open>The stopping conditions of the source's loops are searches for a key.\<close>

lemma issuance_slot_for:
  "(\<lambda>i. assetType (as i) = 0 \<or> assetType (as i) = 1 \<and> issuanceName (as i) = nm \<and> assetPublicKey (as i) = pk)
     = slot_for keyOfAsset as (IssuanceKey pk nm)"
  by (auto simp: slot_for_def)

lemma ownership_slot_for: "slotFor 2 pk mc idx u = slot_for keyOfAsset (assets u) (OwnershipKey pk mc idx)"
  by (rule ext) (auto simp: slotFor_def slot_for_def)

lemma possession_slot_for: "slotFor 3 pk mc idx u = slot_for keyOfAsset (assets u) (PossessionKey pk mc idx)"
  by (rule ext) (auto simp: slotFor_def slot_for_def)

lemma assets_setAsset [simp]: "assets (setAsset i r u) = (assets u)(i := r)"
  by (simp add: setAsset_def)

lemma assets_markChanged [simp]: "assets (markChanged i u) = assets u"
  by (simp add: markChanged_def)

lemma assets_addShares:
  "assets (addShares i n u) = (assets u)(i := (assets u i)\<lparr>numberOfShares := numberOfShares (assets u i) + n\<rparr>)"
  by (simp add: addShares_def)

section \<open>The invariant\<close>

text \<open>The shares of all records of one kind that point to slot \<open>o\<close>, modulo \<open>2^64\<close>.\<close>

definition contribution :: "u8 \<Rightarrow> u32 \<Rightarrow> AssetRecord \<Rightarrow> i64" where
  "contribution ty idx r = (if assetType r = ty \<and> assetIndex r = idx then numberOfShares r else 0)"

definition sharesUnder :: "u8 \<Rightarrow> u32 \<Rightarrow> (nat \<Rightarrow> AssetRecord) \<Rightarrow> i64" where
  "sharesUnder ty idx as = (\<Sum>i<ASSETS_CAPACITY. contribution ty idx (as i))"

definition assets_linked :: "(nat \<Rightarrow> AssetRecord) \<Rightarrow> bool" where
  "assets_linked as \<longleftrightarrow>
     table_ok ASSETS_CAPACITY keyOfAsset homeOfKey as \<and>
     (\<forall>i<ASSETS_CAPACITY. assetType (as i) \<in> {0, 1, 2, 3}) \<and>
     (\<forall>i<ASSETS_CAPACITY. assetType (as i) = 0 \<longrightarrow> as i = zeroAsset) \<and>
     (\<forall>i<ASSETS_CAPACITY. assetType (as i) = 2 \<longrightarrow>
        unat (assetIndex (as i)) < ASSETS_CAPACITY \<and> assetType (as (unat (assetIndex (as i)))) = 1) \<and>
     (\<forall>i<ASSETS_CAPACITY. assetType (as i) = 3 \<longrightarrow>
        unat (assetIndex (as i)) < ASSETS_CAPACITY \<and> assetType (as (unat (assetIndex (as i)))) = 2)"

definition assets_balanced :: "(nat \<Rightarrow> AssetRecord) \<Rightarrow> bool" where
  "assets_balanced as \<longleftrightarrow>
     (\<forall>i<ASSETS_CAPACITY. assetType (as i) = 2 \<longrightarrow> numberOfShares (as i) = sharesUnder 3 (of_nat i) as)"

definition universe_ok :: "universe \<Rightarrow> bool" where
  "universe_ok u \<longleftrightarrow> assets_linked (assets u) \<and> assets_balanced (assets u)"

definition universeFree :: "universe \<Rightarrow> nat set" where
  "universeFree u = free_slots ASSETS_CAPACITY keyOfAsset (assets u)"

lemma unat_slot [simp]: "i < ASSETS_CAPACITY \<Longrightarrow> unat (of_nat i :: u32) = i"
  by (simp add: unat_of_nat ASSETS_CAPACITY_def)

lemma of_nat_slot_inj: "i < ASSETS_CAPACITY \<Longrightarrow> j < ASSETS_CAPACITY \<Longrightarrow> (of_nat i :: u32) = of_nat j \<longleftrightarrow> i = j"
  by (metis unat_slot)

lemma sharesUnder_update:
  assumes "j < ASSETS_CAPACITY"
  shows "sharesUnder ty idx (as(j := r)) =
    sharesUnder ty idx as - contribution ty idx (as j) + contribution ty idx r"
proof -
  have "sharesUnder ty idx as' = contribution ty idx (as' j) +
      (\<Sum>i\<in>{..<ASSETS_CAPACITY} - {j}. contribution ty idx (as' i))" for as'
    unfolding sharesUnder_def using assms by (subst sum.remove [of _ j]) auto
  moreover have "(\<Sum>i\<in>{..<ASSETS_CAPACITY} - {j}. contribution ty idx ((as(j := r)) i)) =
      (\<Sum>i\<in>{..<ASSETS_CAPACITY} - {j}. contribution ty idx (as i))"
    by (rule sum.cong) auto
  ultimately show ?thesis by simp
qed

text \<open>No possession points to a slot that is not an ownership record.\<close>

lemma sharesUnder_no_owner:
  assumes "assets_linked as" and "j < ASSETS_CAPACITY" and "assetType (as j) \<noteq> 2"
  shows "sharesUnder 3 (of_nat j) as = 0"
proof -
  have "contribution 3 (of_nat j) (as i) = 0" if "i < ASSETS_CAPACITY" for i
    using assms that by (auto simp: contribution_def assets_linked_def)
  then show ?thesis by (simp add: sharesUnder_def)
qed

lemma linkedD:
  assumes "assets_linked as"
  shows "table_ok ASSETS_CAPACITY keyOfAsset homeOfKey as"
    and "i < ASSETS_CAPACITY \<Longrightarrow> assetType (as i) = 0 \<Longrightarrow> as i = zeroAsset"
    and "i < ASSETS_CAPACITY \<Longrightarrow> assetType (as i) = 2 \<Longrightarrow> unat (assetIndex (as i)) < ASSETS_CAPACITY"
    and "i < ASSETS_CAPACITY \<Longrightarrow> assetType (as i) = 2 \<Longrightarrow> assetType (as (unat (assetIndex (as i)))) = 1"
    and "i < ASSETS_CAPACITY \<Longrightarrow> assetType (as i) = 3 \<Longrightarrow> unat (assetIndex (as i)) < ASSETS_CAPACITY"
    and "i < ASSETS_CAPACITY \<Longrightarrow> assetType (as i) = 3 \<Longrightarrow> assetType (as (unat (assetIndex (as i)))) = 2"
  using assms by (simp_all add: assets_linked_def)

text \<open>Changing the shares of an occupied slot keeps the links.\<close>

lemma linked_shares:
  assumes "assets_linked as" and "assetType (as i) \<noteq> 0"
  shows "assets_linked (as(i := (as i)\<lparr>numberOfShares := x\<rparr>))"
proof -
  have types: "assetType ((as(i := (as i)\<lparr>numberOfShares := x\<rparr>)) j) = assetType (as j)"
    and idx: "assetIndex ((as(i := (as i)\<lparr>numberOfShares := x\<rparr>)) j) = assetIndex (as j)" for j
    by simp_all
  have "table_ok ASSETS_CAPACITY keyOfAsset homeOfKey (as(i := (as i)\<lparr>numberOfShares := x\<rparr>))"
    using linkedD(1) [OF assms(1)] by (intro ast.rewrite_ok) simp_all
  with assms show ?thesis unfolding assets_linked_def types idx by auto
qed

text \<open>
  Storing a record under its key, at the slot a search for that key found, keeps the links when the
  record itself points to a record of the kind above it.
\<close>

lemma linked_store:
  assumes linked: "assets_linked as" and key: "keyOfAsset r = Some k"
    and found: "probe ASSETS_CAPACITY (slot_for keyOfAsset as k) (homeOfKey k) = Some j"
    and ty: "assetType r \<in> {1, 2, 3}"
    and up2: "assetType r = 2 \<Longrightarrow> unat (assetIndex r) < ASSETS_CAPACITY \<and> assetType (as (unat (assetIndex r))) = 1"
    and up3: "assetType r = 3 \<Longrightarrow> unat (assetIndex r) < ASSETS_CAPACITY \<and> assetType (as (unat (assetIndex r))) = 2"
  shows "assets_linked (as(j := r))"
proof -
  have ok: "table_ok ASSETS_CAPACITY keyOfAsset homeOfKey (as(j := r))"
    using ast.store_ok [OF linkedD(1) [OF linked] found key] .
  have "keyOfAsset (as j) = None \<or> keyOfAsset (as j) = Some k"
    using probe_stops [OF found] by (simp add: slot_for_def)
  then have kind: "assetType (as j) = 0 \<or> assetType (as j) = assetType r"
    using key ty by (cases k) (auto simp: keyOfAsset_def split: if_splits)
  have up: "assetType ((as(j := r)) i) = ty" if "assetType (as i) = ty" "ty \<noteq> 0" for i ty
    using that kind by auto
  show ?thesis
    unfolding assets_linked_def
  proof (intro conjI allI impI)
    show "table_ok ASSETS_CAPACITY keyOfAsset homeOfKey (as(j := r))" by (rule ok)
    fix i assume i: "i < ASSETS_CAPACITY"
    show "assetType ((as(j := r)) i) \<in> {0, 1, 2, 3}"
      using linked i ty by (auto simp: assets_linked_def)
    show "(as(j := r)) i = zeroAsset" if "assetType ((as(j := r)) i) = 0"
      using that linked i ty by (auto simp: assets_linked_def)
    show "unat (assetIndex ((as(j := r)) i)) < ASSETS_CAPACITY" if "assetType ((as(j := r)) i) = 2"
      using that linkedD(3) [OF linked i] up2 by (cases "i = j") auto
    show "assetType ((as(j := r)) (unat (assetIndex ((as(j := r)) i)))) = 1"
      if "assetType ((as(j := r)) i) = 2"
      using that linkedD(4) [OF linked i] up2 by (intro up) (cases "i = j"; auto)+
    show "unat (assetIndex ((as(j := r)) i)) < ASSETS_CAPACITY" if "assetType ((as(j := r)) i) = 3"
      using that linkedD(5) [OF linked i] up3 by (cases "i = j") auto
    show "assetType ((as(j := r)) (unat (assetIndex ((as(j := r)) i)))) = 2"
      if "assetType ((as(j := r)) i) = 3"
      using that linkedD(6) [OF linked i] up3 by (intro up) (cases "i = j"; auto)+
  qed
qed

section \<open>Accounting for one record\<close>

text \<open>
  What an ownership record claims beyond the possessions under it; a table is balanced when nothing
  is owed. \<open>sharesOf\<close> reads the shares stored under a key.
\<close>

definition owed :: "(nat \<Rightarrow> AssetRecord) \<Rightarrow> nat \<Rightarrow> i64" where
  "owed as i = (if assetType (as i) = 2 then numberOfShares (as i) else 0) - sharesUnder 3 (of_nat i) as"

definition sharesOf :: "(nat \<Rightarrow> AssetRecord) \<Rightarrow> assetKey \<Rightarrow> i64" where
  "sharesOf as k = (case table_map ASSETS_CAPACITY keyOfAsset as k of None \<Rightarrow> 0 | Some r \<Rightarrow> numberOfShares r)"

lemma balanced_iff_owed:
  assumes "assets_linked as"
  shows "assets_balanced as \<longleftrightarrow> (\<forall>i<ASSETS_CAPACITY. owed as i = 0)"
  using sharesUnder_no_owner [OF assms] by (auto simp: assets_balanced_def owed_def)

text \<open>
  \<open>r'\<close> is \<open>r\<close> with \<open>n\<close> more shares, as a record of kind \<open>ty\<close> under slot \<open>idx\<close>; \<open>r\<close> may be an empty slot.
\<close>

definition bumped :: "u8 \<Rightarrow> u32 \<Rightarrow> i64 \<Rightarrow> AssetRecord \<Rightarrow> AssetRecord \<Rightarrow> bool" where
  "bumped ty idx n r r' \<longleftrightarrow>
     assetType r' = ty \<and> assetIndex r' = idx \<and> numberOfShares r' = numberOfShares r + n \<and>
     (assetType r = ty \<and> assetIndex r = idx \<or> r = zeroAsset)"

lemma bumped_contribution:
  assumes "bumped ty idx n r r'" and "t \<noteq> 0"
  shows "contribution t k r' = contribution t k r + (if t = ty \<and> k = idx then n else 0)"
  using assms by (auto simp: bumped_def contribution_def zeroAsset_def)

lemma bumped_sharesUnder:
  assumes "bumped ty idx n (as j) r'" and "t \<noteq> 0" and "j < ASSETS_CAPACITY"
  shows "sharesUnder t k (as(j := r')) = sharesUnder t k as + (if t = ty \<and> k = idx then n else 0)"
  using bumped_contribution [OF assms(1,2)] by (simp add: sharesUnder_update [OF assms(3)])

lemma bumped_owed:
  assumes "bumped ty idx n (as j) r'" and "j < ASSETS_CAPACITY"
  shows "owed (as(j := r')) i =
    owed as i + (if ty = 2 \<and> i = j then n else 0) - (if ty = 3 \<and> of_nat i = idx then n else 0)"
proof -
  have "sharesUnder 3 (of_nat i) (as(j := r')) =
      sharesUnder 3 (of_nat i) as + (if 3 = ty \<and> of_nat i = idx then n else 0)"
    by (rule bumped_sharesUnder) (use assms in simp_all)
  with assms(1) show ?thesis by (auto simp: owed_def bumped_def zeroAsset_def)
qed

lemma bumped_sharesOf:
  assumes "table_ok ASSETS_CAPACITY keyOfAsset homeOfKey as"
    and "table_ok ASSETS_CAPACITY keyOfAsset homeOfKey (as(j := r'))"
    and "bumped ty idx n (as j) r'" and "j < ASSETS_CAPACITY" and "keyOfAsset r' = Some k0"
    and "keyOfAsset (as j) = Some k0 \<or>
         keyOfAsset (as j) = None \<and> table_map ASSETS_CAPACITY keyOfAsset as k0 = None"
    and "ty \<noteq> 0"
  shows "sharesOf (as(j := r')) k = sharesOf as k + (if k = k0 then n else 0)"
proof -
  have upd: "table_map ASSETS_CAPACITY keyOfAsset (as(j := r')) =
      (table_map ASSETS_CAPACITY keyOfAsset as)(k0 \<mapsto> r')"
    using ast.map_store [OF assms(1,2,4,5)] assms(6) by blast
  have old: "sharesOf as k0 = numberOfShares (as j)"
    using assms(6)
  proof
    assume "keyOfAsset (as j) = Some k0"
    then have "table_map ASSETS_CAPACITY keyOfAsset as k0 = Some (as j)"
      using ast.table_map_Some_iff [OF assms(1)] assms(4) by blast
    then show ?thesis by (simp add: sharesOf_def)
  next
    assume "keyOfAsset (as j) = None \<and> table_map ASSETS_CAPACITY keyOfAsset as k0 = None"
    moreover from this have "assetType (as j) = 0" by simp
    ultimately show ?thesis
      using assms(3,5,7) by (auto simp: sharesOf_def bumped_def zeroAsset_def)
  qed
  show ?thesis
    using old assms(3) by (auto simp: sharesOf_def upd bumped_def)
qed

text \<open>A change of the shares of a stored ownership or possession record.\<close>

lemma bumped_addShares:
  assumes "assetType (as i) = ty" and "ty \<noteq> 0"
  shows "bumped ty (assetIndex (as i)) n (as i) ((as i)\<lparr>numberOfShares := numberOfShares (as i) + n\<rparr>)"
  using assms by (simp add: bumped_def)

text \<open>A credit of the slot that the search for a key found.\<close>

lemma credit_slot:
  assumes linked: "assets_linked as" and ty: "ty \<in> {2, 3}"
    and k: "k = (if ty = 2 then OwnershipKey pk mc idx else PossessionKey pk mc idx)"
    and found: "probe ASSETS_CAPACITY (slot_for keyOfAsset as k) (homeOfKey k) = Some j"
  shows "j < ASSETS_CAPACITY"
    and "keyOfAsset (creditRecord ty pk mc idx n (as j)) = Some k"
    and "bumped ty idx n (as j) (creditRecord ty pk mc idx n (as j))"
    and "keyOfAsset (as j) = Some k \<or>
         keyOfAsset (as j) = None \<and> table_map ASSETS_CAPACITY keyOfAsset as k = None"
proof -
  show j: "j < ASSETS_CAPACITY" using ast.cap_probe_less [OF found ast.home_less] .
  have stop: "keyOfAsset (as j) = None \<or> keyOfAsset (as j) = Some k"
    using probe_stops [OF found] by (simp add: slot_for_def)
  with ast.search_absent [OF linkedD(1) [OF linked] found]
  show "keyOfAsset (as j) = Some k \<or>
        keyOfAsset (as j) = None \<and> table_map ASSETS_CAPACITY keyOfAsset as k = None"
    by (cases "keyOfAsset (as j)") auto
  have "as j = zeroAsset" if "assetType (as j) = 0" using linkedD(2) [OF linked j that] .
  with stop ty k show "keyOfAsset (creditRecord ty pk mc idx n (as j)) = Some k"
    and "bumped ty idx n (as j) (creditRecord ty pk mc idx n (as j))"
    by (auto simp: creditRecord_def bumped_def Let_def split: if_splits)
qed

text \<open>
  One accounting step: slot \<open>j\<close>, holding key \<open>k0\<close> afterwards, gains \<open>n\<close> shares as a record of kind
  \<open>ty\<close> under slot \<open>idx\<close>; every record keeps its key.
\<close>

definition share_step ::
  "u8 \<Rightarrow> u32 \<Rightarrow> assetKey \<Rightarrow> nat \<Rightarrow> i64 \<Rightarrow> (nat \<Rightarrow> AssetRecord) \<Rightarrow> (nat \<Rightarrow> AssetRecord) \<Rightarrow> bool" where
  "share_step ty idx k0 j n as as' \<longleftrightarrow>
     assets_linked as' \<and> j < ASSETS_CAPACITY \<and> keyOfAsset (as' j) = Some k0 \<and>
     (\<forall>i. owed as' i = owed as i + (if ty = 2 \<and> i = j then n else 0) - (if ty = 3 \<and> of_nat i = idx then n else 0)) \<and>
     (\<forall>k. sharesOf as' k = sharesOf as k + (if k = k0 then n else 0)) \<and>
     (\<forall>k. sharesUnder 2 k as' = sharesUnder 2 k as + (if ty = 2 \<and> k = idx then n else 0)) \<and>
     (\<forall>i. keyOfAsset (as i) \<noteq> None \<longrightarrow> keyOfAsset (as' i) = keyOfAsset (as i)) \<and>
     free_slots ASSETS_CAPACITY keyOfAsset as' = free_slots ASSETS_CAPACITY keyOfAsset as - {j}"

lemma share_stepD:
  assumes "share_step ty idx k0 j n as as'"
  shows share_step_linked: "assets_linked as'"
    and share_step_slot: "j < ASSETS_CAPACITY"
    and share_step_key: "keyOfAsset (as' j) = Some k0"
    and share_step_owed: "owed as' i = owed as i + (if ty = 2 \<and> i = j then n else 0) -
          (if ty = 3 \<and> of_nat i = idx then n else 0)"
    and share_step_sharesOf: "sharesOf as' k = sharesOf as k + (if k = k0 then n else 0)"
    and share_step_under: "sharesUnder 2 m as' = sharesUnder 2 m as + (if ty = 2 \<and> m = idx then n else 0)"
    and share_step_keys: "keyOfAsset (as i) = Some k \<Longrightarrow> keyOfAsset (as' i) = Some k"
    and share_step_free: "free_slots ASSETS_CAPACITY keyOfAsset as' = free_slots ASSETS_CAPACITY keyOfAsset as - {j}"
  using assms unfolding share_step_def by (auto simp del: keyOfAsset_None)

lemma share_stepI:
  assumes linked: "assets_linked as" "assets_linked (as(j := r'))"
    and bump: "bumped ty idx n (as j) r'" and j: "j < ASSETS_CAPACITY"
    and key: "keyOfAsset r' = Some k0" and ty: "ty \<noteq> 0"
    and old: "keyOfAsset (as j) = Some k0 \<or>
      keyOfAsset (as j) = None \<and> table_map ASSETS_CAPACITY keyOfAsset as k0 = None"
  shows "share_step ty idx k0 j n as (as(j := r'))"
proof -
  have owed: "owed (as(j := r')) i =
      owed as i + (if ty = 2 \<and> i = j then n else 0) - (if ty = 3 \<and> of_nat i = idx then n else 0)" for i
    by (rule bumped_owed) (use bump j in simp_all)
  have sharesOf: "sharesOf (as(j := r')) k = sharesOf as k + (if k = k0 then n else 0)" for k
    by (rule bumped_sharesOf) (use linkedD(1) [OF linked(1)] linkedD(1) [OF linked(2)] bump j key old ty in blast)+
  have under: "sharesUnder 2 k (as(j := r')) = sharesUnder 2 k as + (if ty = 2 \<and> k = idx then n else 0)" for k
  proof -
    have "sharesUnder 2 k (as(j := r')) = sharesUnder 2 k as + (if 2 = ty \<and> k = idx then n else 0)"
      by (rule bumped_sharesUnder) (use bump j in simp_all)
    then show ?thesis by auto
  qed
  have keys: "keyOfAsset ((as(j := r')) i) = keyOfAsset (as i)" if "keyOfAsset (as i) \<noteq> None" for i
    using that old key by auto
  have "free_slots ASSETS_CAPACITY keyOfAsset (as(j := r')) = free_slots ASSETS_CAPACITY keyOfAsset as - {j}"
    using key by (intro free_slots_update) simp
  with linked(2) j key owed sharesOf under keys show ?thesis by (simp add: share_step_def)
qed

lemma debit_step:
  assumes linked: "assets_linked as" and j: "j < ASSETS_CAPACITY"
    and key: "keyOfAsset (as j) = Some k0" and ty: "assetType (as j) = ty"
  shows "share_step ty (assetIndex (as j)) k0 j n as
    (as(j := (as j)\<lparr>numberOfShares := numberOfShares (as j) + n\<rparr>))"
proof (rule share_stepI)
  have "assetType (as j) \<noteq> 0" using key by (metis keyOfAsset_None option.distinct(1))
  then show "assets_linked (as(j := (as j)\<lparr>numberOfShares := numberOfShares (as j) + n\<rparr>))"
    and "bumped ty (assetIndex (as j)) n (as j) ((as j)\<lparr>numberOfShares := numberOfShares (as j) + n\<rparr>)"
    and "ty \<noteq> 0"
    using linked_shares [OF linked] bumped_addShares [of as j ty n] ty by auto
qed (use assms in simp_all)

lemma credit_step:
  assumes linked: "assets_linked as" and ty: "ty \<in> {2, 3}"
    and k: "k = (if ty = 2 then OwnershipKey pk mc idx else PossessionKey pk mc idx)"
    and found: "probe ASSETS_CAPACITY (slot_for keyOfAsset as k) (homeOfKey k) = Some j"
    and idx: "unat idx < ASSETS_CAPACITY" "assetType (as (unat idx)) = ty - 1"
  shows "share_step ty idx k j n as (as(j := creditRecord ty pk mc idx n (as j)))"
proof (rule share_stepI)
  note slot = credit_slot [OF linked ty k found]
  show "bumped ty idx n (as j) (creditRecord ty pk mc idx n (as j))" by (rule slot(3))
  then have fields: "assetType (creditRecord ty pk mc idx n (as j)) = ty"
    "assetIndex (creditRecord ty pk mc idx n (as j)) = idx" by (simp_all add: bumped_def)
  show "assets_linked (as(j := creditRecord ty pk mc idx n (as j)))"
    by (rule linked_store [OF linked slot(2) found]) (use ty idx fields in auto)
  show "ty \<noteq> 0" using ty by auto
  show "keyOfAsset (as j) = Some k \<or>
      keyOfAsset (as j) = None \<and> table_map ASSETS_CAPACITY keyOfAsset as k = None" by (rule slot(4))
qed (use linked credit_slot [OF linked ty k found] in simp_all)

section \<open>Moving shares\<close>

text \<open>A search sees only the keys, so it can be run before or after a change that keeps the keys.\<close>

lemma slot_for_same_keys:
  assumes "\<And>i. keyOfAsset (as' i) = keyOfAsset (as i)"
  shows "slot_for keyOfAsset as' k = slot_for keyOfAsset as k"
  using assms by (auto simp: slot_for_def)

lemma universe_ok_owed: "universe_ok u \<Longrightarrow> i < ASSETS_CAPACITY \<Longrightarrow> owed (assets u) i = 0"
  using balanced_iff_owed by (auto simp: universe_ok_def)

text \<open>The shares a key holds after \<open>n\<close> shares moved from the keys \<open>from\<close> to the keys \<open>to\<close>.\<close>

definition movedShares :: "assetKey list \<Rightarrow> assetKey list \<Rightarrow> i64 \<Rightarrow> (assetKey \<Rightarrow> i64) \<Rightarrow> assetKey \<Rightarrow> i64" where
  "movedShares from to n h k =
     h k - (if k \<in> set from then n else 0) + (if k \<in> set to then n else 0)"

definition ownershipKeyAt :: "universe \<Rightarrow> nat \<Rightarrow> assetKey" where
  "ownershipKeyAt u i = OwnershipKey (assetPublicKey (assets u i)) (managingContractIndex (assets u i)) (assetIndex (assets u i))"

definition possessionKeyAt :: "universe \<Rightarrow> nat \<Rightarrow> assetKey" where
  "possessionKeyAt u i = PossessionKey (assetPublicKey (assets u i)) (managingContractIndex (assets u i)) (assetIndex (assets u i))"

text \<open>
  Half a move: \<open>n\<close> shares leave slot \<open>src\<close> and arrive in the slot that the search for the
  destination's key finds.
\<close>

lemma half_move:
  assumes linked: "assets_linked as"
    and dst: "probe ASSETS_CAPACITY (slot_for keyOfAsset as k) (homeOfKey k) = Some dst"
    and src: "src < ASSETS_CAPACITY" "keyOfAsset (as src) = Some ks" "assetType (as src) = ty"
    and ty: "ty \<in> {2, 3}" and k: "k = (if ty = 2 then OwnershipKey pk mc idx else PossessionKey pk mc idx)"
    and idx: "unat idx < ASSETS_CAPACITY" "assetType (as (unat idx)) = ty - 1"
    and as1: "as1 = as(src := (as src)\<lparr>numberOfShares := numberOfShares (as src) + - n\<rparr>)"
  shows "share_step ty (assetIndex (as src)) ks src (- n) as as1"
    and "share_step ty idx k dst n as1 (as1(dst := creditRecord ty pk mc idx n (as1 dst)))"
proof -
  show s1: "share_step ty (assetIndex (as src)) ks src (- n) as as1"
    unfolding as1 by (rule debit_step [OF linked src])
  have keys1: "keyOfAsset (as1 i) = keyOfAsset (as i)" and types1: "assetType (as1 i) = assetType (as i)" for i
    by (simp_all add: as1)
  have "probe ASSETS_CAPACITY (slot_for keyOfAsset as1 k) (homeOfKey k) = Some dst"
    using dst slot_for_same_keys [OF keys1] by simp
  from credit_step [OF share_step_linked [OF s1] ty k this idx(1)] idx(2) types1
  show "share_step ty idx k dst n as1 (as1(dst := creditRecord ty pk mc idx n (as1 dst)))" by simp
qed

text \<open>What a returning move has computed: the two searches and the table after each half.\<close>

lemma moveShares_Inr:
  assumes "moveShares srcO srcP owner mcO possessor mcP n u = Inr (dstO, dstP, u')"
  defines "as1 \<equiv> (assets u)(srcO := (assets u srcO)\<lparr>numberOfShares := numberOfShares (assets u srcO) + - n\<rparr>)"
  defines "as2 \<equiv> as1(dstO := creditRecord 2 owner mcO (assetIndex (assets u srcO)) n (as1 dstO))"
  defines "as3 \<equiv> as2(srcP := (as2 srcP)\<lparr>numberOfShares := numberOfShares (as2 srcP) + - n\<rparr>)"
  shows "probe ASSETS_CAPACITY (slot_for keyOfAsset (assets u) (OwnershipKey owner mcO (assetIndex (assets u srcO))))
      (assetHome owner) = Some dstO"
    and "probe ASSETS_CAPACITY (slot_for keyOfAsset as2 (PossessionKey possessor mcP (of_nat dstO)))
      (assetHome possessor) = Some dstP"
    and "assets u' = as3(dstP := creditRecord 3 possessor mcP (of_nat dstO) n (as3 dstP))"
  using assms(1) unfolding as1_def as2_def as3_def
  by (auto simp: moveShares_def Let_def ownership_slot_for possession_slot_for assets_addShares bind_result_Inr_iff)

lemma moveShares_returns:
  assumes "2 \<le> card (universeFree u)"
  shows "\<exists>dstO dstP u'. moveShares srcO srcP owner mcO possessor mcP n u = Inr (dstO, dstP, u')"
proof -
  let ?KO = "OwnershipKey owner mcO (assetIndex (assets u srcO))"
  have "free_slots ASSETS_CAPACITY keyOfAsset (assets u) \<noteq> {}" using assms by (auto simp: universeFree_def)
  then obtain dstO where dstO: "probe ASSETS_CAPACITY (slot_for keyOfAsset (assets u) ?KO) (assetHome owner) = Some dstO"
    using ast.search_returns [of "assets u" ?KO] by auto
  define u2 where "u2 = setAsset dstO (creditRecord 2 owner mcO (assetIndex (assets u srcO)) n
    (assets (addShares srcO (- n) u) dstO)) (addShares srcO (- n) u)"
  have "universeFree u - {dstO} \<subseteq> free_slots ASSETS_CAPACITY keyOfAsset (assets u2)"
    by (auto simp: universeFree_def free_slots_def u2_def assets_addShares)
  moreover have "universeFree u - {dstO} \<noteq> {}"
    using assms card_mono [of "{dstO}" "universeFree u"] by auto
  ultimately have "free_slots ASSETS_CAPACITY keyOfAsset (assets u2) \<noteq> {}" by blast
  then obtain dstP where "probe ASSETS_CAPACITY (slot_for keyOfAsset (assets u2)
      (PossessionKey possessor mcP (of_nat dstO))) (assetHome possessor) = Some dstP"
    using ast.search_returns [of "assets u2" "PossessionKey possessor mcP (of_nat dstO)"] by auto
  with dstO show ?thesis
    by (simp add: moveShares_def Let_def ownership_slot_for possession_slot_for del: assets_setAsset flip: u2_def)
qed

lemma moveShares_steps:
  assumes ok: "universe_ok u"
    and res: "moveShares srcO srcP owner mcO possessor mcP n u = Inr (dstO, dstP, u')"
    and srcO: "srcO < ASSETS_CAPACITY" "assetType (assets u srcO) = 2"
    and srcP: "srcP < ASSETS_CAPACITY" "assetType (assets u srcP) = 3" "assetIndex (assets u srcP) = of_nat srcO"
  obtains as1 as2 as3 where
    "share_step 2 (assetIndex (assets u srcO)) (ownershipKeyAt u srcO) srcO (- n) (assets u) as1"
    "share_step 2 (assetIndex (assets u srcO)) (OwnershipKey owner mcO (assetIndex (assets u srcO))) dstO n as1 as2"
    "share_step 3 (of_nat srcO) (possessionKeyAt u srcP) srcP (- n) as2 as3"
    "share_step 3 (of_nat dstO) (PossessionKey possessor mcP (of_nat dstO)) dstP n as3 (assets u')"
proof -
  let ?as = "assets u" and ?kO = "ownershipKeyAt u srcO" and ?kP = "possessionKeyAt u srcP"
    and ?iss = "assetIndex (assets u srcO)"
  let ?KO = "OwnershipKey owner mcO ?iss" and ?KP = "PossessionKey possessor mcP (of_nat dstO)"
  define as1 where "as1 = ?as(srcO := (?as srcO)\<lparr>numberOfShares := numberOfShares (?as srcO) + - n\<rparr>)"
  define as2 where "as2 = as1(dstO := creditRecord 2 owner mcO ?iss n (as1 dstO))"
  define as3 where "as3 = as2(srcP := (as2 srcP)\<lparr>numberOfShares := numberOfShares (as2 srcP) + - n\<rparr>)"
  note res = moveShares_Inr [OF res, folded as1_def, folded as2_def, folded as3_def]
  have linked: "assets_linked ?as" using ok by (simp add: universe_ok_def)
  have src: "keyOfAsset (?as srcO) = Some ?kO" "keyOfAsset (?as srcP) = Some ?kP"
    using srcO srcP by (simp_all add: ownershipKeyAt_def possessionKeyAt_def)
  have iss: "unat ?iss < ASSETS_CAPACITY" "assetType (?as (unat ?iss)) = 2 - 1"
    using linkedD(3,4) [OF linked srcO(1)] srcO(2) by simp_all
  have "probe ASSETS_CAPACITY (slot_for keyOfAsset ?as ?KO) (homeOfKey ?KO) = Some dstO" using res(1) by simp
  note s12 = half_move [OF linked this srcO(1) src(1) srcO(2) _ _ iss as1_def, of owner mcO, folded as2_def, simplified]
  have srcP2: "keyOfAsset (as2 srcP) = Some ?kP"
    by (rule share_step_keys [OF s12(2)]) (rule share_step_keys [OF s12(1) src(2)])
  then have fields2: "assetType (as2 srcP) = 3" "assetIndex (as2 srcP) = of_nat srcO"
    using srcP by (simp_all add: possessionKeyAt_def)
  have dO: "unat (of_nat dstO :: u32) < ASSETS_CAPACITY" "assetType (as2 (unat (of_nat dstO :: u32))) = 3 - 1"
    using share_step_slot [OF s12(2)] share_step_key [OF s12(2)] by simp_all
  have "probe ASSETS_CAPACITY (slot_for keyOfAsset as2 ?KP) (homeOfKey ?KP) = Some dstP" using res(2) by simp
  note s34 = half_move [OF share_step_linked [OF s12(2)] this srcP(1) srcP2 fields2(1) _ _ dO as3_def,
      of possessor mcP, simplified fields2, simplified]
  show thesis by (rule that [OF s12 s34(1)]) (use s34(2) res(3) in simp)
qed

lemma moveShares_spec:
  assumes ok: "universe_ok u"
    and res: "moveShares srcO srcP owner mcO possessor mcP n u = Inr (dstO, dstP, u')"
    and srcO: "srcO < ASSETS_CAPACITY" "assetType (assets u srcO) = 2"
    and srcP: "srcP < ASSETS_CAPACITY" "assetType (assets u srcP) = 3" "assetIndex (assets u srcP) = of_nat srcO"
  shows "universe_ok u'"
    and "sharesUnder 2 k (assets u') = sharesUnder 2 k (assets u)"
    and "sharesOf (assets u') = movedShares [ownershipKeyAt u srcO, possessionKeyAt u srcP]
       [OwnershipKey owner mcO (assetIndex (assets u srcO)), PossessionKey possessor mcP (of_nat dstO)] n
       (sharesOf (assets u))"
    and "dstO < ASSETS_CAPACITY" and "dstP < ASSETS_CAPACITY"
    and "keyOfAsset (assets u' dstO) = Some (OwnershipKey owner mcO (assetIndex (assets u srcO)))"
    and "keyOfAsset (assets u' dstP) = Some (PossessionKey possessor mcP (of_nat dstO))"
proof -
  obtain as1 as2 as3 where
    steps: "share_step 2 (assetIndex (assets u srcO)) (ownershipKeyAt u srcO) srcO (- n) (assets u) as1"
    "share_step 2 (assetIndex (assets u srcO)) (OwnershipKey owner mcO (assetIndex (assets u srcO))) dstO n as1 as2"
    "share_step 3 (of_nat srcO) (possessionKeyAt u srcP) srcP (- n) as2 as3"
    "share_step 3 (of_nat dstO) (PossessionKey possessor mcP (of_nat dstO)) dstP n as3 (assets u')"
    by (rule moveShares_steps [OF assms])
  note owed = steps [THEN share_step_owed] and under = steps [THEN share_step_under]
    and of = steps [THEN share_step_sharesOf] and keys = steps [THEN share_step_keys]
    and slots = steps [THEN share_step_slot]
  have "owed (assets u') i = 0" if "i < ASSETS_CAPACITY" for i
    using universe_ok_owed [OF ok that] owed slots that by (auto simp: of_nat_slot_inj)
  then show "universe_ok u'"
    using share_step_linked [OF steps(4)] balanced_iff_owed by (auto simp: universe_ok_def)
  show "sharesUnder 2 k (assets u') = sharesUnder 2 k (assets u)"
    using under by simp
  show "sharesOf (assets u') = movedShares [ownershipKeyAt u srcO, possessionKeyAt u srcP]
       [OwnershipKey owner mcO (assetIndex (assets u srcO)), PossessionKey possessor mcP (of_nat dstO)] n
       (sharesOf (assets u))"
    using of by (auto simp: movedShares_def ownershipKeyAt_def possessionKeyAt_def)
  show "keyOfAsset (assets u' dstO) = Some (OwnershipKey owner mcO (assetIndex (assets u srcO)))"
    using share_step_key [OF steps(2)] keys(3,4) by blast
  show "dstO < ASSETS_CAPACITY" "dstP < ASSETS_CAPACITY"
    "keyOfAsset (assets u' dstP) = Some (PossessionKey possessor mcP (of_nat dstO))"
    using slots share_step_key [OF steps(4)] by simp_all
qed

end
