(* ===== verification/AssetOps.thy ===== *)
theory AssetOps
  imports AssetsInv
begin

text \<open>
  What the asset operations of \<open>Asset.h\<close> promise, on a well-formed universe: transfers, changes of
  management rights and burns keep the invariant and account for every share, issuing an asset adds
  exactly three records, and the find functions read the record of the key they are asked for.
\<close>

section \<open>Transfers\<close>

text \<open>The conditions that both transfers check on the source records.\<close>

definition sourceOk :: "nat \<Rightarrow> nat \<Rightarrow> i64 \<Rightarrow> universe \<Rightarrow> bool" where
  "sourceOk srcO srcP n u \<longleftrightarrow> 0 < sint n \<and>
     assetType (assets u srcO) = 2 \<and> sint n \<le> sint (numberOfShares (assets u srcO)) \<and>
     assetType (assets u srcP) = 3 \<and> sint n \<le> sint (numberOfShares (assets u srcP)) \<and>
     assetIndex (assets u srcP) = of_nat srcO"

lemma sourceCheck_in_table:
  assumes "srcO < ASSETS_CAPACITY" and "srcP < ASSETS_CAPACITY"
  shows "sourceCheck (int srcO) (int srcP) n u = Inr (sourceOk srcO srcP n u)"
  using assms by (auto simp: sourceCheck_def sourceOk_def inTable_def)

text \<open>Burning: the two source records lose the shares.\<close>

definition burnShares :: "nat \<Rightarrow> nat \<Rightarrow> i64 \<Rightarrow> universe \<Rightarrow> universe" where
  "burnShares srcO srcP n u = markChanged srcP (markChanged srcO (addShares srcP (- n) (addShares srcO (- n) u)))"

lemma burnShares_spec:
  assumes ok: "universe_ok u" and src: "srcO < ASSETS_CAPACITY" "srcP < ASSETS_CAPACITY" "sourceOk srcO srcP n u"
  shows "universe_ok (burnShares srcO srcP n u)" (is "universe_ok ?u")
    and "sharesUnder 2 k (assets (burnShares srcO srcP n u)) =
      sharesUnder 2 k (assets u) - (if k = assetIndex (assets u srcO) then n else 0)"
    and "sharesOf (assets (burnShares srcO srcP n u)) =
      movedShares [ownershipKeyAt u srcO, possessionKeyAt u srcP] [] n (sharesOf (assets u))"
proof -
  define as1 where "as1 = assets (addShares srcO (- n) u)"
  have linked: "assets_linked (assets u)" using ok by (simp add: universe_ok_def)
  have s1: "share_step 2 (assetIndex (assets u srcO)) (ownershipKeyAt u srcO) srcO (- n) (assets u) as1"
    unfolding as1_def assets_addShares using src(3)
    by (intro debit_step [OF linked src(1)]) (simp_all add: sourceOk_def ownershipKeyAt_def)
  have srcP: "keyOfAsset (as1 srcP) = Some (possessionKeyAt u srcP)"
    using src(3) by (intro share_step_keys [OF s1]) (simp add: sourceOk_def possessionKeyAt_def)
  have "assets ?u = as1(srcP := (as1 srcP)\<lparr>numberOfShares := numberOfShares (as1 srcP) + - n\<rparr>)"
    by (simp add: burnShares_def assets_addShares as1_def)
  moreover have "assetType (as1 srcP) = 3" "assetIndex (as1 srcP) = of_nat srcO"
    using srcP src(3) by (simp_all add: possessionKeyAt_def sourceOk_def)
  ultimately have s2: "share_step 3 (of_nat srcO) (possessionKeyAt u srcP) srcP (- n) as1 (assets ?u)"
    using debit_step [OF share_step_linked [OF s1] src(2) srcP, of 3 "- n"] by simp
  have "owed (assets ?u) i = 0" if "i < ASSETS_CAPACITY" for i
    using universe_ok_owed [OF ok that] share_step_owed [OF s1] share_step_owed [OF s2] src that
    by (auto simp: of_nat_slot_inj)
  then show "universe_ok ?u"
    using share_step_linked [OF s2] balanced_iff_owed by (auto simp: universe_ok_def)
  show "sharesUnder 2 k (assets ?u) = sharesUnder 2 k (assets u) - (if k = assetIndex (assets u srcO) then n else 0)"
    using share_step_under [OF s1] share_step_under [OF s2] by simp
  show "sharesOf (assets ?u) =
      movedShares [ownershipKeyAt u srcO, possessionKeyAt u srcP] [] n (sharesOf (assets u))"
    using share_step_sharesOf [OF s1] share_step_sharesOf [OF s2]
    by (auto simp: movedShares_def ownershipKeyAt_def possessionKeyAt_def)
qed

text \<open>The two transfers, on source indices inside the table.\<close>

lemma transfer_eq:
  assumes "universe_ok u" and "srcO < ASSETS_CAPACITY" and "srcP < ASSETS_CAPACITY"
  shows "transferShareOwnershipAndPossession (int srcO) (int srcP) dst n u =
    (if \<not> sourceOk srcO srcP n u then Inr (False, u)
     else if dst = 0 then
       (if assetPublicKey (assets u (unat (assetIndex (assets u srcO)))) = 0 then Inr (False, u)
        else Inr (True, burnShares srcO srcP n u))
     else bind_result (moveShares srcO srcP dst (managingContractIndex (assets u srcO))
            dst (managingContractIndex (assets u srcP)) n u) (\<lambda>(dstO, dstP, u'). Inr (True, u')))"
proof -
  have "unat (assetIndex (assets u srcO)) < ASSETS_CAPACITY" if "sourceOk srcO srcP n u"
    using linkedD(3) [of "assets u" srcO] assms that by (simp add: universe_ok_def sourceOk_def)
  then show ?thesis
    unfolding transferShareOwnershipAndPossession_def sourceCheck_in_table [OF assms(2,3)]
    by (auto simp: burnShares_def)
qed

lemma managementRights_eq:
  assumes "srcO < ASSETS_CAPACITY" and "srcP < ASSETS_CAPACITY"
  shows "transferShareManagementRights (int srcO) (int srcP) mcO mcP n u =
    (if \<not> sourceOk srcO srcP n u then Inr (False, None, u)
     else bind_result (moveShares srcO srcP (assetPublicKey (assets u srcO)) mcO
            (assetPublicKey (assets u srcP)) mcP n u) (\<lambda>(dstO, dstP, u'). Inr (True, Some (dstO, dstP), u')))"
  unfolding transferShareManagementRights_def sourceCheck_in_table [OF assms] by simp

section \<open>Issuing\<close>

text \<open>The record that \<open>issueAsset\<close> writes into the empty issuance slot.\<close>

definition issuanceRecord :: "m256 \<Rightarrow> u64 \<Rightarrow> u8 \<Rightarrow> u64 \<Rightarrow> AssetRecord" where
  "issuanceRecord issuer nm decimals unit =
     (setIssuanceName nm (zeroAsset\<lparr>assetPublicKey := issuer, assetType := 1\<rparr>))
       \<lparr>numberOfShares := ucast decimals OR push_bit 8 unit\<rparr>"

lemma issuanceRecord_key [simp]:
  "keyOfAsset (issuanceRecord issuer nm decimals unit) = Some (IssuanceKey issuer (nm AND nameMask))"
proof -
  have "assetType (setIssuanceName nm r) = assetType r" "assetPublicKey (setIssuanceName nm r) = assetPublicKey r" for r
    by (simp_all add: setIssuanceName_def)
  then show ?thesis by (simp add: issuanceRecord_def)
qed

lemma issuanceRecord_type [simp]: "assetType (issuanceRecord issuer nm decimals unit) = 1"
  by (simp add: issuanceRecord_def setIssuanceName_def)

lemma shareRecord_credit:
  "zeroAsset\<lparr>assetPublicKey := pk, assetType := ty, managingContractIndex := mc, assetIndex := idx, numberOfShares := n\<rparr>
     = creditRecord ty pk mc idx n zeroAsset"
  by (simp add: creditRecord_def zeroAsset_def)

text \<open>An issuance record in an empty slot changes no account.\<close>

lemma issue_slot:
  assumes linked: "assets_linked as" and r: "keyOfAsset r = Some (IssuanceKey pk nm)"
    and found: "probe ASSETS_CAPACITY (slot_for keyOfAsset as (IssuanceKey pk nm)) (assetHome pk) = Some i"
    and empty: "assetType (as i) = 0"
  shows "i < ASSETS_CAPACITY" and "as i = zeroAsset" and "assets_linked (as(i := r))"
    and "owed (as(i := r)) j = owed as j" and "sharesUnder 2 m (as(i := r)) = sharesUnder 2 m as"
proof -
  show i: "i < ASSETS_CAPACITY" using ast.cap_probe_less [OF found] by simp
  show z: "as i = zeroAsset" using linkedD(2) [OF linked i empty] .
  show "assets_linked (as(i := r))"
    using found r by (intro linked_store [OF linked r]) auto
  have under: "sharesUnder t m (as(i := r)) = sharesUnder t m as" if "t = 2 \<or> t = 3" for t m
    using that r z by (auto simp: sharesUnder_update [OF i] contribution_def zeroAsset_def)
  then show "sharesUnder 2 m (as(i := r)) = sharesUnder 2 m as" by simp
  show "owed (as(i := r)) j = owed as j"
    using under [of 3] r empty by (auto simp: owed_def)
qed

text \<open>Nothing points to an empty slot, so a key under it is absent.\<close>

lemma absent_under_empty:
  assumes linked: "assets_linked as" and i: "i < ASSETS_CAPACITY" "assetType (as i) = 0"
    and key: "keyOfAsset r \<noteq> None" "keyOfAsset r \<noteq> Some k"
    and k: "k = OwnershipKey pk mc (of_nat i) \<or> k = PossessionKey pk mc (of_nat i)"
  shows "table_map ASSETS_CAPACITY keyOfAsset (as(i := r)) k = None"
  unfolding table_map_None_iff
proof (intro allI impI)
  fix j assume j: "j < ASSETS_CAPACITY"
  show "keyOfAsset ((as(i := r)) j) \<noteq> Some k"
    using k key(2) linkedD(4,6) [OF linked j] i by auto
qed

text \<open>A share record in the next empty slot after the record it points to.\<close>

lemma next_slot_credit:
  assumes linked: "assets_linked as" "assets_linked (as(i := r))" and ty: "ty \<in> {2, 3}"
    and k: "k = (if ty = 2 then OwnershipKey pk mc (of_nat i) else PossessionKey pk mc (of_nat i))"
    and found: "probe ASSETS_CAPACITY stop (assetHome pk) = Some i" "\<And>j. assetType (as j) = 0 \<Longrightarrow> stop j"
    and i: "assetType (as i) = 0" "assetType r = ty - 1"
    and next_slot: "probe ASSETS_CAPACITY (\<lambda>l. assetType ((as(i := r)) l) = 0) (nextSlot i) = Some j"
  shows "(as(i := r)) j = zeroAsset"
    and "probe ASSETS_CAPACITY (slot_for keyOfAsset (as(i := r)) k) (assetHome pk) = Some j"
    and "share_step ty (of_nat i) k j n (as(i := r)) (as(i := r, j := creditRecord ty pk mc (of_nat i) n zeroAsset))"
proof -
  let ?as = "as(i := r)"
  have home: "homeOfKey k = assetHome pk" using k by simp
  have cap: "i < ASSETS_CAPACITY" using ast.cap_probe_less [OF found(1)] by simp
  have key: "keyOfAsset r \<noteq> None" "keyOfAsset r \<noteq> Some k" using i(2) ty k by auto
  have absent: "table_map ASSETS_CAPACITY keyOfAsset ?as k = None"
    using k by (intro absent_under_empty [OF linked(1) cap i(1) key, of pk mc]) auto
  have "probe ASSETS_CAPACITY (\<lambda>l. keyOfAsset (?as l) = None) (nextSlot i) =
      probe ASSETS_CAPACITY (slot_for keyOfAsset ?as k) (homeOfKey k)"
    unfolding nextSlot_def
  proof (rule ast.search_after [where stop = stop and t = ?as])
    show "stop j" if "keyOfAsset (?as j) = None" for j
      using that found(2) key(1) by (auto split: if_splits)
    show "probe ASSETS_CAPACITY stop (homeOfKey k) = Some i" using found(1) home by simp
  qed (use key(1) absent in simp_all)
  with next_slot have j: "probe ASSETS_CAPACITY (slot_for keyOfAsset ?as k) (homeOfKey k) = Some j" by simp
  then show "probe ASSETS_CAPACITY (slot_for keyOfAsset ?as k) (assetHome pk) = Some j" using home by simp
  show jz: "?as j = zeroAsset"
    using linkedD(2) [OF linked(2) ast.cap_probe_less [OF j ast.home_less]] probe_stops [OF next_slot] by blast
  show "share_step ty (of_nat i) k j n ?as (?as(j := creditRecord ty pk mc (of_nat i) n zeroAsset))"
    using credit_step [OF linked(2) ty k j, of n] cap i(2) jz by simp
qed

lemma nextSlot_less: "nextSlot i < ASSETS_CAPACITY"
proof -
  have "nextSlot i = (i + 1) mod ASSETS_CAPACITY"
    unfolding nextSlot_def ASSETS_CAPACITY_pow2 by (rule mask_step)
  then show ?thesis by (simp add: ASSETS_CAPACITY_def)
qed

text \<open>What a returning \<open>issueAsset\<close> has found and written.\<close>

lemma issueAsset_Inr:
  assumes res: "issueAsset issuer nm decimals unit shares mc u = Inr (ret, i, idx, u')" and ok: "universe_ok u"
  defines "r \<equiv> issuanceRecord issuer nm decimals unit"
  shows "probe ASSETS_CAPACITY (slot_for keyOfAsset (assets u) (IssuanceKey issuer (nm AND nameMask))) (assetHome issuer) = Some i"
    and "assetType (assets u i) \<noteq> 0 \<Longrightarrow> ret = 0 \<and> idx = None \<and> u' = u"
    and "assetType (assets u i) = 0 \<Longrightarrow> \<exists>j l. ret = shares \<and> idx = Some (j, l) \<and>
      probe ASSETS_CAPACITY (\<lambda>x. assetType (((assets u)(i := r)) x) = 0) (nextSlot i) = Some j \<and>
      (\<exists>o_rec. o_rec = (((assets u)(i := r)) j)\<lparr>assetPublicKey := issuer, assetType := 2, managingContractIndex := mc,
           assetIndex := of_nat i, numberOfShares := shares\<rparr> \<and>
         probe ASSETS_CAPACITY (\<lambda>x. assetType (((assets u)(i := r, j := o_rec)) x) = 0) (nextSlot j) = Some l \<and>
         assets u' = (assets u)(i := r, j := o_rec, l := (((assets u)(i := r, j := o_rec)) l)\<lparr>assetPublicKey := issuer,
           assetType := 3, managingContractIndex := mc, assetIndex := of_nat j, numberOfShares := shares\<rparr>))"
proof -
  have linked: "assets_linked (assets u)" using ok by (simp add: universe_ok_def)
  have probed: "probe ASSETS_CAPACITY (\<lambda>i. assetType (assets u i) = 0 \<or> matchesIssuance u issuer nm i) (assetHome issuer) = Some i"
    using res by (auto simp: issueAsset_def Let_def bind_result_Inr_iff split: if_splits)
  then show "probe ASSETS_CAPACITY (slot_for keyOfAsset (assets u) (IssuanceKey issuer (nm AND nameMask))) (assetHome issuer) = Some i"
    by (simp add: matchesIssuance_def flip: issuance_slot_for)
  then have cap: "i < ASSETS_CAPACITY" using ast.cap_probe_less by simp
  show "ret = 0 \<and> idx = None \<and> u' = u" if "assetType (assets u i) \<noteq> 0"
    using res that probed by (simp add: issueAsset_def)
  show "\<exists>j l. ret = shares \<and> idx = Some (j, l) \<and>
      probe ASSETS_CAPACITY (\<lambda>x. assetType (((assets u)(i := r)) x) = 0) (nextSlot i) = Some j \<and>
      (\<exists>o_rec. o_rec = (((assets u)(i := r)) j)\<lparr>assetPublicKey := issuer, assetType := 2, managingContractIndex := mc,
           assetIndex := of_nat i, numberOfShares := shares\<rparr> \<and>
         probe ASSETS_CAPACITY (\<lambda>x. assetType (((assets u)(i := r, j := o_rec)) x) = 0) (nextSlot j) = Some l \<and>
         assets u' = (assets u)(i := r, j := o_rec, l := (((assets u)(i := r, j := o_rec)) l)\<lparr>assetPublicKey := issuer,
           assetType := 3, managingContractIndex := mc, assetIndex := of_nat j, numberOfShares := shares\<rparr>))"
    if empty: "assetType (assets u i) = 0"
  proof -
    have "assets u i = zeroAsset" using linkedD(2) [OF linked cap empty] .
    with res empty probed show ?thesis
      unfolding r_def issuanceRecord_def
      by (auto simp: issueAsset_def Let_def bind_result_Inr_iff simp del: fun_upd_apply)
  qed
qed

text \<open>The whole effect of issuing: three new records, every other record unchanged.\<close>

definition issued :: "m256 \<Rightarrow> u64 \<Rightarrow> u8 \<Rightarrow> u64 \<Rightarrow> i64 \<Rightarrow> u16 \<Rightarrow> nat \<Rightarrow> nat \<Rightarrow> nat \<Rightarrow>
    (nat \<Rightarrow> AssetRecord) \<Rightarrow> nat \<Rightarrow> AssetRecord" where
  "issued issuer nm decimals unit shares mc i j l as =
     as(i := issuanceRecord issuer nm decimals unit,
        j := creditRecord 2 issuer mc (of_nat i) shares zeroAsset,
        l := creditRecord 3 issuer mc (of_nat j) shares zeroAsset)"

lemma issueAsset_new:
  assumes ok: "universe_ok u" and res: "issueAsset issuer nm decimals unit shares mc u = Inr (ret, i, idx, u')"
    and empty: "assetType (assets u i) = 0"
  obtains j l where "ret = shares" "idx = Some (j, l)" "universe_ok u'" "distinct [i, j, l]" "{i, j, l} \<subseteq> universeFree u"
    "assets u' = issued issuer nm decimals unit shares mc i j l (assets u)"
    "\<forall>m. sharesUnder 2 m (assets u') = sharesUnder 2 m (assets u) + (if m = of_nat i then shares else 0)"
proof -
  let ?r = "issuanceRecord issuer nm decimals unit"
  let ?as1 = "(assets u)(i := ?r)" and ?KO = "OwnershipKey issuer mc (of_nat i)"
    and ?o = "creditRecord 2 issuer mc (of_nat i) shares zeroAsset"
  have linked: "assets_linked (assets u)" using ok by (simp add: universe_ok_def)
  note i = issueAsset_Inr(1) [OF res ok]
  note slot = issue_slot [OF linked issuanceRecord_key [of issuer nm decimals unit] i empty]
  obtain j l o_rec where ret: "ret = shares" "idx = Some (j, l)"
    and pj: "probe ASSETS_CAPACITY (\<lambda>x. assetType (?as1 x) = 0) (nextSlot i) = Some j"
    and o_rec: "o_rec = (?as1 j)\<lparr>assetPublicKey := issuer, assetType := 2, managingContractIndex := mc,
           assetIndex := of_nat i, numberOfShares := shares\<rparr>"
    and pl: "probe ASSETS_CAPACITY (\<lambda>x. assetType ((?as1(j := o_rec)) x) = 0) (nextSlot j) = Some l"
    and u': "assets u' = ?as1(j := o_rec, l := ((?as1(j := o_rec)) l)\<lparr>assetPublicKey := issuer,
           assetType := 3, managingContractIndex := mc, assetIndex := of_nat j, numberOfShares := shares\<rparr>)"
    using issueAsset_Inr(3) [OF res ok empty] by blast
  have own: "slot_for keyOfAsset (assets u) (IssuanceKey issuer (nm AND nameMask)) x"
    if "assetType (assets u x) = 0" for x using that by (simp add: slot_for_def)
  note j = next_slot_credit [where ty = 2 and mc = mc, OF linked slot(3) _ refl i own empty _ pj, simplified]
  have "?as1 j = zeroAsset" using j(1) by simp
  then have o_eq: "o_rec = ?o" unfolding o_rec by (simp only: shareRecord_credit)
  let ?as2 = "?as1(j := ?o)"
  have j0: "assetType (?as1 j) = 0" using probe_stops [OF pj] .
  have poss: "slot_for keyOfAsset ?as1 ?KO x" if "assetType (?as1 x) = 0" for x
    using that by (simp add: slot_for_def)
  have o2: "assetType ?o = 3 - 1" by (simp add: creditRecord_def zeroAsset_def)
  note l = next_slot_credit [where ty = 3 and mc = mc,
      OF slot(3) share_step_linked [OF j(3)] _ refl j(2) poss j0 o2 pl [unfolded o_eq], simplified]
  have u'_eq: "assets u' = ?as2(l := creditRecord 3 issuer mc (of_nat j) shares zeroAsset)"
  proof -
    have "?as2 l = zeroAsset" using l(1) by simp
    then show ?thesis unfolding u' o_eq by (simp only: shareRecord_credit)
  qed
  note s2 = j(3) [of shares] and s3 = l(3) [of shares, folded u'_eq]
  have "owed (assets u') m = 0" if "m < ASSETS_CAPACITY" for m
    using universe_ok_owed [OF ok that] share_step_owed [OF s2] share_step_owed [OF s3] slot(4) that
      share_step_slot [OF s2] by (auto simp: of_nat_slot_inj)
  then have "universe_ok u'"
    using share_step_linked [OF s3] balanced_iff_owed by (auto simp: universe_ok_def)
  moreover have "\<forall>m. sharesUnder 2 m (assets u') = sharesUnder 2 m (assets u) + (if m = of_nat i then shares else 0)"
    using share_step_under [OF s2] share_step_under [OF s3] slot(5) by simp
  moreover have ij: "distinct [i, j, l]"
    using j0 probe_stops [OF pl] o2 by (auto simp: o_eq split: if_splits)
  moreover have "{i, j, l} \<subseteq> universeFree u"
    using ij empty j0 probe_stops [OF pl] slot(1) share_step_slot [OF s2] share_step_slot [OF s3]
    by (simp add: universeFree_def free_slots_def)
  ultimately show thesis using that [of j l] ret u'_eq by (simp add: issued_def)
qed

lemma issueAsset_returns:
  assumes "3 \<le> card (universeFree u)"
  shows "\<exists>r. issueAsset issuer nm decimals unit shares mc u = Inr r"
proof -
  let ?K = "IssuanceKey issuer (nm AND nameMask)"
  have more: "\<exists>j. probe ASSETS_CAPACITY (\<lambda>x. assetType (as' x) = 0) (nextSlot i) = Some j"
    if "universeFree u - {x, y} \<subseteq> free_slots ASSETS_CAPACITY keyOfAsset as'" for as' i x y
  proof -
    have "card {x, y} \<le> 2" by (simp add: card_insert_if)
    then have "universeFree u - {x, y} \<noteq> {}"
      using assms card_mono [of "{x, y}" "universeFree u"] by auto
    then obtain z where "z \<in> universeFree u - {x, y}" by blast
    then have "z < ASSETS_CAPACITY" "assetType (as' z) = 0"
      using that by (auto simp: free_slots_def)
    then show ?thesis
      using ast.cap_probe_returns [of "nextSlot i" z "\<lambda>x. assetType (as' x) = 0"] nextSlot_less by blast
  qed
  have "universeFree u \<noteq> {}" using assms by auto
  then obtain i where i: "probe ASSETS_CAPACITY (\<lambda>i. assetType (assets u i) = 0 \<or> matchesIssuance u issuer nm i)
      (assetHome issuer) = Some i"
  proof -
    have "free_slots ASSETS_CAPACITY keyOfAsset (assets u) \<noteq> {}"
      using \<open>universeFree u \<noteq> {}\<close> by (simp add: universeFree_def)
    then obtain i where "probe ASSETS_CAPACITY (slot_for keyOfAsset (assets u) ?K) (assetHome issuer) = Some i"
      using ast.search_returns [of "assets u" ?K] by auto
    then show thesis using that by (simp add: matchesIssuance_def flip: issuance_slot_for)
  qed
  have one: "\<exists>j. probe ASSETS_CAPACITY (\<lambda>x. assetType (assets (setAsset i X u) x) = 0) (nextSlot i) = Some j" for X
    by (rule more [of i i]) (auto simp: universeFree_def free_slots_def)
  have two: "\<exists>l. probe ASSETS_CAPACITY (\<lambda>x. assetType (assets (setAsset j Y (setAsset i X u)) x) = 0) (nextSlot j) = Some l"
    for j X Y
    by (rule more [of i j]) (auto simp: universeFree_def free_slots_def)
  show ?thesis
  proof (cases "assetType (assets u i) = 0")
    case True
    define X where "X = (setIssuanceName nm ((assets u i)\<lparr>assetPublicKey := issuer, assetType := 1\<rparr>))
        \<lparr>numberOfShares := ucast decimals OR push_bit 8 unit\<rparr>"
    obtain j where j: "probe ASSETS_CAPACITY (\<lambda>x. assetType (assets (setAsset i X u) x) = 0) (nextSlot i) = Some j"
      using one by blast
    define Y where "Y = (assets (setAsset i X u) j)\<lparr>assetPublicKey := issuer, assetType := 2,
        managingContractIndex := mc, assetIndex := of_nat i, numberOfShares := shares\<rparr>"
    obtain l where "probe ASSETS_CAPACITY (\<lambda>x. assetType (assets (setAsset j Y (setAsset i X u)) x) = 0) (nextSlot j) = Some l"
      using two by blast
    with i j True show ?thesis
      by (simp add: issueAsset_def Let_def del: assets_setAsset flip: X_def Y_def)
  next
    case False
    with i show ?thesis by (simp add: issueAsset_def)
  qed
qed

section \<open>Every returning operation keeps the invariant\<close>

lemma sourceCheck_True:
  assumes "sourceCheck srcO srcP n u = Inr True"
  shows "nat srcO < ASSETS_CAPACITY" and "nat srcP < ASSETS_CAPACITY" and "int (nat srcO) = srcO"
    and "int (nat srcP) = srcP" and "sourceOk (nat srcO) (nat srcP) n u"
  using assms by (auto simp: sourceCheck_def sourceOk_def inTable_def split: if_splits)

lemma transfer_keeps_ok:
  assumes ok: "universe_ok u" and res: "transferShareOwnershipAndPossession srcO srcP dst n u = Inr (b, u')"
  shows "universe_ok u'"
proof -
  obtain go where go: "sourceCheck srcO srcP n u = Inr go"
    using res by (auto simp: transferShareOwnershipAndPossession_def bind_result_Inr_iff)
  show ?thesis
  proof (cases go)
    case True
    with go have "sourceCheck srcO srcP n u = Inr True" by simp
    note src = sourceCheck_True [OF this]
    have fields: "assetType (assets u (nat srcO)) = 2" "assetType (assets u (nat srcP)) = 3"
      "assetIndex (assets u (nat srcP)) = of_nat (nat srcO)" using src(5) by (simp_all add: sourceOk_def)
    have "transferShareOwnershipAndPossession (int (nat srcO)) (int (nat srcP)) dst n u = Inr (b, u')"
      using res src(3,4) by simp
    then show ?thesis
      unfolding transfer_eq [OF ok src(1,2)]
      using ok src(5) burnShares_spec(1) [OF ok src(1,2,5)]
        moveShares_spec(1) [OF ok _ src(1) fields(1) src(2) fields(2,3)]
      by (auto simp: bind_result_Inr_iff split: if_splits)
  qed (use res ok go in \<open>simp add: transferShareOwnershipAndPossession_def\<close>)
qed

lemma managementRights_keeps_ok:
  assumes ok: "universe_ok u" and res: "transferShareManagementRights srcO srcP mcO mcP n u = Inr (b, dst, u')"
  shows "universe_ok u'"
proof -
  obtain go where go: "sourceCheck srcO srcP n u = Inr go"
    using res by (auto simp: transferShareManagementRights_def bind_result_Inr_iff)
  show ?thesis
  proof (cases go)
    case True
    with go have "sourceCheck srcO srcP n u = Inr True" by simp
    note src = sourceCheck_True [OF this]
    have fields: "assetType (assets u (nat srcO)) = 2" "assetType (assets u (nat srcP)) = 3"
      "assetIndex (assets u (nat srcP)) = of_nat (nat srcO)" using src(5) by (simp_all add: sourceOk_def)
    from res go True show ?thesis
      using moveShares_spec(1) [OF ok _ src(1) fields(1) src(2) fields(2,3)]
      by (auto simp: transferShareManagementRights_def bind_result_Inr_iff)
  qed (use res ok go in \<open>simp add: transferShareManagementRights_def\<close>)
qed

lemma issueAsset_keeps_ok:
  assumes ok: "universe_ok u" and res: "issueAsset issuer nm decimals unit shares mc u = Inr (ret, i, idx, u')"
  shows "universe_ok u'"
proof (cases "assetType (assets u i) = 0")
  case True
  show ?thesis by (rule issueAsset_new [OF ok res True])
next
  case False
  then show ?thesis using issueAsset_Inr(2) [OF res ok] ok by simp
qed

lemma transferByName_keeps_ok:
  assumes ok: "universe_ok u" and res: "transferSharesByName nm issuer owner possessor n managing newOwner u = Inr (ret, u')"
  shows "universe_ok u'"
  using res ok transfer_keeps_ok [OF ok]
  by (auto simp: transferSharesByName_def bind_result_Inr_iff split: if_splits)

section \<open>Finding records\<close>

text \<open>The reference of the find functions: a scan of the whole table for a key.\<close>

definition slotOf :: "(nat \<Rightarrow> AssetRecord) \<Rightarrow> assetKey \<Rightarrow> nat option" where
  "slotOf as k = find (\<lambda>i. keyOfAsset (as i) = Some k) [0..<ASSETS_CAPACITY]"

lemma slotOf_Some: "slotOf as k = Some i \<Longrightarrow> i < ASSETS_CAPACITY \<and> keyOfAsset (as i) = Some k"
  by (auto simp: slotOf_def find_Some_iff)

lemma slotOf_unique:
  assumes "assets_linked as" and "i < ASSETS_CAPACITY" and "keyOfAsset (as i) = Some k"
  shows "slotOf as k = Some i"
proof -
  have "slotOf as k \<noteq> None" using assms(2,3) by (auto simp: slotOf_def find_None_iff)
  then obtain j where "slotOf as k = Some j" by blast
  with slotOf_Some [OF this] assms linkedD(1) [OF assms(1)] show ?thesis unfolding table_ok_def by blast
qed

lemma slotOf_None: "table_map ASSETS_CAPACITY keyOfAsset as k = None \<Longrightarrow> slotOf as k = None"
  by (auto simp: slotOf_def find_None_iff table_map_None_iff)

definition indexOf :: "nat option \<Rightarrow> int" where
  "indexOf s = (case s of None \<Rightarrow> -1 | Some i \<Rightarrow> int i)"

lemma indexOf_simps [simp]: "indexOf None = -1" "indexOf (Some i) = int i"
  by (simp_all add: indexOf_def)

text \<open>Probing finds what the scan finds.\<close>

lemma probe_slotOf:
  assumes linked: "assets_linked as" and free: "free_slots ASSETS_CAPACITY keyOfAsset as \<noteq> {}"
  obtains i where "probe ASSETS_CAPACITY (slot_for keyOfAsset as k) (homeOfKey k) = Some i"
    "slotOf as k = (if assetType (as i) = 0 then None else Some i)"
proof -
  obtain i where i: "i < ASSETS_CAPACITY" "probe ASSETS_CAPACITY (slot_for keyOfAsset as k) (homeOfKey k) = Some i"
    using ast.search_returns free by blast
  have "slotOf as k = (if assetType (as i) = 0 then None else Some i)"
  proof (cases "assetType (as i) = 0")
    case True
    then show ?thesis using ast.search_absent [OF linkedD(1) [OF linked] i(2)] slotOf_None by simp
  next
    case False
    then have "keyOfAsset (as i) = Some k" using probe_stops [OF i(2)] by (simp add: slot_for_def)
    then show ?thesis using slotOf_unique [OF linked i(1)] False by simp
  qed
  with that i(2) show thesis by blast
qed

lemma findIssuerIndex_scan:
  assumes "universe_ok u" and "universeFree u \<noteq> {}"
  shows "findIssuerIndex issuer nm u = Inr (indexOf (slotOf (assets u) (IssuanceKey issuer nm)))"
  by (rule probe_slotOf [of "assets u" "IssuanceKey issuer nm"])
    (use assms in \<open>auto simp: findIssuerIndex_def issuance_slot_for universe_ok_def universeFree_def\<close>)

lemma findRecordIndex_scan:
  assumes "universe_ok u" and "universeFree u \<noteq> {}" and "ty = 2 \<or> ty = 3"
  shows "findRecordIndex ty (int i) pk (int (unat (mc :: u16))) u = Inr (indexOf (slotOf (assets u)
    (if ty = 2 then OwnershipKey pk mc (of_nat i) else PossessionKey pk mc (of_nat i))))"
proof -
  let ?k = "if ty = 2 then OwnershipKey pk mc (of_nat i) else PossessionKey pk mc (of_nat i)"
  have stop: "(\<lambda>j. assetType (assets u j) = 0 \<or> assetType (assets u j) = ty \<and>
      assetIndex (assets u j) = word_of_int (int i) \<and> assetPublicKey (assets u j) = pk \<and>
      int (unat (managingContractIndex (assets u j))) = int (unat mc)) = slot_for keyOfAsset (assets u) ?k"
    using assms(3) by (auto simp: fun_eq_iff slot_for_def word_uint_eq_iff [symmetric])
  have home: "assetHome pk = homeOfKey ?k" by simp
  obtain j where "probe ASSETS_CAPACITY (slot_for keyOfAsset (assets u) ?k) (homeOfKey ?k) = Some j"
    "slotOf (assets u) ?k = (if assetType (assets u j) = 0 then None else Some j)"
    using probe_slotOf [of "assets u" ?k] assms(1,2) unfolding universe_ok_def universeFree_def by metis
  then show ?thesis unfolding findRecordIndex_def stop home by simp
qed

section \<open>A small universe\<close>

text \<open>The empty universe, and the one with a single asset of 100 shares, for the worked examples.\<close>

definition emptyUniverse :: universe where
  "emptyUniverse = \<lparr>assets = (\<lambda>_. zeroAsset), assetChangeFlags = (\<lambda>_. 0)\<rparr>"

definition demoUniverse :: universe where
  "demoUniverse = \<lparr>assets = (\<lambda>_. zeroAsset)(5 := issuanceRecord 5 0x41 0 0,
     6 := creditRecord 2 5 1 5 100 zeroAsset, 7 := creditRecord 3 5 1 6 100 zeroAsset),
     assetChangeFlags = (\<lambda>_. 0)(0 := 0xE0)\<rparr>"

lemma emptyUniverse_ok: "universe_ok emptyUniverse"
  by (simp add: universe_ok_def emptyUniverse_def assets_linked_def assets_balanced_def table_ok_def
      zeroAsset_def keyOfAsset_def)

lemma emptyUniverse_free: "universeFree emptyUniverse = {..<ASSETS_CAPACITY}"
  by (auto simp: universeFree_def free_slots_def emptyUniverse_def zeroAsset_def)

lemma assetHome_5: "assetHome 5 = 5"
  by (simp add: assetHome_def m256i_u32_0_def ASSETS_CAPACITY_def)

lemma nextSlot_small: "nextSlot 5 = 6" "nextSlot 6 = 7"
  by (simp_all add: nextSlot_def ASSETS_CAPACITY_def)

lemma demo_issued: "issueAsset 5 0x41 0 0 100 1 emptyUniverse = Inr (100, 5, Some (6, 7), demoUniverse)"
  by (simp add: issueAsset_def probe.simps assetHome_5 nextSlot_small emptyUniverse_def demoUniverse_def
      zeroAsset_def setAsset_def markChanged_def issuanceRecord_def creditRecord_def setIssuanceName_def
      fun_upd_twist fun_eq_iff)

lemma demoUniverse_ok: "universe_ok demoUniverse" and demoUniverse_free: "{8, 9, 10} \<subseteq> universeFree demoUniverse"
proof -
  show "universe_ok demoUniverse"
    by (rule issueAsset_new [OF emptyUniverse_ok demo_issued]) (simp add: emptyUniverse_def zeroAsset_def)
  show "{8, 9, 10} \<subseteq> universeFree demoUniverse"
    by (simp add: universeFree_def free_slots_def demoUniverse_def zeroAsset_def ASSETS_CAPACITY_def)
qed

lemma card_universeFree: "A \<subseteq> universeFree u \<Longrightarrow> card A \<le> card (universeFree u)"
  by (simp add: universeFree_def card_mono)

lemma demoUniverse_free3: "3 \<le> card (universeFree demoUniverse)"
  using card_universeFree [OF demoUniverse_free] by simp

lemma demoUniverse_records:
  "assets demoUniverse 5 = issuanceRecord 5 0x41 0 0"
  "assets demoUniverse 6 = creditRecord 2 5 1 5 100 zeroAsset"
  "assets demoUniverse 7 = creditRecord 3 5 1 6 100 zeroAsset"
  by (simp_all add: demoUniverse_def)

lemma demoUniverse_slots:
  "slotOf (assets demoUniverse) (IssuanceKey 5 0x41) = Some 5"
  "slotOf (assets demoUniverse) (OwnershipKey 5 1 5) = Some 6"
  "slotOf (assets demoUniverse) (PossessionKey 5 1 6) = Some 7"
proof -
  have linked: "assets_linked (assets demoUniverse)" using demoUniverse_ok by (simp add: universe_ok_def)
  have "keyOfAsset (assets demoUniverse 5) = Some (IssuanceKey 5 0x41)"
    unfolding demoUniverse_records issuanceRecord_key by (simp add: nameMask_def)
  then show "slotOf (assets demoUniverse) (IssuanceKey 5 0x41) = Some 5"
    by (intro slotOf_unique [OF linked]) (simp_all add: ASSETS_CAPACITY_def)
  show "slotOf (assets demoUniverse) (OwnershipKey 5 1 5) = Some 6"
    by (intro slotOf_unique [OF linked]) (simp_all add: ASSETS_CAPACITY_def demoUniverse_records creditRecord_def zeroAsset_def)
  show "slotOf (assets demoUniverse) (PossessionKey 5 1 6) = Some 7"
    by (intro slotOf_unique [OF linked]) (simp_all add: ASSETS_CAPACITY_def demoUniverse_records creditRecord_def zeroAsset_def)
qed

lemma demoUniverse_source: "sourceOk 6 7 40 demoUniverse"
  by (simp add: sourceOk_def demoUniverse_records creditRecord_def zeroAsset_def)

section \<open>Properties\<close>

text \<open>
  Claim C3. \<open>transferShareOwnershipAndPossession\<close> to a non-zero destination, on a well-formed
  universe with two free slots: it returns, it succeeds exactly when the source records hold the
  shares, a refusal changes nothing, and a success keeps the universe well formed, conserves the
  shares of every issuance and moves exactly \<open>n\<close> shares from the source ownership and possession to
  those of the destination, which keep the managing contracts of the source.
\<close>

theorem transfer_conserves_shares:
  assumes "universe_ok u" and "2 \<le> card (universeFree u)"
    and "srcO < ASSETS_CAPACITY" and "srcP < ASSETS_CAPACITY" and "dst \<noteq> 0"
  shows "\<exists>u'. transferShareOwnershipAndPossession (int srcO) (int srcP) dst n u = Inr (sourceOk srcO srcP n u, u') \<and>
    universe_ok u' \<and> (\<forall>k. sharesUnder 2 k (assets u') = sharesUnder 2 k (assets u)) \<and>
    (if sourceOk srcO srcP n u
     then \<exists>dstO<ASSETS_CAPACITY. let
         toO = OwnershipKey dst (managingContractIndex (assets u srcO)) (assetIndex (assets u srcO));
         toP = PossessionKey dst (managingContractIndex (assets u srcP)) (of_nat dstO)
       in keyOfAsset (assets u' dstO) = Some toO \<and>
         sharesOf (assets u') = movedShares [ownershipKeyAt u srcO, possessionKeyAt u srcP] [toO, toP] n (sharesOf (assets u))
     else u' = u)"
proof (cases "sourceOk srcO srcP n u")
  case True
  then have src: "assetType (assets u srcO) = 2" "assetType (assets u srcP) = 3"
    "assetIndex (assets u srcP) = of_nat srcO" by (simp_all add: sourceOk_def)
  obtain dstO dstP u' where move: "moveShares srcO srcP dst (managingContractIndex (assets u srcO))
      dst (managingContractIndex (assets u srcP)) n u = Inr (dstO, dstP, u')"
    using moveShares_returns [OF assms(2)] by blast
  from moveShares_spec [OF assms(1) move assms(3) src(1) assms(4) src(2,3)] move True assms(5) show ?thesis
    by (auto simp: transfer_eq [OF assms(1,3,4)] Let_def)
qed (use assms(1) in \<open>simp add: transfer_eq [OF assms(1,3,4)]\<close>)

theorem transfer_conserves_shares_witness:
  "\<exists>u'. transferShareOwnershipAndPossession 6 7 9 40 demoUniverse = Inr (True, u') \<and> universe_ok u' \<and>
     sharesUnder 2 5 (assets u') = sharesUnder 2 5 (assets demoUniverse) \<and>
     (\<exists>dstO. sharesOf (assets u') (PossessionKey 9 1 (of_nat dstO)) =
        sharesOf (assets demoUniverse) (PossessionKey 9 1 (of_nat dstO)) + 40)"
proof -
  have "2 \<le> card (universeFree demoUniverse)" using demoUniverse_free3 by simp
  from transfer_conserves_shares [OF demoUniverse_ok this, of 6 7 9 40] show ?thesis
    by (auto simp: ASSETS_CAPACITY_def demoUniverse_source Let_def movedShares_def ownershipKeyAt_def
        possessionKeyAt_def demoUniverse_records creditRecord_def zeroAsset_def)
qed

text \<open>
  Claim C8. \<open>transferShareOwnershipAndPossession\<close> to the zero key burns: it needs no free slot, always
  returns, succeeds exactly when the source records hold the shares and the issuer is not the zero
  key (shares of contracts cannot be burnt), and then takes \<open>n\<close> shares from both source records and
  from the total of the issuance and nothing from any other; a refusal changes nothing.
\<close>

theorem burn_takes_exactly_the_shares:
  assumes "universe_ok u" and "srcO < ASSETS_CAPACITY" and "srcP < ASSETS_CAPACITY"
  shows "\<exists>ok u'. transferShareOwnershipAndPossession (int srcO) (int srcP) 0 n u = Inr (ok, u') \<and> universe_ok u' \<and>
    (ok \<longleftrightarrow> sourceOk srcO srcP n u \<and> assetPublicKey (assets u (unat (assetIndex (assets u srcO)))) \<noteq> 0) \<and>
    (if ok
     then sharesOf (assets u') = movedShares [ownershipKeyAt u srcO, possessionKeyAt u srcP] [] n (sharesOf (assets u)) \<and>
       (\<forall>k. sharesUnder 2 k (assets u') = sharesUnder 2 k (assets u) - (if k = assetIndex (assets u srcO) then n else 0))
     else u' = u)"
proof (cases "sourceOk srcO srcP n u")
  case True
  show ?thesis
    using burnShares_spec [OF assms True] assms(1) True by (simp add: transfer_eq [OF assms])
qed (use assms(1) in \<open>auto simp: transfer_eq [OF assms]\<close>)

theorem burn_takes_exactly_the_shares_witness:
  "\<exists>u'. transferShareOwnershipAndPossession 6 7 0 40 demoUniverse = Inr (True, u') \<and> universe_ok u' \<and>
     sharesUnder 2 5 (assets u') = sharesUnder 2 5 (assets demoUniverse) - 40"
  using burn_takes_exactly_the_shares [OF demoUniverse_ok, of 6 7 40]
  by (auto simp: ASSETS_CAPACITY_def demoUniverse_source demoUniverse_records creditRecord_def zeroAsset_def
      issuanceRecord_def setIssuanceName_def)

text \<open>
  Claim C9. \<open>transferShareManagementRights\<close>, on a well-formed universe with two free slots: it
  returns, succeeds exactly when the source records hold the shares, keeps the universe well formed
  and the shares of every issuance, and moves \<open>n\<close> shares between records of the same owner and the
  same possessor, to the records under the new managing contracts whose indices it reports.
\<close>

theorem managementRights_conserve_shares:
  assumes "universe_ok u" and "2 \<le> card (universeFree u)"
    and "srcO < ASSETS_CAPACITY" and "srcP < ASSETS_CAPACITY"
  shows "\<exists>dst u'. transferShareManagementRights (int srcO) (int srcP) mcO mcP n u = Inr (sourceOk srcO srcP n u, dst, u') \<and>
    universe_ok u' \<and> (\<forall>k. sharesUnder 2 k (assets u') = sharesUnder 2 k (assets u)) \<and>
    (case dst of
       None \<Rightarrow> \<not> sourceOk srcO srcP n u \<and> u' = u
     | Some (dstO, dstP) \<Rightarrow> let
         toO = OwnershipKey (assetPublicKey (assets u srcO)) mcO (assetIndex (assets u srcO));
         toP = PossessionKey (assetPublicKey (assets u srcP)) mcP (of_nat dstO)
       in keyOfAsset (assets u' dstO) = Some toO \<and> keyOfAsset (assets u' dstP) = Some toP \<and>
         sharesOf (assets u') = movedShares [ownershipKeyAt u srcO, possessionKeyAt u srcP] [toO, toP] n (sharesOf (assets u)))"
proof (cases "sourceOk srcO srcP n u")
  case True
  then have src: "assetType (assets u srcO) = 2" "assetType (assets u srcP) = 3"
    "assetIndex (assets u srcP) = of_nat srcO" by (simp_all add: sourceOk_def)
  obtain dstO dstP u' where move: "moveShares srcO srcP (assetPublicKey (assets u srcO)) mcO
      (assetPublicKey (assets u srcP)) mcP n u = Inr (dstO, dstP, u')"
    using moveShares_returns [OF assms(2)] by blast
  from moveShares_spec [OF assms(1) move assms(3) src(1) assms(4) src(2,3)] move True show ?thesis
    by (simp add: managementRights_eq [OF assms(3,4)] Let_def)
qed (use assms(1) in \<open>simp add: managementRights_eq [OF assms(3,4)]\<close>)

theorem managementRights_conserve_shares_witness:
  "\<exists>dst u'. transferShareManagementRights 6 7 2 2 40 demoUniverse = Inr (True, dst, u') \<and> universe_ok u' \<and>
     sharesUnder 2 5 (assets u') = sharesUnder 2 5 (assets demoUniverse)"
proof -
  have "2 \<le> card (universeFree demoUniverse)" using demoUniverse_free3 by simp
  from managementRights_conserve_shares [OF demoUniverse_ok this, of 6 7 2 2 40] show ?thesis
    by (auto simp: ASSETS_CAPACITY_def demoUniverse_source)
qed

text \<open>
  Claim C10. \<open>issueAsset\<close>, on a well-formed universe with three free slots, returns. When the issuer
  already has an asset of that name it returns 0 and changes nothing. Otherwise it returns the
  number of shares, writes exactly three records into free slots (the issuance, an ownership under
  it and a possession under that, both holding all the shares), changes no other record and keeps
  the universe well formed.
\<close>

theorem issueAsset_adds_three_records:
  assumes "universe_ok u" and "3 \<le> card (universeFree u)"
  shows "case slotOf (assets u) (IssuanceKey issuer (nm AND nameMask)) of
      Some i \<Rightarrow> issueAsset issuer nm decimals unit shares mc u = Inr (0, i, None, u)
    | None \<Rightarrow> \<exists>i j l u'. issueAsset issuer nm decimals unit shares mc u = Inr (shares, i, Some (j, l), u') \<and>
        universe_ok u' \<and> distinct [i, j, l] \<and> {i, j, l} \<subseteq> universeFree u \<and>
        assets u' = issued issuer nm decimals unit shares mc i j l (assets u) \<and>
        (\<forall>m. sharesUnder 2 m (assets u') = sharesUnder 2 m (assets u) + (if m = of_nat i then shares else 0))"
proof -
  let ?k = "IssuanceKey issuer (nm AND nameMask)"
  have free: "free_slots ASSETS_CAPACITY keyOfAsset (assets u) \<noteq> {}"
    using assms(2) by (auto simp: universeFree_def)
  have linked: "assets_linked (assets u)" using assms(1) by (simp add: universe_ok_def)
  obtain i where i: "probe ASSETS_CAPACITY (slot_for keyOfAsset (assets u) ?k) (homeOfKey ?k) = Some i"
    "slotOf (assets u) ?k = (if assetType (assets u i) = 0 then None else Some i)"
    using probe_slotOf [OF linked free, of ?k] by metis
  show ?thesis
  proof (cases "assetType (assets u i) = 0")
    case True
    obtain ret i' idx u' where res: "issueAsset issuer nm decimals unit shares mc u = Inr (ret, i', idx, u')"
      using issueAsset_returns [OF assms(2)] by (metis prod.collapse)
    have "i' = i" using issueAsset_Inr(1) [OF res assms(1)] i(1) by simp
    with True have empty: "assetType (assets u i') = 0" by simp
    obtain j l where "ret = shares" "idx = Some (j, l)" "universe_ok u'" "distinct [i', j, l]" "{i', j, l} \<subseteq> universeFree u"
      "assets u' = issued issuer nm decimals unit shares mc i' j l (assets u)"
      "\<forall>m. sharesUnder 2 m (assets u') = sharesUnder 2 m (assets u) + (if m = of_nat i' then shares else 0)"
      by (rule issueAsset_new [OF assms(1) res empty])
    with res i(2) True show ?thesis by simp
  next
    case False
    then have "issueAsset issuer nm decimals unit shares mc u = Inr (0, i, None, u)"
      using i(1) by (simp add: issueAsset_def matchesIssuance_def flip: issuance_slot_for)
    with False i(2) show ?thesis by simp
  qed
qed

theorem issueAsset_adds_three_records_witness:
  "issueAsset 5 0x41 0 0 100 1 demoUniverse = Inr (0, 5, None, demoUniverse) \<and>
   (\<exists>i j l u'. issueAsset 6 0x42 0 0 7 1 demoUniverse = Inr (7, i, Some (j, l), u') \<and> universe_ok u')"
proof
  have k: "slotOf (assets demoUniverse) (IssuanceKey 5 (0x41 AND nameMask)) = Some 5"
    using demoUniverse_slots(1) by (simp add: nameMask_def)
  from issueAsset_adds_three_records [OF demoUniverse_ok demoUniverse_free3, of 5 "0x41" 0 0 100 1]
  show "issueAsset 5 0x41 0 0 100 1 demoUniverse = Inr (0, 5, None, demoUniverse)" unfolding k by simp
  have "slotOf (assets demoUniverse) (IssuanceKey 6 (0x42 AND nameMask)) = None"
    by (auto simp: slotOf_def find_None_iff demoUniverse_def creditRecord_def zeroAsset_def issuanceRecord_def
        setIssuanceName_def split: if_splits)
  then show "\<exists>i j l u'. issueAsset 6 0x42 0 0 7 1 demoUniverse = Inr (7, i, Some (j, l), u') \<and> universe_ok u'"
    using issueAsset_adds_three_records [OF demoUniverse_ok demoUniverse_free3, of 6 "0x42" 0 0 7 1] by auto
qed

text \<open>
  Claim C22. \<open>getAssetBalances\<close>, on a well-formed universe with a free slot, returns what a scan of
  the whole table returns: the shares of the ownership record of the entity under the issuance and
  the contract, and of the possession record under that ownership, with \<open>-1\<close> for a missing record.
\<close>

theorem getAssetBalances_reads_holdings:
  assumes "universe_ok u" and "universeFree u \<noteq> {}"
  shows "getAssetBalances pk issuer nm (ucast (mc :: u16)) u = Inr
    (case slotOf (assets u) (IssuanceKey issuer nm) of None \<Rightarrow> (-1, -1)
     | Some i \<Rightarrow> (case slotOf (assets u) (OwnershipKey pk mc (of_nat i)) of None \<Rightarrow> (-1, -1)
       | Some j \<Rightarrow> (numberOfShares (assets u j),
           case slotOf (assets u) (PossessionKey pk mc (of_nat j)) of None \<Rightarrow> -1
           | Some l \<Rightarrow> numberOfShares (assets u l))))"
proof -
  have mc: "sint (ucast mc :: u32) = int (unat mc)"
  proof -
    have "signed_take_bit 31 (uint mc) = uint mc"
      using uint_lt2p [of mc] order_trans [OF _ uint_ge_0 [of mc]] by (intro signed_take_bit_int_eq_self) simp_all
    then show ?thesis by (simp add: sint_uint uint_up_ucast is_up)
  qed
  show ?thesis
    unfolding getAssetBalances_def findOwnershipIndex_def findPossessionIndex_def mc findIssuerIndex_scan [OF assms]
    using findRecordIndex_scan [OF assms, of 2] findRecordIndex_scan [OF assms, of 3]
    by (simp split: option.split del: int_nat_eq)
qed

theorem getAssetBalances_reads_holdings_witness:
  "getAssetBalances 5 5 0x41 1 demoUniverse = Inr (100, 100)"
proof -
  have "universeFree demoUniverse \<noteq> {}" using demoUniverse_free by auto
  from getAssetBalances_reads_holdings [OF demoUniverse_ok this, of 5 5 "0x41" 1]
    demoUniverse_slots show ?thesis by (simp add: demoUniverse_records creditRecord_def zeroAsset_def)
qed

end
