(* ===== verification/Keccak.thy ===== *)
theory Keccak
  imports BobPrelude
begin

text \<open>
  The Keccak-p[1600] permutation with 12 rounds as \<open>K12AndKeyUtil.h\<close> computes it: 25 local lanes,
  rounds that carry the column parities from one round to the next, and the last round written
  out. It is compared with the five step mappings of the Keccak specification on the 5 by 5 array
  of lanes, whose rotation offsets and round constants are generated by the specification's own
  procedures.
\<close>

section \<open>The permutation of the source\<close>

definition ROL64 :: "u64 \<Rightarrow> nat \<Rightarrow> u64" where
  "ROL64 a offset = push_bit offset a XOR drop_bit (64 - offset) a"

text \<open>The local variables \<open>Aba\<close> to \<open>Asu\<close>, and the parities \<open>Ca\<close> to \<open>Cu\<close>.\<close>

datatype lanes = Lanes u64 u64 u64 u64 u64 u64 u64 u64 u64 u64 u64 u64 u64 u64 u64 u64 u64 u64 u64 u64
  u64 u64 u64 u64 u64

datatype parity = Parity u64 u64 u64 u64 u64

definition thetaRhoPiChiIotaPrepareTheta :: "u64 \<Rightarrow> parity \<times> lanes \<Rightarrow> parity \<times> lanes" where
  "thetaRhoPiChiIotaPrepareTheta rc s = (case s of (Parity Ca Ce Ci Co Cu, Lanes
      Aba Abe Abi Abo Abu Aga Age Agi Ago Agu Aka Ake Aki Ako Aku Ama Ame Ami Amo Amu Asa Ase Asi Aso Asu) \<Rightarrow>
      let
      Da = Cu XOR ROL64 Ce 1; De = Ca XOR ROL64 Ci 1; Di = Ce XOR ROL64 Co 1; Do = Ci XOR ROL64 Cu 1;
      Du = Co XOR ROL64 Ca 1; Aba = Aba XOR Da; Bba = Aba; Age = Age XOR De; Bbe = ROL64 Age 44;
      Aki = Aki XOR Di; Bbi = ROL64 Aki 43; Amo = Amo XOR Do; Bbo = ROL64 Amo 21; Asu = Asu XOR Du;
      Bbu = ROL64 Asu 14; Eba = Bba XOR (NOT Bbe AND Bbi); Eba = Eba XOR rc; Ca = Eba;
      Ebe = Bbe XOR (NOT Bbi AND Bbo); Ce = Ebe; Ebi = Bbi XOR (NOT Bbo AND Bbu); Ci = Ebi;
      Ebo = Bbo XOR (NOT Bbu AND Bba); Co = Ebo; Ebu = Bbu XOR (NOT Bba AND Bbe); Cu = Ebu; Abo = Abo XOR Do;
      Bga = ROL64 Abo 28; Agu = Agu XOR Du; Bge = ROL64 Agu 20; Aka = Aka XOR Da; Bgi = ROL64 Aka 3;
      Ame = Ame XOR De; Bgo = ROL64 Ame 45; Asi = Asi XOR Di; Bgu = ROL64 Asi 61;
      Ega = Bga XOR (NOT Bge AND Bgi); Ca = Ca XOR Ega; Ege = Bge XOR (NOT Bgi AND Bgo); Ce = Ce XOR Ege;
      Egi = Bgi XOR (NOT Bgo AND Bgu); Ci = Ci XOR Egi; Ego = Bgo XOR (NOT Bgu AND Bga); Co = Co XOR Ego;
      Egu = Bgu XOR (NOT Bga AND Bge); Cu = Cu XOR Egu; Abe = Abe XOR De; Bka = ROL64 Abe 1; Agi = Agi XOR Di;
      Bke = ROL64 Agi 6; Ako = Ako XOR Do; Bki = ROL64 Ako 25; Amu = Amu XOR Du; Bko = ROL64 Amu 8;
      Asa = Asa XOR Da; Bku = ROL64 Asa 18; Eka = Bka XOR (NOT Bke AND Bki); Ca = Ca XOR Eka;
      Eke = Bke XOR (NOT Bki AND Bko); Ce = Ce XOR Eke; Eki = Bki XOR (NOT Bko AND Bku); Ci = Ci XOR Eki;
      Eko = Bko XOR (NOT Bku AND Bka); Co = Co XOR Eko; Eku = Bku XOR (NOT Bka AND Bke); Cu = Cu XOR Eku;
      Abu = Abu XOR Du; Bma = ROL64 Abu 27; Aga = Aga XOR Da; Bme = ROL64 Aga 36; Ake = Ake XOR De;
      Bmi = ROL64 Ake 10; Ami = Ami XOR Di; Bmo = ROL64 Ami 15; Aso = Aso XOR Do; Bmu = ROL64 Aso 56;
      Ema = Bma XOR (NOT Bme AND Bmi); Ca = Ca XOR Ema; Eme = Bme XOR (NOT Bmi AND Bmo); Ce = Ce XOR Eme;
      Emi = Bmi XOR (NOT Bmo AND Bmu); Ci = Ci XOR Emi; Emo = Bmo XOR (NOT Bmu AND Bma); Co = Co XOR Emo;
      Emu = Bmu XOR (NOT Bma AND Bme); Cu = Cu XOR Emu; Abi = Abi XOR Di; Bsa = ROL64 Abi 62; Ago = Ago XOR Do;
      Bse = ROL64 Ago 55; Aku = Aku XOR Du; Bsi = ROL64 Aku 39; Ama = Ama XOR Da; Bso = ROL64 Ama 41;
      Ase = Ase XOR De; Bsu = ROL64 Ase 2; Esa = Bsa XOR (NOT Bse AND Bsi); Ca = Ca XOR Esa;
      Ese = Bse XOR (NOT Bsi AND Bso); Ce = Ce XOR Ese; Esi = Bsi XOR (NOT Bso AND Bsu); Ci = Ci XOR Esi;
      Eso = Bso XOR (NOT Bsu AND Bsa); Co = Co XOR Eso; Esu = Bsu XOR (NOT Bsa AND Bse); Cu = Cu XOR Esu
      in (Parity Ca Ce Ci Co Cu, Lanes
        Eba Ebe Ebi Ebo Ebu Ega Ege Egi Ego Egu Eka Eke Eki Eko Eku Ema Eme Emi Emo Emu Esa Ese Esi Eso Esu))"

definition lastRound :: "u64 \<Rightarrow> parity \<times> lanes \<Rightarrow> lanes" where
  "lastRound rc s = (case s of (Parity Ca Ce Ci Co Cu, Lanes
      Eba Ebe Ebi Ebo Ebu Ega Ege Egi Ego Egu Eka Eke Eki Eko Eku Ema Eme Emi Emo Emu Esa Ese Esi Eso Esu) \<Rightarrow>
      let
      Da = Cu XOR ROL64 Ce 1; De = Ca XOR ROL64 Ci 1; Di = Ce XOR ROL64 Co 1; Do = Ci XOR ROL64 Cu 1;
      Du = Co XOR ROL64 Ca 1; Eba = Eba XOR Da; Bba = Eba; Ege = Ege XOR De; Bbe = ROL64 Ege 44;
      Eki = Eki XOR Di; Bbi = ROL64 Eki 43; Emo = Emo XOR Do; Bbo = ROL64 Emo 21; Esu = Esu XOR Du;
      Bbu = ROL64 Esu 14; Aba = Bba XOR (NOT Bbe AND Bbi); Aba = Aba XOR rc; Abe = Bbe XOR (NOT Bbi AND Bbo);
      Abi = Bbi XOR (NOT Bbo AND Bbu); Abo = Bbo XOR (NOT Bbu AND Bba); Abu = Bbu XOR (NOT Bba AND Bbe);
      Ebo = Ebo XOR Do; Bga = ROL64 Ebo 28; Egu = Egu XOR Du; Bge = ROL64 Egu 20; Eka = Eka XOR Da;
      Bgi = ROL64 Eka 3; Eme = Eme XOR De; Bgo = ROL64 Eme 45; Esi = Esi XOR Di; Bgu = ROL64 Esi 61;
      Aga = Bga XOR (NOT Bge AND Bgi); Age = Bge XOR (NOT Bgi AND Bgo); Agi = Bgi XOR (NOT Bgo AND Bgu);
      Ago = Bgo XOR (NOT Bgu AND Bga); Agu = Bgu XOR (NOT Bga AND Bge); Ebe = Ebe XOR De; Bka = ROL64 Ebe 1;
      Egi = Egi XOR Di; Bke = ROL64 Egi 6; Eko = Eko XOR Do; Bki = ROL64 Eko 25; Emu = Emu XOR Du;
      Bko = ROL64 Emu 8; Esa = Esa XOR Da; Bku = ROL64 Esa 18; Aka = Bka XOR (NOT Bke AND Bki);
      Ake = Bke XOR (NOT Bki AND Bko); Aki = Bki XOR (NOT Bko AND Bku); Ako = Bko XOR (NOT Bku AND Bka);
      Aku = Bku XOR (NOT Bka AND Bke); Ebu = Ebu XOR Du; Bma = ROL64 Ebu 27; Ega = Ega XOR Da;
      Bme = ROL64 Ega 36; Eke = Eke XOR De; Bmi = ROL64 Eke 10; Emi = Emi XOR Di; Bmo = ROL64 Emi 15;
      Eso = Eso XOR Do; Bmu = ROL64 Eso 56; Ama = Bma XOR (NOT Bme AND Bmi); Ame = Bme XOR (NOT Bmi AND Bmo);
      Ami = Bmi XOR (NOT Bmo AND Bmu); Amo = Bmo XOR (NOT Bmu AND Bma); Amu = Bmu XOR (NOT Bma AND Bme);
      Ebi = Ebi XOR Di; Bsa = ROL64 Ebi 62; Ego = Ego XOR Do; Bse = ROL64 Ego 55; Eku = Eku XOR Du;
      Bsi = ROL64 Eku 39; Ema = Ema XOR Da; Bso = ROL64 Ema 41; Ese = Ese XOR De; Bsu = ROL64 Ese 2;
      Asa = Bsa XOR (NOT Bse AND Bsi); Ase = Bse XOR (NOT Bsi AND Bso); Asi = Bsi XOR (NOT Bso AND Bsu);
      Aso = Bso XOR (NOT Bsu AND Bsa); Asu = Bsu XOR (NOT Bsa AND Bse)
      in Lanes
        Aba Abe Abi Abo Abu Aga Age Agi Ago Agu Aka Ake Aki Ako Aku Ama Ame Ami Amo Amu Asa Ase Asi Aso Asu)"

text \<open>\<open>KeccakF1600RoundConstant0\<close> to \<open>10\<close>; the last round has its constant inline.\<close>

definition roundConstants :: "u64 list" where
  "roundConstants = [0x000000008000808b, 0x800000000000008b, 0x8000000000008089, 0x8000000000008003,
     0x8000000000008002, 0x8000000000000080, 0x000000000000800a, 0x800000008000000a, 0x8000000080008081,
     0x8000000000008080, 0x0000000080000001]"

primrec columnParity :: "lanes \<Rightarrow> parity" where
  "columnParity (Lanes
      Aba Abe Abi Abo Abu Aga Age Agi Ago Agu Aka Ake Aki Ako Aku Ama Ame Ami Amo Amu Asa Ase Asi Aso Asu) =
     Parity (Aba XOR Aga XOR Aka XOR Ama XOR Asa) (Abe XOR Age XOR Ake XOR Ame XOR Ase)
       (Abi XOR Agi XOR Aki XOR Ami XOR Asi) (Abo XOR Ago XOR Ako XOR Amo XOR Aso)
       (Abu XOR Agu XOR Aku XOR Amu XOR Asu)"

definition rounds12 :: "lanes \<Rightarrow> lanes" where
  "rounds12 A = lastRound 0x8000000080008008
     (fold thetaRhoPiChiIotaPrepareTheta roundConstants (columnParity A, A))"

primrec lanesList :: "lanes \<Rightarrow> u64 list" where
  "lanesList (Lanes
      Aba Abe Abi Abo Abu Aga Age Agi Ago Agu Aka Ake Aki Ako Aku Ama Ame Ami Amo Amu Asa Ase Asi Aso Asu) =
     [Aba, Abe, Abi, Abo, Abu, Aga, Age, Agi, Ago, Agu, Aka, Ake, Aki, Ako, Aku,
      Ama, Ame, Ami, Amo, Amu, Asa, Ase, Asi, Aso, Asu]"

definition lanesOf :: "(nat \<Rightarrow> u64) \<Rightarrow> lanes" where
  "lanesOf f = Lanes
     (f 0) (f 1) (f 2) (f 3) (f 4) (f 5) (f 6) (f 7) (f 8) (f 9) (f 10) (f 11) (f 12)
     (f 13) (f 14) (f 15) (f 16) (f 17) (f 18) (f 19) (f 20) (f 21) (f 22) (f 23) (f 24)"

text \<open>\<open>state\<close> is 200 bytes, read and written as 25 little-endian lanes.\<close>

definition copyFromState :: "u8 list \<Rightarrow> lanes" where
  "copyFromState state = lanesOf (\<lambda>i. load_le (bytes_at state (8 * i) 8))"

definition copyToState :: "lanes \<Rightarrow> u8 list" where
  "copyToState A = concat (map store_le (lanesList A))"

definition KeccakP1600_Permute_12rounds :: "u8 list \<Rightarrow> u8 list" where
  "KeccakP1600_Permute_12rounds state = copyToState (rounds12 (copyFromState state))"

section \<open>The specification\<close>

type_synonym keccakArray = "nat \<Rightarrow> nat \<Rightarrow> u64"

definition columnSum :: "keccakArray \<Rightarrow> nat \<Rightarrow> u64" where
  "columnSum A x = A x 0 XOR A x 1 XOR A x 2 XOR A x 3 XOR A x 4"

definition theta :: "keccakArray \<Rightarrow> keccakArray" where
  "theta A = (\<lambda>x y. A x y XOR (columnSum A ((x + 4) mod 5) XOR word_rotl 1 (columnSum A ((x + 1) mod 5))))"

text \<open>The rotation offsets: 24 steps along \<open>(x, y) \<mapsto> (y, 2x + 3y)\<close>, with triangular numbers.\<close>

fun rhoWalk :: "nat \<Rightarrow> nat \<times> nat" where
  "rhoWalk 0 = (1, 0)"
| "rhoWalk (Suc t) = (let (x, y) = rhoWalk t in (y, (2 * x + 3 * y) mod 5))"

definition rhoOffset :: "nat \<Rightarrow> nat \<Rightarrow> nat" where
  "rhoOffset x y = (case find (\<lambda>t. rhoWalk t = (x, y)) [0..<24] of
       None \<Rightarrow> 0 | Some t \<Rightarrow> ((t + 1) * (t + 2) div 2) mod 64)"

definition rho :: "keccakArray \<Rightarrow> keccakArray" where
  "rho A = (\<lambda>x y. word_rotl (rhoOffset x y) (A x y))"

definition piStep :: "keccakArray \<Rightarrow> keccakArray" where
  "piStep A = (\<lambda>x y. A ((x + 3 * y) mod 5) x)"

definition chi :: "keccakArray \<Rightarrow> keccakArray" where
  "chi A = (\<lambda>x y. A x y XOR (NOT (A ((x + 1) mod 5) y) AND A ((x + 2) mod 5) y))"

definition iota :: "u64 \<Rightarrow> keccakArray \<Rightarrow> keccakArray" where
  "iota rc A = (\<lambda>x y. if x = 0 \<and> y = 0 then A x y XOR rc else A x y)"

definition keccakRound :: "u64 \<Rightarrow> keccakArray \<Rightarrow> keccakArray" where
  "keccakRound rc A = iota rc (chi (piStep (rho (theta A))))"

text \<open>The round constants: the powers of \<open>x\<close> modulo \<open>x^8 + x^6 + x^5 + x^4 + 1\<close>.\<close>

fun lfsr :: "nat \<Rightarrow> nat" where
  "lfsr 0 = 1"
| "lfsr (Suc t) = (let r = 2 * lfsr t in if 256 \<le> r then r XOR 0x171 else r)"

definition roundConstant :: "nat \<Rightarrow> u64" where
  "roundConstant ir = fold (\<lambda>j w. if odd (lfsr (j + 7 * ir)) then w OR 2 ^ (2 ^ j - 1) else w) [0..<7] 0"

definition keccakP12 :: "keccakArray \<Rightarrow> keccakArray" where
  "keccakP12 A = fold (\<lambda>ir. keccakRound (roundConstant ir)) [12..<24] A"

definition lanesArray :: "lanes \<Rightarrow> keccakArray" where
  "lanesArray A = (\<lambda>x y. lanesList A ! (5 * y + x))"

section \<open>The source computes the specification\<close>

lemma bit_ROL64: "m < 64 \<Longrightarrow> bit (ROL64 a n) m \<longleftrightarrow> (if m < n then bit a (64 - n + m) else bit a (m - n) \<noteq> bit a (64 - n + m))"
  by (auto simp: ROL64_def bit_simps)

lemma bit_rotl64:
  assumes "n < 64" and "m < 64"
  shows "bit (word_rotl n a :: u64) m \<longleftrightarrow> bit a ((m + (64 - n)) mod 64)"
  using assms by (simp add: bit_word_rotl_iff)

lemma ROL64_rotl [simp]:
  assumes "0 < n" and "n < 64"
  shows "ROL64 a n = word_rotl n a"
proof (rule bit_word_eqI)
  fix m assume "m < LENGTH(64)"
  then have m: "m < 64" by simp
  show "bit (ROL64 a n) m = bit (word_rotl n a) m"
  proof (cases "m < n")
    case True
    then have "(m + (64 - n)) mod 64 = 64 - n + m" using assms by (subst mod_less) linarith+
    with True show ?thesis unfolding bit_ROL64 [OF m] bit_rotl64 [OF assms(2) m] by simp
  next
    case False
    then have "m + (64 - n) = m - n + 64" using assms by linarith
    then have "(m + (64 - n)) mod 64 = (m - n + 64) mod 64" by (rule arg_cong)
    also have "\<dots> = m - n" using m by simp
    finally have rot: "(m + (64 - n)) mod 64 = m - n" .
    have "64 \<le> 64 - n + m" using False assms by linarith
    then have "\<not> bit a (64 - n + m)" using bit_imp_le_length [of a "64 - n + m"] by auto
    with False show ?thesis unfolding bit_ROL64 [OF m] bit_rotl64 [OF assms(2) m] rot by simp
  qed
qed

lemma rhoOffset_table:
  "map (\<lambda>y. map (\<lambda>x. rhoOffset x y) [0..<5]) [0..<5] =
     [[0, 1, 62, 28, 27], [36, 44, 6, 55, 20], [3, 10, 43, 25, 39], [41, 45, 15, 21, 8], [18, 2, 61, 56, 14]]"
  by code_simp

lemma lfsr_numeral: "lfsr (numeral k) = (let r = 2 * lfsr (pred_numeral k) in if 256 \<le> r then r XOR 0x171 else r)"
  by (simp only: numeral_eq_Suc lfsr.simps)

lemma lfsr_starts:
  "lfsr 84 = 213"
  "lfsr 91 = 205"
  "lfsr 98 = 99"
  "lfsr 105 = 171"
  "lfsr 112 = 170"
  "lfsr 119 = 42"
  "lfsr 126 = 242"
  "lfsr 133 = 232"
  "lfsr 140 = 55"
  "lfsr 147 = 62"
  "lfsr 154 = 11"
  "lfsr 161 = 68"
  by (simp_all add: lfsr_numeral)

lemma roundConstants_spec: "map roundConstant [12..<24] = roundConstants @ [0x8000000080008008]"
  by (simp add: roundConstant_def roundConstants_def upt_rec lfsr_numeral lfsr_starts)

lemma Suc_Suc_0: "Suc (Suc 0) = 2" "Suc (Suc (Suc 0)) = 3" "Suc (Suc (Suc (Suc 0))) = 4"
  by simp_all

lemma less5_cases: "(x::nat) < 5 \<longleftrightarrow> x = 0 \<or> x = 1 \<or> x = 2 \<or> x = 3 \<or> x = 4"
  by auto

lemma rhoOffset_values:
  "rhoOffset 0 0 = 0" "rhoOffset (Suc 0) 0 = 1" "rhoOffset 2 0 = 62" "rhoOffset 3 0 = 28" "rhoOffset 4 0 = 27"
  "rhoOffset 0 (Suc 0) = 36" "rhoOffset (Suc 0) (Suc 0) = 44" "rhoOffset 2 (Suc 0) = 6" "rhoOffset 3 (Suc 0) = 55"
  "rhoOffset 4 (Suc 0) = 20" "rhoOffset 0 2 = 3" "rhoOffset (Suc 0) 2 = 10" "rhoOffset 2 2 = 43" "rhoOffset 3 2 = 25"
  "rhoOffset 4 2 = 39" "rhoOffset 0 3 = 41" "rhoOffset (Suc 0) 3 = 45" "rhoOffset 2 3 = 15" "rhoOffset 3 3 = 21"
  "rhoOffset 4 3 = 8" "rhoOffset 0 4 = 18" "rhoOffset (Suc 0) 4 = 2" "rhoOffset 2 4 = 61" "rhoOffset 3 4 = 56"
  "rhoOffset 4 4 = 14"
  by code_simp+

lemmas keccak_steps = keccakRound_def iota_def chi_def piStep_def rho_def theta_def columnSum_def lanesArray_def


lemma word_rotl_0 [simp]: "word_rotl 0 (w :: u64) = w"
  by (rule bit_word_eqI) (simp add: bit_word_rotl_iff)

lemma round_spec:
  assumes "x < 5" and "y < 5"
  shows "lanesArray (snd (thetaRhoPiChiIotaPrepareTheta rc (columnParity A, A))) x y = keccakRound rc (lanesArray A) x y"
proof (cases A)
  case (Lanes Aba Abe Abi Abo Abu Aga Age Agi Ago Agu Aka Ake Aki Ako Aku Ama Ame Ami Amo Amu Asa Ase Asi Aso Asu)
  show ?thesis
    using assms unfolding less5_cases Lanes
      thetaRhoPiChiIotaPrepareTheta_def Let_def columnParity.simps prod.case lanes.case parity.case snd_conv
      keccak_steps lanesList.simps
    by (elim disjE; simp add: rhoOffset_values Suc_Suc_0)
qed

lemma round_parity:
  "fst (thetaRhoPiChiIotaPrepareTheta rc (columnParity A, A)) = columnParity (snd (thetaRhoPiChiIotaPrepareTheta rc (columnParity A, A)))"
  by (cases A) (simp only: thetaRhoPiChiIotaPrepareTheta_def Let_def prod.case lanes.case parity.case columnParity.simps fst_conv snd_conv xor.assoc)

lemma lastRound_spec: "lastRound rc (columnParity A, A) = snd (thetaRhoPiChiIotaPrepareTheta rc (columnParity A, A))"
  by (cases A) (simp only: thetaRhoPiChiIotaPrepareTheta_def lastRound_def Let_def prod.case lanes.case parity.case columnParity.simps snd_conv)

lemma keccakRound_cong:
  assumes "\<And>x y. x < 5 \<Longrightarrow> y < 5 \<Longrightarrow> A x y = B x y" and "x < 5" and "y < 5"
  shows "keccakRound rc A x y = keccakRound rc B x y"
proof -
  have sum: "columnSum A (z mod 5) = columnSum B (z mod 5)" for z
    using assms(1) by (simp add: columnSum_def)
  then have th: "theta A u v = theta B u v" if "u < 5" "v < 5" for u v
    using assms(1) [OF that] by (simp add: theta_def)
  have b: "piStep (rho (theta A)) u v = piStep (rho (theta B)) u v" if "u < 5" "v < 5" for u v
    using th [of "(u + 3 * v) mod 5" u] that by (simp add: piStep_def rho_def)
  have m: "(x + 1) mod 5 < 5" "(x + 2) mod 5 < 5" by simp_all
  show ?thesis
    unfolding keccakRound_def iota_def chi_def b [OF assms(2,3)] b [OF m(1) assms(3)] b [OF m(2) assms(3)] ..
qed

lemma rounds_spec:
  "\<exists>A'. fold thetaRhoPiChiIotaPrepareTheta rcs (columnParity A, A) = (columnParity A', A') \<and>
     (\<forall>B. (\<forall>x<5. \<forall>y<5. lanesArray A x y = B x y) \<longrightarrow>
        (\<forall>x<5. \<forall>y<5. lanesArray A' x y = fold keccakRound rcs B x y))"
proof (induction rcs arbitrary: A)
  case Nil
  then show ?case by auto
next
  case (Cons rc rcs)
  define A1 where "A1 = snd (thetaRhoPiChiIotaPrepareTheta rc (columnParity A, A))"
  have step: "thetaRhoPiChiIotaPrepareTheta rc (columnParity A, A) = (columnParity A1, A1)"
    unfolding A1_def using round_parity by (metis prod.collapse)
  obtain A' where A': "fold thetaRhoPiChiIotaPrepareTheta rcs (columnParity A1, A1) = (columnParity A', A')"
    and ih: "\<And>B. (\<forall>x<5. \<forall>y<5. lanesArray A1 x y = B x y) \<Longrightarrow>
        (\<forall>x<5. \<forall>y<5. lanesArray A' x y = fold keccakRound rcs B x y)"
    using Cons.IH [of A1] by blast
  have "\<forall>x<5. \<forall>y<5. lanesArray A' x y = fold keccakRound (rc # rcs) B x y"
    if "\<forall>x<5. \<forall>y<5. lanesArray A x y = B x y" for B
  proof -
    have "\<forall>x<5. \<forall>y<5. lanesArray A1 x y = keccakRound rc B x y"
    proof (intro allI impI)
      fix x y :: nat assume "x < 5" "y < 5"
      then show "lanesArray A1 x y = keccakRound rc B x y"
        unfolding A1_def round_spec [OF \<open>x < 5\<close> \<open>y < 5\<close>] using that by (intro keccakRound_cong) blast+
    qed
    from ih [OF this] show ?thesis by simp
  qed
  with A' step show ?case by auto
qed

lemma keccakP12_constants: "keccakP12 A = keccakRound 0x8000000080008008 (fold keccakRound roundConstants A)"
proof -
  have "keccakP12 A = fold keccakRound (map roundConstant [12..<24]) A"
    by (simp only: keccakP12_def fold_map comp_def)
  then show ?thesis unfolding roundConstants_spec by simp
qed

lemma lanesList_length [simp]: "length (lanesList A) = 25"
  by (cases A) simp

text \<open>
  Claim C13. \<open>rounds12\<close>, the unrolled permutation with its carried column parities, computes
  Keccak-p[1600] with 12 rounds: the lanes it returns are those of the last twelve rounds of the
  step mappings theta, rho, pi, chi and iota, with the offsets and constants of the specification.
\<close>

theorem rounds12_is_keccakP12:
  "lanesList (rounds12 A) = map (\<lambda>i. keccakP12 (lanesArray A) (i mod 5) (i div 5)) [0..<25]"
proof (rule nth_equalityI)
  fix i assume "i < length (lanesList (rounds12 A))"
  then have i: "i < 25" by simp
  then have xy: "i mod 5 < 5" "i div 5 < 5" by auto
  obtain A' where A': "fold thetaRhoPiChiIotaPrepareTheta roundConstants (columnParity A, A) = (columnParity A', A')"
    and eq: "\<And>B. (\<forall>x<5. \<forall>y<5. lanesArray A x y = B x y) \<Longrightarrow>
        (\<forall>x<5. \<forall>y<5. lanesArray A' x y = fold keccakRound roundConstants B x y)"
    using rounds_spec [of roundConstants A] by blast
  have "lanesArray (rounds12 A) (i mod 5) (i div 5) = keccakRound 0x8000000080008008 (lanesArray A') (i mod 5) (i div 5)"
    unfolding rounds12_def A' lastRound_spec using round_spec [OF xy] .
  also have "\<dots> = keccakP12 (lanesArray A) (i mod 5) (i div 5)"
    unfolding keccakP12_constants using eq [of "lanesArray A"] by (intro keccakRound_cong xy) simp
  finally show "lanesList (rounds12 A) ! i = map (\<lambda>i. keccakP12 (lanesArray A) (i mod 5) (i div 5)) [0..<25] ! i"
    using i by (simp add: lanesArray_def)
qed simp

end
