(* ===== verification/Kangaroo.thy ===== *)
theory Kangaroo
  imports Keccak
begin

text \<open>
  The hash function of \<open>K12AndKeyUtil.h\<close>: the sponge \<open>KangarooTwelve_F\<close> with its absorbing
  routine and the tree hash \<open>KangarooTwelve\<close>. Byte pointers are byte lists: \<open>data\<close> is the part of
  the input not yet consumed, so \<open>dataByteLen - i\<close> is its length. The 8-bit index of the sponge is
  a \<open>nat\<close> with the conversions to \<open>uint8_t\<close> written as \<open>mod 256\<close>.
\<close>

section \<open>Absorbing\<close>

definition K12_rateInBytes :: nat where
  "K12_rateInBytes = 168"

definition K12_capacityInBytes :: nat where
  "K12_capacityInBytes = 32"

definition K12_chunkSize :: nat where
  "K12_chunkSize = 8192"

definition K12_suffixLeaf :: u8 where
  "K12_suffixLeaf = 0x0B"

record KangarooTwelve_F =
  kstate :: "u8 list"
  byteIOIndex :: nat

definition zeroNode :: KangarooTwelve_F where
  "zeroNode = \<lparr>kstate = replicate 200 0, byteIOIndex = 0\<rparr>"

definition laneAt :: "u8 list \<Rightarrow> nat \<Rightarrow> u64" where
  "laneAt bs j = load_le (bytes_at bs (8 * j) 8)"

definition xorLane :: "nat \<Rightarrow> u64 \<Rightarrow> u8 list \<Rightarrow> u8 list" where
  "xorLane j w s = take (8 * j) s @ store_le (laneAt s j XOR w) @ drop (8 * j + 8) s"

definition xorByte :: "nat \<Rightarrow> u8 \<Rightarrow> u8 list \<Rightarrow> u8 list" where
  "xorByte i b s = s[i := s ! i XOR b]"

text \<open>Whole blocks, absorbed into the local lanes.\<close>

definition xorBlock :: "u8 list \<Rightarrow> lanes \<Rightarrow> lanes" where
  "xorBlock data A = lanesOf (\<lambda>i. if i < 21 then lanesList A ! i XOR laneAt data i else lanesList A ! i)"

function absorbBlocks :: "lanes \<Rightarrow> u8 list \<Rightarrow> lanes \<times> u8 list" where
  "absorbBlocks A data =
     (if K12_rateInBytes \<le> length data
      then absorbBlocks (rounds12 (xorBlock data A)) (drop K12_rateInBytes data)
      else (A, data))"
  by pat_completeness auto
termination by (relation "measure (\<lambda>(A, data). length data)") (auto simp: K12_rateInBytes_def)

declare absorbBlocks.simps [simp del]

text \<open>
  A partial block at index 0: the lanes in runs of eight, four and two, a last lane, and the bytes
  of an incomplete lane.
\<close>

function xorRun :: "nat \<Rightarrow> nat \<Rightarrow> u8 list \<Rightarrow> nat \<times> u8 list \<Rightarrow> nat \<times> u8 list" where
  "xorRun width n data (j, s) =
     (if 0 < width \<and> j + width \<le> n
      then xorRun width n data (j + width, fold (\<lambda>k. xorLane (j + k) (laneAt data (j + k))) [0..<width] s)
      else (j, s))"
  by pat_completeness auto
termination by (relation "measure (\<lambda>(width, n, data, j, s). n - j)") auto

declare xorRun.simps [simp del]

definition absorbAligned :: "nat \<Rightarrow> u8 list \<Rightarrow> u8 list \<Rightarrow> u8 list" where
  "absorbAligned partialBlock data s =
     (let n = partialBlock div 8;
          (j, s) = xorRun 2 n data (xorRun 4 n data (xorRun 8 n data (0, s)));
          s = (if j < n then xorLane j (laneAt data j) s else s)
      in if partialBlock mod 8 \<noteq> 0
         then xorLane n (load_le (bytes_at data (8 * n) (partialBlock mod 8))) s
         else s)"

text \<open>A partial block at another index, lane by lane.\<close>

function absorbUnaligned :: "nat \<Rightarrow> nat \<Rightarrow> nat \<Rightarrow> u8 list \<Rightarrow> u8 list \<Rightarrow> u8 list" where
  "absorbUnaligned sizeLeft lanePosition offsetInLane curData s =
     (if 0 < sizeLeft then
        let bytesInLane = (if sizeLeft < 8 - offsetInLane then sizeLeft else 8 - offsetInLane)
        in absorbUnaligned (sizeLeft - bytesInLane) (lanePosition + 1) 0 (drop bytesInLane curData)
             (if bytesInLane \<noteq> 0
              then xorLane lanePosition (push_bit (8 * offsetInLane) (load_le (take bytesInLane curData))) s
              else s)
      else s)"
  by pat_completeness auto
termination by (relation "measures [\<lambda>(n, l, d, c, s). n, \<lambda>(n, l, d, c, s). d]") auto

declare absorbUnaligned.simps [simp del]

lemma absorbBlocks_rest: "length (snd (absorbBlocks A data)) \<le> length data"
proof (induction A data rule: absorbBlocks.induct)
  case (1 A data)
  then show ?case
    by (subst absorbBlocks.simps) (simp, meson diff_le_self le_trans)
qed

lemma absorbBlocks_shorter:
  assumes "K12_rateInBytes \<le> length data"
  shows "length (snd (absorbBlocks A data)) < length data"
proof -
  have "length (snd (absorbBlocks (rounds12 (xorBlock data A)) (drop K12_rateInBytes data)))
      \<le> length (drop K12_rateInBytes data)" by (rule absorbBlocks_rest)
  also have "\<dots> < length data" using assms by (simp add: K12_rateInBytes_def)
  finally show ?thesis using assms by (subst absorbBlocks.simps) simp
qed

definition partialBlockLen :: "nat \<Rightarrow> nat \<Rightarrow> nat" where
  "partialBlockLen left index =
     (if K12_rateInBytes < left + index then (K12_rateInBytes + 256 - index) mod 256 else left mod 256)"

function KangarooTwelve_F_Absorb :: "KangarooTwelve_F \<Rightarrow> u8 list \<Rightarrow> KangarooTwelve_F" where
  "KangarooTwelve_F_Absorb inst data =
     (if data = [] then inst
      else if byteIOIndex inst = 0 \<and> K12_rateInBytes \<le> length data then
        let (A, rest) = absorbBlocks (copyFromState (kstate inst)) data
        in KangarooTwelve_F_Absorb (inst\<lparr>kstate := copyToState A\<rparr>) rest
      else
        let partialBlock = partialBlockLen (length data) (byteIOIndex inst);
            s = (if byteIOIndex inst = 0 then absorbAligned partialBlock data (kstate inst)
                 else absorbUnaligned partialBlock (byteIOIndex inst div 8) (byteIOIndex inst mod 8) data (kstate inst));
            index = (byteIOIndex inst + partialBlock) mod 256
        in KangarooTwelve_F_Absorb
             (if index = K12_rateInBytes then \<lparr>kstate = KeccakP1600_Permute_12rounds s, byteIOIndex = 0\<rparr>
              else \<lparr>kstate = s, byteIOIndex = index\<rparr>)
             (drop partialBlock data))"
  by pat_completeness auto
termination
proof (relation "measures [\<lambda>(inst, data). length data, \<lambda>(inst, data). byteIOIndex inst]", goal_cases)
  case (2 inst data x A rest)
  then show ?case
    using absorbBlocks_shorter [of data "copyFromState (kstate inst)"] by (metis in_measures(2) old.prod.case snd_conv)
next
  case (3 inst data partialBlock s index)
  show ?case
  proof (cases "partialBlock = 0")
    case True
    from 3 have left: "0 < length data" and p: "partialBlockLen (length data) (byteIOIndex inst) = 0"
      using True by simp_all
    have "byteIOIndex inst = 168 \<or> 424 \<le> byteIOIndex inst"
      using p left by (auto simp: partialBlockLen_def K12_rateInBytes_def mod_eq_0_iff_dvd split: if_splits) presburger
    then show ?thesis
      using 3 True by (auto simp: K12_rateInBytes_def)
  next
    case False
    then show ?thesis using 3 by simp
  qed
qed simp

declare KangarooTwelve_F_Absorb.simps [simp del]

section \<open>The tree hash\<close>

text \<open>
  The branch-free minimum of the source: \<open>-(a < b)\<close> is all ones or zero.
\<close>

definition maskOf :: "bool \<Rightarrow> u32" where
  "maskOf b = - (if b then 1 else 0)"

definition firstChunkLen :: "u32 \<Rightarrow> u32" where
  "firstChunkLen inputByteLen = inputByteLen XOR ((8192 XOR inputByteLen) AND maskOf (8192 < inputByteLen))"

definition leafChunkLen :: "u32 \<Rightarrow> u32" where
  "leafChunkLen inputByteLen = 8192 XOR ((inputByteLen XOR 8192) AND maskOf (inputByteLen < 8192))"

text \<open>\<open>state[index] ^= b; state[rate - 1] ^= 0x80\<close> and the permutation.\<close>

definition padAndPermute :: "u8 \<Rightarrow> KangarooTwelve_F \<Rightarrow> u8 list" where
  "padAndPermute b node =
     KeccakP1600_Permute_12rounds (xorByte (K12_rateInBytes - 1) 0x80 (xorByte (byteIOIndex node) b (kstate node)))"

definition absorbLeaf :: "KangarooTwelve_F \<Rightarrow> KangarooTwelve_F \<Rightarrow> KangarooTwelve_F" where
  "absorbLeaf finalNode queueNode =
     KangarooTwelve_F_Absorb finalNode (take K12_capacityInBytes (padAndPermute K12_suffixLeaf queueNode))"

text \<open>\<open>++byteIOIndex\<close> with the permutation of a full block.\<close>

definition stepIndex :: "KangarooTwelve_F \<Rightarrow> KangarooTwelve_F" where
  "stepIndex node =
     (if byteIOIndex node + 1 = K12_rateInBytes
      then \<lparr>kstate = KeccakP1600_Permute_12rounds (kstate node), byteIOIndex = 0\<rparr>
      else node\<lparr>byteIOIndex := byteIOIndex node + 1\<rparr>)"

text \<open>The byte \<open>0x03\<close> after the first chunk, then the index moves to the next lane.\<close>

definition firstChunkMark :: "KangarooTwelve_F \<Rightarrow> KangarooTwelve_F" where
  "firstChunkMark node =
     (let node = node\<lparr>kstate := xorByte (byteIOIndex node) 0x03 (kstate node)\<rparr>
      in if byteIOIndex node + 1 = K12_rateInBytes
         then \<lparr>kstate = KeccakP1600_Permute_12rounds (kstate node), byteIOIndex = 0\<rparr>
         else node\<lparr>byteIOIndex := (byteIOIndex node + 8) div 8 * 8\<rparr>)"

text \<open>
  The loop over the chunks after the first one: the final node, the last leaf, the number of
  blocks and the length of an incomplete last chunk.
\<close>

function leafLoop ::
  "u32 \<Rightarrow> u8 list \<Rightarrow> KangarooTwelve_F \<times> KangarooTwelve_F \<times> u32 \<times> u32 \<Rightarrow>
   KangarooTwelve_F \<times> KangarooTwelve_F \<times> u32 \<times> u32" where
  "leafLoop inputByteLen input (finalNode, queueNode, blockNumber, queueAbsorbedLen) =
     (if 0 < inputByteLen then
        let len = leafChunkLen inputByteLen;
            queueNode = KangarooTwelve_F_Absorb zeroNode (take (unat len) input)
        in leafLoop (inputByteLen - len) (drop (unat len) input)
             (if len = 8192
              then (absorbLeaf finalNode queueNode,
                    \<lparr>kstate = padAndPermute K12_suffixLeaf queueNode, byteIOIndex = K12_capacityInBytes\<rparr>,
                    blockNumber + 1, queueAbsorbedLen)
              else (finalNode, queueNode, blockNumber, len))
      else (finalNode, queueNode, blockNumber, queueAbsorbedLen))"
  by pat_completeness auto

lemma xor_select: "(n :: u32) XOR (c XOR n) = c" "(c :: u32) XOR (n XOR c) = n"
  by (metis xor.assoc xor.commute xor_self_eq xor.right_neutral)+

lemma firstChunkLen_min: "firstChunkLen n = min n 8192"
  by (cases "8192 < n") (simp_all add: firstChunkLen_def maskOf_def xor_select min.absorb1 min.absorb2)

lemma leafChunkLen_min: "leafChunkLen n = min n 8192"
  by (cases "n < 8192") (simp_all add: leafChunkLen_def maskOf_def xor_select min.absorb1 min.absorb2)

lemma unat_minus_less:
  fixes l n :: u32
  assumes "l \<le> n" and "0 < l"
  shows "unat (n - l) < unat n"
proof -
  have "0 < unat l" using assms(2) by (simp add: unat_gt_0 word_gt_0)
  with unat_sub [OF assms(1)] show ?thesis
    using assms(1) by (metis diff_less order_less_le_trans word_le_nat_alt)
qed

termination leafLoop
proof (relation "measure (\<lambda>p. unat (fst p))", goal_cases)
  case (2 inputByteLen input finalNode queueNode blockNumber queueAbsorbedLen len queue)
  have "len \<le> inputByteLen" "0 < len" using 2(1,2) by (auto simp: leafChunkLen_min min_def)
  then show ?case using unat_minus_less by simp
qed simp

declare leafLoop.simps [simp del]

text \<open>The big-endian bytes of the number of leaves, followed by their count and two \<open>0xFF\<close>.\<close>

function byteCount :: "nat \<Rightarrow> u64 \<Rightarrow> nat" where
  "byteCount n v = (if v \<noteq> 0 \<and> n < 8 then byteCount (n + 1) (drop_bit 8 v) else n)"
  by pat_completeness auto
termination by (relation "measure (\<lambda>(n, v). 8 - n)") auto

declare byteCount.simps [simp del]

definition encodeBlocks :: "u32 \<Rightarrow> u8 list" where
  "encodeBlocks blockNumber =
     (let n = byteCount 0 (ucast blockNumber)
      in map (\<lambda>i. ucast (drop_bit (8 * (n - i)) blockNumber)) [1..<n + 1] @ [of_nat n, 0xFF, 0xFF])"

definition emptyLeaf :: KangarooTwelve_F where
  "emptyLeaf = \<lparr>kstate = replicate 200 0, byteIOIndex = 1\<rparr>"

text \<open>The leaf that an incomplete last chunk leaves open, closed with the byte for the empty customization.\<close>

definition lastLeaf ::
  "KangarooTwelve_F \<times> KangarooTwelve_F \<times> u32 \<times> u32 \<Rightarrow> KangarooTwelve_F \<times> KangarooTwelve_F \<times> u32 \<times> u32" where
  "lastLeaf s = (case s of (finalNode, queueNode, blockNumber, queueAbsorbedLen) \<Rightarrow>
     if queueAbsorbedLen \<noteq> 0 then
       let queueNode = stepIndex queueNode
       in if queueAbsorbedLen + 1 = 8192
          then (absorbLeaf finalNode queueNode,
                \<lparr>kstate = padAndPermute K12_suffixLeaf queueNode, byteIOIndex = K12_capacityInBytes\<rparr>,
                blockNumber + 1, 0)
          else (finalNode, queueNode, blockNumber, queueAbsorbedLen + 1)
     else (finalNode, emptyLeaf, blockNumber, 1))"

definition finishTree :: "KangarooTwelve_F \<times> KangarooTwelve_F \<times> u32 \<times> u32 \<Rightarrow> KangarooTwelve_F" where
  "finishTree s = (case s of (finalNode, queueNode, blockNumber, queueAbsorbedLen) \<Rightarrow>
     let (finalNode, blockNumber) = (if queueAbsorbedLen \<noteq> 0 then (absorbLeaf finalNode queueNode, blockNumber + 1)
                                     else (finalNode, blockNumber));
         finalNode = KangarooTwelve_F_Absorb finalNode (encodeBlocks (blockNumber - 1))
     in finalNode\<lparr>kstate := xorByte (byteIOIndex finalNode) 0x06 (kstate finalNode)\<rparr>)"

definition KangarooTwelve :: "u8 list \<Rightarrow> nat \<Rightarrow> u8 list" where
  "KangarooTwelve input outputByteLen =
     (let inputByteLen = of_nat (length input);
          len = firstChunkLen inputByteLen;
          finalNode = KangarooTwelve_F_Absorb zeroNode (take (unat len) input);
          input = drop (unat len) input;
          inputByteLen = inputByteLen - len;
          finalNode =
            (if len = 8192 \<and> inputByteLen \<noteq> 0
             then finishTree (lastLeaf (leafLoop inputByteLen input (firstChunkMark finalNode, zeroNode, 1, 0)))
             else if len = 8192 then finishTree (firstChunkMark finalNode, emptyLeaf, 1, 1)
             else if byteIOIndex finalNode + 1 = K12_rateInBytes
             then finalNode\<lparr>kstate := xorByte 0 0x07 (KeccakP1600_Permute_12rounds (kstate finalNode))\<rparr>
             else finalNode\<lparr>kstate := xorByte (byteIOIndex finalNode + 1) 0x07 (kstate finalNode)\<rparr>)
      in take outputByteLen
           (KeccakP1600_Permute_12rounds (xorByte (K12_rateInBytes - 1) 0x80 (kstate finalNode))))"

end
