(* ===== verification/LogEvents.thy ===== *)
theory LogEvents
  imports M256 Kangaroo
begin

text \<open>
  The log events of \<open>LogEvent.h\<close> and the structs of \<open>structs.h\<close> that their bodies hold. An event
  is its byte content: a packed header of 26 bytes and the body. The structs are decoded from the
  body at the offsets of their packed layout. Reading past the end of the content is undefined
  behaviour in the source and the failure \<open>OutOfBounds\<close> here.
\<close>

section \<open>The event\<close>

record LogEvent =
  content :: "u8 list"

definition PackedHeaderSize :: nat where
  "PackedHeaderSize = 26"

definition updateContent :: "u8 list \<Rightarrow> LogEvent \<Rightarrow> LogEvent" where
  "updateContent bytes le = le\<lparr>content := bytes\<rparr>"

definition clear :: "LogEvent \<Rightarrow> LogEvent" where
  "clear le = le\<lparr>content := []\<rparr>"

definition hasPackedHeader :: "LogEvent \<Rightarrow> bool" where
  "hasPackedHeader le \<longleftrightarrow> PackedHeaderSize \<le> length (content le)"

definition getEpoch :: "LogEvent \<Rightarrow> u16" where
  "getEpoch le = (if \<not> hasPackedHeader le then 0 else load_le (bytes_at (content le) 0 2))"

definition getTick :: "LogEvent \<Rightarrow> u32" where
  "getTick le = (if \<not> hasPackedHeader le then 0 else load_le (bytes_at (content le) 2 4))"

definition getType :: "LogEvent \<Rightarrow> u32" where
  "getType le = (if \<not> hasPackedHeader le then 0
     else let combo = load_le (bytes_at (content le) 6 4) in drop_bit 24 combo AND 0xFF)"

definition getLogSize :: "LogEvent \<Rightarrow> u32" where
  "getLogSize le = (if \<not> hasPackedHeader le then 0
     else let combo = load_le (bytes_at (content le) 6 4) in combo AND 0x00FFFFFF)"

definition getLogId :: "LogEvent \<Rightarrow> u64" where
  "getLogId le = (if \<not> hasPackedHeader le then 0 else load_le (bytes_at (content le) 10 8))"

definition getLogDigest :: "LogEvent \<Rightarrow> u64" where
  "getLogDigest le = (if \<not> hasPackedHeader le then 0 else load_le (bytes_at (content le) 18 8))"

definition isSCType :: "LogEvent \<Rightarrow> bool" where
  "isSCType le \<longleftrightarrow> 4 \<le> getType le \<and> getType le \<le> 7"

definition getLogBody :: "LogEvent \<Rightarrow> u8 list" where
  "getLogBody le = drop PackedHeaderSize (content le)"

text \<open>\<open>memcpy(&s, le.getLogBodyPtr(), sizeof(s))\<close>\<close>

definition readBody :: "nat \<Rightarrow> LogEvent \<Rightarrow> u8 list result" where
  "readBody n le =
     (if PackedHeaderSize + n \<le> length (content le) then Inr (bytes_at (content le) PackedHeaderSize n)
      else Inl OutOfBounds)"

text \<open>
  The sizes of the body structs: \<open>QuTransfer\<close> 72, \<open>AssetIssuance\<close> 63, \<open>AssetOwnershipChange\<close> and
  \<open>AssetPossessionChange\<close> 127, \<open>AssetOwnershipManagingContractChange\<close> 87,
  \<open>AssetPossessionManagingContractChange\<close> 119, \<open>Burning\<close> 44.
\<close>

definition expectedMinBodySizeForType :: "u32 \<Rightarrow> u32" where
  "expectedMinBodySizeForType t =
     (if t = 0 then 72 else if t = 8 then 44 else if t = 1 then 63 else if t = 2 then 127
      else if t = 3 then 127 else if t = 11 then 87 else if t = 12 then 119 else if t = 10 then 0
      else if t = 4 then 0 else if t = 5 then 0 else if t = 6 then 0 else if t = 7 then 0
      else if t = 255 then 8 else 0)"

definition selfCheck :: "u16 \<Rightarrow> LogEvent \<Rightarrow> bool" where
  "selfCheck epoch le =
     (if length (content le) < 8 + PackedHeaderSize then False
      else if getEpoch le \<noteq> epoch then False
      else let sz = getLogSize le in
        if length (content le) \<noteq> PackedHeaderSize + unat sz
        then sz = 0 \<and> length (content le) = PackedHeaderSize
      else let min_needed = expectedMinBodySizeForType (getType le) in
        if 0 < min_needed \<and> sz < min_needed then False
      else let logDigest = load_le (KangarooTwelve (take (unat sz) (getLogBody le)) 8) in
        if logDigest \<noteq> getLogDigest le then False else True)"

definition getCustomMessage :: "LogEvent \<Rightarrow> u64" where
  "getCustomMessage le =
     (if getType le = 255 \<and> getLogSize le = 8 \<and> hasPackedHeader le
      then load_le (bytes_at (content le) PackedHeaderSize 8) else 0)"

section \<open>The bodies\<close>

definition keyAt :: "u8 list \<Rightarrow> nat \<Rightarrow> m256" where
  "keyAt bs off = m256i_of_bytes (bytes_at bs off 32)"

definition u64At :: "u8 list \<Rightarrow> nat \<Rightarrow> u64" where
  "u64At bs off = load_le (bytes_at bs off 8)"

definition u32At :: "u8 list \<Rightarrow> nat \<Rightarrow> u32" where
  "u32At bs off = load_le (bytes_at bs off 4)"

text \<open>A \<open>char name[7]\<close> as the integer that \<open>memcpy(&assetName, name, 7)\<close> gives.\<close>

definition nameAt :: "u8 list \<Rightarrow> nat \<Rightarrow> u64" where
  "nameAt bs off = load_le (bytes_at bs off 7)"

record QuTransfer =
  qtSourcePublicKey :: m256
  qtDestinationPublicKey :: m256
  qtAmount :: i64

definition decodeQuTransfer :: "u8 list \<Rightarrow> QuTransfer" where
  "decodeQuTransfer bs = \<lparr>qtSourcePublicKey = keyAt bs 0, qtDestinationPublicKey = keyAt bs 32, qtAmount = u64At bs 64\<rparr>"

record AssetIssuance =
  aiIssuerPublicKey :: m256
  aiNumberOfShares :: i64
  aiManagingContractIndex :: i64
  aiName :: u64
  aiNumberOfDecimalPlaces :: u8
  aiUnitOfMeasurement :: u64

definition decodeAssetIssuance :: "u8 list \<Rightarrow> AssetIssuance" where
  "decodeAssetIssuance bs = \<lparr>aiIssuerPublicKey = keyAt bs 0, aiNumberOfShares = u64At bs 32,
     aiManagingContractIndex = u64At bs 40, aiName = nameAt bs 48,
     aiNumberOfDecimalPlaces = load_le (bytes_at bs 55 1), aiUnitOfMeasurement = nameAt bs 56\<rparr>"

record AssetOwnershipChange =
  aocSourcePublicKey :: m256
  aocDestinationPublicKey :: m256
  aocIssuerPublicKey :: m256
  aocNumberOfShares :: i64
  aocManagingContractIndex :: i64
  aocName :: u64
  aocNumberOfDecimalPlaces :: u8
  aocUnitOfMeasurement :: u64

definition decodeAssetOwnershipChange :: "u8 list \<Rightarrow> AssetOwnershipChange" where
  "decodeAssetOwnershipChange bs = \<lparr>aocSourcePublicKey = keyAt bs 0, aocDestinationPublicKey = keyAt bs 32,
     aocIssuerPublicKey = keyAt bs 64, aocNumberOfShares = u64At bs 96, aocManagingContractIndex = u64At bs 104,
     aocName = nameAt bs 112, aocNumberOfDecimalPlaces = load_le (bytes_at bs 119 1),
     aocUnitOfMeasurement = nameAt bs 120\<rparr>"

record AssetOwnershipManagingContractChange =
  omcOwnershipPublicKey :: m256
  omcIssuerPublicKey :: m256
  omcSourceContractIndex :: u32
  omcDestinationContractIndex :: u32
  omcNumberOfShares :: i64
  omcAssetName :: u64

definition decodeOwnershipManagingContractChange :: "u8 list \<Rightarrow> AssetOwnershipManagingContractChange" where
  "decodeOwnershipManagingContractChange bs = \<lparr>omcOwnershipPublicKey = keyAt bs 0, omcIssuerPublicKey = keyAt bs 32,
     omcSourceContractIndex = u32At bs 64, omcDestinationContractIndex = u32At bs 68,
     omcNumberOfShares = u64At bs 72, omcAssetName = nameAt bs 80\<rparr>"

record AssetPossessionManagingContractChange =
  pmcPossessionPublicKey :: m256
  pmcOwnershipPublicKey :: m256
  pmcIssuerPublicKey :: m256
  pmcSourceContractIndex :: u32
  pmcDestinationContractIndex :: u32
  pmcNumberOfShares :: i64
  pmcAssetName :: u64

definition decodePossessionManagingContractChange :: "u8 list \<Rightarrow> AssetPossessionManagingContractChange" where
  "decodePossessionManagingContractChange bs = \<lparr>pmcPossessionPublicKey = keyAt bs 0, pmcOwnershipPublicKey = keyAt bs 32,
     pmcIssuerPublicKey = keyAt bs 64, pmcSourceContractIndex = u32At bs 96, pmcDestinationContractIndex = u32At bs 100,
     pmcNumberOfShares = u64At bs 104, pmcAssetName = nameAt bs 112\<rparr>"

record Burning =
  burnSourcePublicKey :: m256
  burnAmount :: i64
  contractIndexBurnedFor :: u32

definition decodeBurning :: "u8 list \<Rightarrow> Burning" where
  "decodeBurning bs = \<lparr>burnSourcePublicKey = keyAt bs 0, burnAmount = u64At bs 32, contractIndexBurnedFor = u32At bs 40\<rparr>"

section \<open>The log ranges of a tick\<close>

definition NUMBER_OF_TRANSACTIONS_PER_TICK :: nat where
  "NUMBER_OF_TRANSACTIONS_PER_TICK = 1024"

definition LOG_TX_PER_TICK :: nat where
  "LOG_TX_PER_TICK = NUMBER_OF_TRANSACTIONS_PER_TICK + 5"

abbreviation (input) SC_INITIALIZE_TX :: nat where "SC_INITIALIZE_TX \<equiv> NUMBER_OF_TRANSACTIONS_PER_TICK"
abbreviation (input) SC_BEGIN_EPOCH_TX :: nat where "SC_BEGIN_EPOCH_TX \<equiv> NUMBER_OF_TRANSACTIONS_PER_TICK + 1"
abbreviation (input) SC_BEGIN_TICK_TX :: nat where "SC_BEGIN_TICK_TX \<equiv> NUMBER_OF_TRANSACTIONS_PER_TICK + 2"
abbreviation (input) SC_END_TICK_TX :: nat where "SC_END_TICK_TX \<equiv> NUMBER_OF_TRANSACTIONS_PER_TICK + 3"
abbreviation (input) SC_END_EPOCH_TX :: nat where "SC_END_EPOCH_TX \<equiv> NUMBER_OF_TRANSACTIONS_PER_TICK + 4"

record LogRangesPerTxInTick =
  fromLogId :: "nat \<Rightarrow> i64"
  logLength :: "nat \<Rightarrow> i64"

definition pushIfLogged :: "LogRangesPerTxInTick \<Rightarrow> nat \<Rightarrow> nat list" where
  "pushIfLogged lr i = (if fromLogId lr i \<noteq> -1 then [i] else [])"

definition sortRanges :: "LogRangesPerTxInTick \<Rightarrow> nat list" where
  "sortRanges lr = pushIfLogged lr SC_INITIALIZE_TX @ pushIfLogged lr SC_BEGIN_EPOCH_TX @ pushIfLogged lr SC_BEGIN_TICK_TX @
     concat (map (pushIfLogged lr) [0..<NUMBER_OF_TRANSACTIONS_PER_TICK]) @
     pushIfLogged lr SC_END_TICK_TX @ pushIfLogged lr SC_END_EPOCH_TX"

text \<open>The loop of \<open>scanTxId\<close> from position \<open>i\<close> of the order.\<close>

function scanTxId :: "LogRangesPerTxInTick \<Rightarrow> nat list \<Rightarrow> nat \<Rightarrow> i64 \<Rightarrow> nat" where
  "scanTxId lr logTxOrder i logId =
     (if i < length logTxOrder then
        let index = logTxOrder ! i; s = fromLogId lr index; e = s + logLength lr index - 1
        in if sint s \<le> sint logId \<and> sint logId \<le> sint e then i else scanTxId lr logTxOrder (i + 1) logId
      else 0)"
  by pat_completeness auto
termination by (relation "measure (\<lambda>(lr, xs, i, l). length xs - i)") auto

declare scanTxId.simps [simp del]

section \<open>Facts on events\<close>

lemma length_copyToState [simp]: "length (copyToState A) = 200"
  by (cases A) (simp add: copyToState_def)

lemma length_Permute [simp]: "length (KeccakP1600_Permute_12rounds s) = 200"
  by (simp add: KeccakP1600_Permute_12rounds_def)

lemma length_KangarooTwelve [simp]: "length (KangarooTwelve input n) = min n 200"
  by (simp add: KangarooTwelve_def Let_def)

lemma selfCheck_size:
  assumes "selfCheck epoch le"
  shows "length (content le) = PackedHeaderSize + unat (getLogSize le)" and "8 \<le> unat (getLogSize le)"
    and "expectedMinBodySizeForType (getType le) \<le> getLogSize le"
proof -
  have size: "8 + PackedHeaderSize \<le> length (content le)"
    using assms by (auto simp: selfCheck_def not_less split: if_splits)
  then show eq: "length (content le) = PackedHeaderSize + unat (getLogSize le)"
    using assms by (auto simp: selfCheck_def Let_def PackedHeaderSize_def split: if_splits)
  with size show "8 \<le> unat (getLogSize le)" by simp
  show "expectedMinBodySizeForType (getType le) \<le> getLogSize le"
    using assms eq by (auto simp: selfCheck_def Let_def not_less word_gt_0 split: if_splits)
qed

lemma selfCheck_readBody:
  assumes "selfCheck epoch le" and "n \<le> unat (expectedMinBodySizeForType (getType le))"
  shows "readBody n le = Inr (take n (getLogBody le))"
proof -
  have "n \<le> unat (getLogSize le)"
    using assms(2) selfCheck_size(3) [OF assms(1)] by (simp add: word_le_nat_alt)
  with selfCheck_size(1) [OF assms(1)] show ?thesis
    by (simp add: readBody_def getLogBody_def bytes_at_def)
qed

text \<open>An event of a given epoch, tick, type and log id around a body, with the digest of the body.\<close>

definition makeEvent :: "u16 \<Rightarrow> u32 \<Rightarrow> u8 \<Rightarrow> u64 \<Rightarrow> u8 list \<Rightarrow> LogEvent" where
  "makeEvent epoch tick type logId body = \<lparr>content = store_le epoch @ store_le tick @
     nat_le 3 (length body) @ [type] @ store_le logId @ KangarooTwelve body 8 @ body\<rparr>"

lemma length_makeEvent [simp]: "length (content (makeEvent epoch tick type logId body)) = 26 + length body"
  by (simp add: makeEvent_def)

lemma bytes_at_append:
  "bytes_at (xs @ ys) off n = (if off + n \<le> length xs then bytes_at xs off n
     else if length xs \<le> off then bytes_at ys (off - length xs) n
     else drop off xs @ take (n - (length xs - off)) ys)"
  by (auto simp: bytes_at_def)

lemma load_le_append: "load_le (xs @ ys) = load_le xs + of_nat (256 ^ length xs) * (load_le ys :: 'a::len word)"
  by (simp add: load_le_def le_nat_append)

lemma load_store [simp]: "load_le (store_le (w :: u16)) = w" "load_le (store_le (x :: u32)) = x"
  "load_le (store_le (y :: u64)) = y" "load_le (store_le (z :: m256)) = z"
  by (simp_all add: load_store_le)

lemma bytes_at_all [simp]: "n = length xs \<Longrightarrow> bytes_at xs 0 n = xs"
  by (simp add: bytes_at_def)

lemma bytes_at_Cons [simp]:
  "bytes_at (x # xs) (Suc off) n = bytes_at xs off n"
  "bytes_at (x # xs) (numeral k) n = bytes_at xs (pred_numeral k) n"
  by (simp_all add: bytes_at_def numeral_eq_Suc)

lemma makeEvent_fields [simp]:
  "getEpoch (makeEvent epoch tick type logId body) = epoch"
  "getTick (makeEvent epoch tick type logId body) = tick"
  "getLogId (makeEvent epoch tick type logId body) = logId"
  "getLogDigest (makeEvent epoch tick type logId body) = load_le (KangarooTwelve body 8)"
  "getLogBody (makeEvent epoch tick type logId body) = body"
  by (simp_all add: getEpoch_def getTick_def getLogId_def getLogDigest_def getLogBody_def hasPackedHeader_def
      PackedHeaderSize_def makeEvent_def bytes_at_append)

lemma makeEvent_combo:
  "bytes_at (content (makeEvent epoch tick type logId body)) 6 4 = nat_le 3 (length body) @ [type]"
  by (simp add: makeEvent_def bytes_at_append)

lemma makeEvent_type [simp]:
  assumes "length body < 2 ^ 24"
  shows "getType (makeEvent epoch tick type logId body) = ucast type"
    and "getLogSize (makeEvent epoch tick type logId body) = of_nat (length body)"
  using combo_split [OF assms, of type]
  by (simp_all add: getType_def getLogSize_def hasPackedHeader_def PackedHeaderSize_def makeEvent_combo)

lemma selfCheck_makeEvent:
  assumes "8 \<le> length body" and "length body < 2 ^ 24" and "expectedMinBodySizeForType (ucast type) \<le> of_nat (length body)"
  shows "selfCheck epoch (makeEvent epoch tick type logId body)"
  using assms by (simp add: selfCheck_def Let_def PackedHeaderSize_def unat_of_nat not_less)

section \<open>The order of the log ranges\<close>

text \<open>
  \<open>sort\<close> of \<open>LogRangesPerTxInTick\<close> lists every transaction of the tick that has logs,
  the five special ones included, exactly once, with the transactions of the tick in ascending
  order between the epoch and tick prologue and epilogue.
\<close>

lemma sortRanges_lists_logged_once:
  "distinct (sortRanges lr) \<and>
   set (sortRanges lr) = {i. i < LOG_TX_PER_TICK \<and> fromLogId lr i \<noteq> -1} \<and>
   filter (\<lambda>i. i < NUMBER_OF_TRANSACTIONS_PER_TICK) (sortRanges lr) =
     filter (\<lambda>i. fromLogId lr i \<noteq> -1) [0..<NUMBER_OF_TRANSACTIONS_PER_TICK]"
proof -
  define N where "N = NUMBER_OF_TRANSACTIONS_PER_TICK"
  have push: "concat (map (pushIfLogged lr) xs) = filter (\<lambda>i. fromLogId lr i \<noteq> -1) xs" for xs
    by (induction xs) (simp_all add: pushIfLogged_def)
  have sort: "sortRanges lr = filter (\<lambda>i. fromLogId lr i \<noteq> -1) ([N, N + 1, N + 2] @ [0..<N] @ [N + 3, N + 4])"
    unfolding push [symmetric] by (simp add: sortRanges_def N_def)
  have "distinct ([N, N + 1, N + 2] @ [0..<N] @ [N + 3, N + 4])" by simp
  then have "distinct (sortRanges lr)" unfolding sort by (rule distinct_filter)
  moreover have "set ([N, N + 1, N + 2] @ [0..<N] @ [N + 3, N + 4]) = {i. i < LOG_TX_PER_TICK}"
    by (auto simp: LOG_TX_PER_TICK_def N_def)
  then have "set (sortRanges lr) = {i. i < LOG_TX_PER_TICK \<and> fromLogId lr i \<noteq> -1}"
    unfolding sort set_filter by blast
  moreover have "filter (\<lambda>i. i < N) ([N, N + 1, N + 2] @ [0..<N] @ [N + 3, N + 4]) = [0..<N]"
    by (simp add: filter_id_conv)
  then have "filter (\<lambda>i. i < N) (sortRanges lr) = filter (\<lambda>i. fromLogId lr i \<noteq> -1) [0..<N]"
    unfolding sort by (metis (no_types, lifting) filter_filter filter_cong conj_commute)
  ultimately show ?thesis unfolding N_def by blast
qed

end
