(* ===== verification/EventProcessor.thy ===== *)
theory EventProcessor
  imports Spectrum AssetOps LogEvents
begin

text \<open>
  The replay of log events on the ledgers (\<open>LoggingEventProcessor.cpp\<close>): one function per kind of
  event, the loop that dispatches the events of a batch, with its window of dividend events, and the
  decision whether the votes of a tick confirm the digests. The node's ledgers are passed
  explicitly. A call of \<open>exit\<close> is the failure \<open>Exit\<close>; messages to the log are left out.
\<close>

section \<open>One event\<close>

record node =
  nodeSpectrum :: spectrum
  nodeUniverse :: universe

definition processQuTransfer :: "LogEvent \<Rightarrow> node \<Rightarrow> node result" where
  "processQuTransfer le nd =
     bind_result (readBody 72 le) (\<lambda>bs. let qt = decodeQuTransfer bs in
     bind_result (spectrumIndex (qtSourcePublicKey qt) (nodeSpectrum nd)) (\<lambda>src_idx.
     let sp = (if src_idx \<noteq> -1
               then snd (decreaseEnergy (nat src_idx) (qtAmount qt) (getTick le) (nodeSpectrum nd))
               else nodeSpectrum nd)
     in bind_result (increaseEnergy (qtDestinationPublicKey qt) (qtAmount qt) (getTick le) sp)
       (\<lambda>sp. Inr (nd\<lparr>nodeSpectrum := sp\<rparr>))))"

text \<open>The two loops over the events of a dividend payment.\<close>

fun dividendTotal :: "m256 \<Rightarrow> LogEvent list \<Rightarrow> i64 \<Rightarrow> i64 option result" where
  "dividendTotal src [] tot = Inr (Some tot)"
| "dividendTotal src (le # les) tot =
     bind_result (readBody 72 le) (\<lambda>bs. let qt1 = decodeQuTransfer bs in
       if qtSourcePublicKey qt1 \<noteq> src then Inr None
       else dividendTotal src les (tot + qtAmount qt1))"

fun dividendCredits :: "u32 \<Rightarrow> LogEvent list \<Rightarrow> spectrum \<Rightarrow> spectrum result" where
  "dividendCredits tick [] sp = Inr sp"
| "dividendCredits tick (le # les) sp =
     bind_result (readBody 72 le) (\<lambda>bs. let qt1 = decodeQuTransfer bs in
     bind_result (increaseEnergy (qtDestinationPublicKey qt1) (qtAmount qt1) tick sp)
       (dividendCredits tick les))"

definition processDistributeDividends :: "LogEvent list \<Rightarrow> node \<Rightarrow> (bool \<times> node) result" where
  "processDistributeDividends vle nd =
     (if vle = [] then Inr (True, nd)
      else if \<exists>le\<in>set vle. getType le \<noteq> 0 then Inr (False, nd)
      else bind_result (readBody 72 (hd vle)) (\<lambda>bs. let qt = decodeQuTransfer bs in
        bind_result (dividendTotal (qtSourcePublicKey qt) vle 0) (\<lambda>tot.
          case tot of
            None \<Rightarrow> Inr (False, nd)
          | Some tot \<Rightarrow>
              bind_result (spectrumIndex (qtSourcePublicKey qt) (nodeSpectrum nd)) (\<lambda>src_idx.
                if src_idx = -1 then Inr (False, nd)
                else
                  let sp = snd (decreaseEnergy (nat src_idx) tot (getTick (hd vle)) (nodeSpectrum nd))
                  in bind_result (dividendCredits (getTick (hd vle)) vle sp)
                    (\<lambda>sp. Inr (True, nd\<lparr>nodeSpectrum := sp\<rparr>))))))"

definition processQuBurn :: "LogEvent \<Rightarrow> node \<Rightarrow> node result" where
  "processQuBurn le nd =
     bind_result (readBody 44 le) (\<lambda>bs. let b = decodeBurning bs in
     bind_result (spectrumIndex (burnSourcePublicKey b) (nodeSpectrum nd)) (\<lambda>src_idx.
       if src_idx \<noteq> -1
       then Inr (nd\<lparr>nodeSpectrum := snd (decreaseEnergy (nat src_idx) (burnAmount b) (getTick le) (nodeSpectrum nd))\<rparr>)
       else Inr nd))"

definition processIssueAsset :: "LogEvent \<Rightarrow> node \<Rightarrow> node result" where
  "processIssueAsset le nd =
     bind_result (readBody 63 le) (\<lambda>bs. let ai = decodeAssetIssuance bs in
     bind_result
       (issueAsset (aiIssuerPublicKey ai) (aiName ai) (aiNumberOfDecimalPlaces ai) (aiUnitOfMeasurement ai)
          (aiNumberOfShares ai) (ucast (aiManagingContractIndex ai)) (nodeUniverse nd))
       (\<lambda>(shares, issuanceIdx, rest, u). Inr (nd\<lparr>nodeUniverse := u\<rparr>)))"

definition processChangeOwnershipAndPossession :: "LogEvent \<Rightarrow> LogEvent \<Rightarrow> node \<Rightarrow> node result" where
  "processChangeOwnershipAndPossession le0 le1 nd =
     (if \<not> (getType le0 = 2 \<and> getType le1 = 3 \<or> getType le1 = 2 \<and> getType le0 = 3) then Inl (Exit 1)
      else
        let (ownership, possession) = (if getType le0 = 2 then (le0, le1) else (le1, le0))
        in bind_result (readBody 127 ownership) (\<lambda>ob. bind_result (readBody 127 possession) (\<lambda>pb.
          if ob \<noteq> pb then Inl (Exit 1)
          else let aoc = decodeAssetOwnershipChange ob
          in bind_result
            (transferSharesByName (aocName aoc) (aocIssuerPublicKey aoc) (aocSourcePublicKey aoc) (aocSourcePublicKey aoc)
               (aocNumberOfShares aoc) (aocManagingContractIndex aoc) (aocDestinationPublicKey aoc) (nodeUniverse nd))
            (\<lambda>(ret, u). Inr (nd\<lparr>nodeUniverse := u\<rparr>)))))"

definition processChangeManagingContract :: "LogEvent \<Rightarrow> LogEvent \<Rightarrow> node \<Rightarrow> node result" where
  "processChangeManagingContract le0 le1 nd =
     (if \<not> (getType le0 = 11 \<and> getType le1 = 12 \<or> getType le1 = 11 \<and> getType le0 = 12) then Inl (Exit 1)
      else
        let (ownership, possession) = (if getType le0 = 11 then (le0, le1) else (le1, le0))
        in bind_result (readBody 87 ownership) (\<lambda>ob. bind_result (readBody 119 possession) (\<lambda>pb.
          let omcc = decodeOwnershipManagingContractChange ob; pmcc = decodePossessionManagingContractChange pb in
          if omcOwnershipPublicKey omcc \<noteq> pmcOwnershipPublicKey pmcc \<or> omcAssetName omcc \<noteq> pmcAssetName pmcc \<or>
             omcNumberOfShares omcc \<noteq> pmcNumberOfShares pmcc \<or>
             omcSourceContractIndex omcc \<noteq> pmcSourceContractIndex pmcc \<or>
             omcDestinationContractIndex omcc \<noteq> pmcDestinationContractIndex pmcc
          then Inl (Exit 1)
          else
            bind_result (findIssuerIndex (omcIssuerPublicKey omcc) (omcAssetName omcc) (nodeUniverse nd)) (\<lambda>issuanceIndex.
            bind_result (findOwnershipIndex issuanceIndex (omcOwnershipPublicKey omcc) (sint (omcSourceContractIndex omcc))
              (nodeUniverse nd)) (\<lambda>ownershipIndex.
            bind_result (findPossessionIndex ownershipIndex (pmcPossessionPublicKey pmcc)
              (sint (omcSourceContractIndex omcc)) (nodeUniverse nd)) (\<lambda>possessionIndex.
            bind_result
              (transferShareManagementRights ownershipIndex possessionIndex
                 (ucast (omcDestinationContractIndex omcc)) (ucast (omcDestinationContractIndex omcc))
                 (omcNumberOfShares omcc) (nodeUniverse nd))
              (\<lambda>(moved, dst, u). if \<not> moved then Inl (Exit 1) else Inr (nd\<lparr>nodeUniverse := u\<rparr>))))))))"

section \<open>The replay loop\<close>

text \<open>
  The state of the loop: the ledgers, the first event of a pending ownership and possession pair
  (\<open>ple\<close>) and of a pending management rights pair (\<open>ple1\<close>), and what the end-of-epoch message sets.
\<close>

record simState =
  simNode :: node
  ple :: "LogEvent option"
  ple1 :: "LogEvent option"
  gIsEndEpoch :: bool
  lastQuorumTick :: u32

definition CUSTOM_MESSAGE_OP_START_DISTRIBUTE_DIVIDENDS :: u64 where
  "CUSTOM_MESSAGE_OP_START_DISTRIBUTE_DIVIDENDS = 6217575821008262227"

definition CUSTOM_MESSAGE_OP_END_DISTRIBUTE_DIVIDENDS :: u64 where
  "CUSTOM_MESSAGE_OP_END_DISTRIBUTE_DIVIDENDS = 6217575821008457285"

definition CUSTOM_MESSAGE_OP_END_EPOCH :: u64 where
  "CUSTOM_MESSAGE_OP_END_EPOCH = 4850183582582591045"

text \<open>The cases of the switch other than \<open>CUSTOM_MESSAGE\<close>.\<close>

definition dispatch :: "LogEvent \<Rightarrow> simState \<Rightarrow> simState result" where
  "dispatch le st =
     (let t = getType le; keep = (\<lambda>nd. Inr (st\<lparr>simNode := nd\<rparr>)) in
      if t = 0 then bind_result (processQuTransfer le (simNode st)) keep
      else if t = 1 then bind_result (processIssueAsset le (simNode st)) keep
      else if t = 2 \<or> t = 3 then
        (case ple st of
           Some le0 \<Rightarrow> bind_result (processChangeOwnershipAndPossession le0 le (simNode st))
             (\<lambda>nd. Inr (st\<lparr>simNode := nd, ple := None\<rparr>))
         | None \<Rightarrow> Inr (st\<lparr>ple := Some le\<rparr>))
      else if t = 11 \<or> t = 12 then
        (case ple1 st of
           Some le0 \<Rightarrow> bind_result (processChangeManagingContract le0 le (simNode st))
             (\<lambda>nd. Inr (st\<lparr>simNode := nd, ple1 := None\<rparr>))
         | None \<Rightarrow> Inr (st\<lparr>ple1 := Some le\<rparr>))
      else if t = 8 then bind_result (processQuBurn le (simNode st)) keep
      else Inr st)"

text \<open>
  The inner loop over a dividend window, from index \<open>i\<close>: \<open>None\<close> is a loop that does not end, since a
  custom message other than the end marker is read again and again.
\<close>

partial_function (option) dividendWindow ::
  "u16 \<Rightarrow> LogEvent list \<Rightarrow> nat \<Rightarrow> u64 \<Rightarrow> LogEvent list \<Rightarrow> (nat \<times> u64 \<times> LogEvent list) result option" where
  "dividendWindow epoch vle i msg dd =
     (if msg \<noteq> CUSTOM_MESSAGE_OP_END_DISTRIBUTE_DIVIDENDS \<and> i < length vle then
        if \<not> selfCheck epoch (vle ! i) then Some (Inl (Exit 2))
        else if getType (vle ! i) \<noteq> 255 then dividendWindow epoch vle (i + 1) msg (dd @ [vle ! i])
        else if getCustomMessage (vle ! i) = CUSTOM_MESSAGE_OP_END_DISTRIBUTE_DIVIDENDS
        then Some (Inr (i, getCustomMessage (vle ! i), dd))
        else dividendWindow epoch vle i (getCustomMessage (vle ! i)) dd
      else Some (Inr (i, msg, dd)))"

definition windowResult :: "(nat \<times> u64 \<times> LogEvent list) result option \<Rightarrow> (nat \<times> u64 \<times> LogEvent list) result" where
  "windowResult r = (case r of None \<Rightarrow> Inl Diverges | Some x \<Rightarrow> x)"

lemma dividendWindow_advances:
  assumes "dividendWindow epoch vle i msg dd = Some r" and "r = Inr (i', msg', dd')"
  shows "i \<le> i'"
proof -
  have "\<forall>i' msg' dd'. r = Inr (i', msg', dd') \<longrightarrow> i \<le> i'"
  proof (rule dividendWindow.raw_induct
      [where P = "\<lambda>epoch vle i msg dd r. \<forall>i' msg' dd'. r = Inr (i', msg', dd') \<longrightarrow> i \<le> i'", OF _ assms(1)], goal_cases)
    case (1 f epoch vle i msg dd r)
    then show ?case by (auto split: if_splits) (metis Suc_leD)
  qed
  with assms(2) show ?thesis by blast
qed

function simulate :: "u16 \<Rightarrow> LogEvent list \<Rightarrow> nat \<Rightarrow> simState \<Rightarrow> simState result" where
  "simulate epoch vle i st =
     (if i < length vle then
        if \<not> selfCheck epoch (vle ! i) then Inl (Exit 2)
        else if getType (vle ! i) \<noteq> 255 then
          bind_result (dispatch (vle ! i) st) (simulate epoch vle (i + 1))
        else
          let msg = getCustomMessage (vle ! i) in
          if msg = CUSTOM_MESSAGE_OP_START_DISTRIBUTE_DIVIDENDS then
            bind_result (windowResult (dividendWindow epoch vle (i + 1) msg [])) (\<lambda>(i', msg', dd).
              if msg' \<noteq> CUSTOM_MESSAGE_OP_END_DISTRIBUTE_DIVIDENDS then Inl (Exit (-1))
              else bind_result (processDistributeDividends dd (simNode st))
                (\<lambda>(ok, nd). simulate epoch vle (i' + 1) (st\<lparr>simNode := nd\<rparr>)))
          else if msg = CUSTOM_MESSAGE_OP_END_EPOCH then
            simulate epoch vle (i + 1) (st\<lparr>gIsEndEpoch := True, lastQuorumTick := getTick (vle ! i) - 1\<rparr>)
          else simulate epoch vle (i + 1) st
      else Inr st)"
  by pat_completeness auto
termination
proof (relation "measure (\<lambda>(epoch, vle, i, st). length vle - i)", goal_cases)
  case (3 epoch vle i st msg w i' y msg' dd v ok nd)
  then have "i + 1 \<le> i'"
    using dividendWindow_advances by (auto simp: windowResult_def split: option.splits)
  with 3 show ?case by simp
qed auto

declare simulate.simps [simp del]

lemma simulate_end [simp]: "length vle \<le> i \<Longrightarrow> simulate epoch vle i st = Inr st"
  by (simp add: simulate.simps)

section \<open>Votes\<close>

record TickVote =
  computorIndex :: u16
  voteEpoch :: u16
  voteTick :: u32
  millisecond :: u16
  voteTime :: "u8 list"
  prevResourceTestingDigest :: u32
  saltedResourceTestingDigest :: u32
  prevTransactionBodyDigest :: u32
  saltedTransactionBodyDigest :: u32
  prevSpectrumDigest :: m256
  prevUniverseDigest :: m256
  prevComputerDigest :: m256
  saltedSpectrumDigest :: m256
  saltedUniverseDigest :: m256
  saltedComputerDigest :: m256
  transactionDigest :: m256
  expectedNextTickTransactionDigest :: m256
  voteSignature :: "u8 list"

definition KangarooTwelve64To32 :: "u8 list \<Rightarrow> m256" where
  "KangarooTwelve64To32 input = m256i_of_bytes (KangarooTwelve input 32)"

text \<open>The digest of a computor's key followed by the state digest.\<close>

definition salted :: "m256 \<Rightarrow> m256 \<Rightarrow> m256" where
  "salted pk digest = KangarooTwelve64To32 (m256i_u8 pk @ m256i_u8 digest)"

text \<open>The loop over the votes: empty ticks, non-empty ticks and votes that confirm both digests.\<close>

fun countVotes :: "(nat \<Rightarrow> m256) \<Rightarrow> m256 \<Rightarrow> m256 \<Rightarrow> TickVote list \<Rightarrow> nat \<times> nat \<times> nat \<Rightarrow> nat \<times> nat \<times> nat" where
  "countVotes keys sd ud [] acc = acc"
| "countVotes keys sd ud (v # vs) (emptyTick, nonEmptyTick, voteCount) =
     (let emptyTick' = (if transactionDigest v = 0 then emptyTick + 1 else emptyTick);
          nonEmptyTick' = (if transactionDigest v = 0 then nonEmptyTick else nonEmptyTick + 1);
          pk = keys (unat (computorIndex v))
      in if salted pk sd \<noteq> saltedSpectrumDigest v then countVotes keys sd ud vs (emptyTick', nonEmptyTick', voteCount)
         else if salted pk ud \<noteq> saltedUniverseDigest v then countVotes keys sd ud vs (emptyTick', nonEmptyTick', voteCount)
         else countVotes keys sd ud vs (emptyTick', nonEmptyTick', voteCount + 1))"

text \<open>\<open>MissingVotes\<close> refetches the votes of the tick; otherwise \<open>hasTickData\<close> and \<open>matchedQuorum\<close>.\<close>

datatype quorum = MissingVotes | Quorum bool bool

definition checkQuorum :: "(nat \<Rightarrow> m256) \<Rightarrow> m256 \<Rightarrow> m256 \<Rightarrow> TickVote list \<Rightarrow> quorum" where
  "checkQuorum keys sd ud votes =
     (case countVotes keys sd ud votes (0, 0, 0) of (emptyTick, nonEmptyTick, voteCount) \<Rightarrow>
        if 226 \<le> emptyTick then Quorum False (226 \<le> voteCount)
        else if 451 \<le> nonEmptyTick then Quorum True (451 \<le> voteCount)
        else MissingVotes)"

section \<open>The ledgers stay well formed\<close>

definition node_ok :: "node \<Rightarrow> bool" where
  "node_ok nd \<longleftrightarrow> spectrum_ok (nodeSpectrum nd) \<and> universe_ok (nodeUniverse nd)"

lemma node_ok_simps [simp]:
  "node_ok (nd\<lparr>nodeSpectrum := sp\<rparr>) \<longleftrightarrow> spectrum_ok sp \<and> universe_ok (nodeUniverse nd)"
  "node_ok (nd\<lparr>nodeUniverse := u\<rparr>) \<longleftrightarrow> spectrum_ok (nodeSpectrum nd) \<and> universe_ok u"
  by (simp_all add: node_ok_def)

text \<open>A credit that returns had room for the record or found it.\<close>

lemma increaseEnergy_room:
  assumes ok: "spectrum_ok sp" and res: "increaseEnergy pk amount tick sp = Inr sp'" and go: "pk \<noteq> 0" "0 \<le> sint amount"
  shows "spectrumFree sp \<noteq> {} \<or> entities sp pk \<noteq> None"
proof -
  obtain j where j: "probe SPECTRUM_CAPACITY (slot_for entityKey sp pk) (entityHome pk) = Some j"
    using res go by (auto simp: increaseEnergy_def entity_slot_for bind_result_Inr_iff)
  have tab: "table_ok SPECTRUM_CAPACITY entityKey entityHome sp" using ok by (simp add: spectrum_ok_def)
  show ?thesis
    using spt.search_slot_cases [OF tab j] spt.cap_probe_less [OF j spt.home_less]
    by (auto simp: spectrumFree_def free_slots_def entities_def split: if_splits)
qed

lemma increaseEnergy_returned:
  assumes ok: "spectrum_ok sp" and res: "increaseEnergy pk amount tick sp = Inr sp'"
  shows "spectrum_ok sp'" and "totalEnergy sp' = totalEnergy sp + (if pk \<noteq> 0 \<and> 0 \<le> sint amount then amount else 0)"
    and "entities sp' = (if pk \<noteq> 0 \<and> 0 \<le> sint amount
      then (entities sp)(pk \<mapsto> credited pk amount tick (entities sp pk)) else entities sp)"
proof -
  have "spectrum_ok sp' \<and> totalEnergy sp' = totalEnergy sp + (if pk \<noteq> 0 \<and> 0 \<le> sint amount then amount else 0) \<and>
    entities sp' = (if pk \<noteq> 0 \<and> 0 \<le> sint amount
      then (entities sp)(pk \<mapsto> credited pk amount tick (entities sp pk)) else entities sp)"
  proof (cases "pk \<noteq> 0 \<and> 0 \<le> sint amount")
    case True
    with increaseEnergy_spec [OF ok, of pk amount tick] increaseEnergy_room [OF ok res] res show ?thesis by auto
  next
    case False
    with res ok show ?thesis by (auto simp: increaseEnergy_def)
  qed
  then show "spectrum_ok sp'" and "totalEnergy sp' = totalEnergy sp + (if pk \<noteq> 0 \<and> 0 \<le> sint amount then amount else 0)"
    and "entities sp' = (if pk \<noteq> 0 \<and> 0 \<le> sint amount
      then (entities sp)(pk \<mapsto> credited pk amount tick (entities sp pk)) else entities sp)"
    by simp_all
qed

lemma spectrumIndex_found:
  assumes "spectrumIndex pk sp = Inr i" and "i \<noteq> -1"
  shows "nat i < SPECTRUM_CAPACITY" and "publicKey (sp (nat i)) = pk" and "pk \<noteq> 0"
proof -
  from assms show pk: "pk \<noteq> 0" by (auto simp: spectrumIndex_def)
  with assms obtain j where j: "probe SPECTRUM_CAPACITY (slot_for entityKey sp pk) (entityHome pk) = Some j"
    "i = int j" "publicKey (sp j) = pk"
    by (auto simp: spectrumIndex_def entity_slot_for bind_result_Inr_iff split: if_splits)
  then show "nat i < SPECTRUM_CAPACITY" and "publicKey (sp (nat i)) = pk"
    using spt.cap_probe_less [OF j(1) spt.home_less] by simp_all
qed

lemma debit_found:
  assumes ok: "spectrum_ok sp" and found: "spectrumIndex pk sp = Inr i" "i \<noteq> -1"
  shows "spectrum_ok (snd (decreaseEnergy (nat i) amount tick sp))"
    and "totalEnergy (snd (decreaseEnergy (nat i) amount tick sp)) =
      totalEnergy sp - (if 0 \<le> sint amount \<and> sint amount \<le> sint (energy sp (nat i)) then amount else 0)"
  using debit_ok [OF ok spectrumIndex_found [OF found]] ok by (simp_all add: decreaseEnergy_eq)

lemma debit_if_found:
  assumes "spectrum_ok sp" and "spectrumIndex pk sp = Inr i"
  shows "spectrum_ok (if i \<noteq> -1 then snd (decreaseEnergy (nat i) amount tick sp) else sp)"
  using debit_found(1) [OF assms] assms(1) by simp

lemma processQuTransfer_keeps:
  assumes "node_ok nd" and "processQuTransfer le nd = Inr nd'"
  shows "node_ok nd'"
proof -
  obtain bs i sp' where "readBody 72 le = Inr bs"
    and i: "spectrumIndex (qtSourcePublicKey (decodeQuTransfer bs)) (nodeSpectrum nd) = Inr i"
    and sp': "increaseEnergy (qtDestinationPublicKey (decodeQuTransfer bs)) (qtAmount (decodeQuTransfer bs)) (getTick le)
      (if i \<noteq> -1 then snd (decreaseEnergy (nat i) (qtAmount (decodeQuTransfer bs)) (getTick le) (nodeSpectrum nd))
       else nodeSpectrum nd) = Inr sp'" "nd' = nd\<lparr>nodeSpectrum := sp'\<rparr>"
    using assms(2) by (auto simp: processQuTransfer_def bind_result_Inr_iff Let_def)
  with assms(1) increaseEnergy_returned(1) [OF debit_if_found [OF _ i] sp'(1)] show ?thesis
    by (simp add: node_ok_def)
qed

lemma dividendCredits_keeps: "spectrum_ok sp \<Longrightarrow> dividendCredits tick vle sp = Inr sp' \<Longrightarrow> spectrum_ok sp'"
  by (induction tick vle sp rule: dividendCredits.induct)
    (auto simp: bind_result_Inr_iff Let_def dest: increaseEnergy_returned(1))

lemma processDistributeDividends_keeps:
  assumes "node_ok nd" and "processDistributeDividends vle nd = Inr (b, nd')"
  shows "node_ok nd'"
proof (cases "nd' = nd")
  case False
  then obtain pk tot i sp' where i: "spectrumIndex pk (nodeSpectrum nd) = Inr i" "i \<noteq> -1"
    and sp': "dividendCredits (getTick (hd vle)) vle
      (snd (decreaseEnergy (nat i) tot (getTick (hd vle)) (nodeSpectrum nd))) = Inr sp'" "nd' = nd\<lparr>nodeSpectrum := sp'\<rparr>"
    using assms(2)
    by (auto simp: processDistributeDividends_def bind_result_Inr_iff Let_def split: if_splits option.splits)
  from assms(1) have ok: "spectrum_ok (nodeSpectrum nd)" by (simp add: node_ok_def)
  from dividendCredits_keeps [OF debit_found(1) [OF ok i] sp'(1)] assms(1) sp'(2) show ?thesis
    by (simp add: node_ok_def)
qed (use assms(1) in simp)

lemma processQuBurn_keeps:
  assumes "node_ok nd" and "processQuBurn le nd = Inr nd'"
  shows "node_ok nd'"
proof (cases "nd' = nd")
  case False
  then obtain pk i amount where i: "spectrumIndex pk (nodeSpectrum nd) = Inr i" "i \<noteq> -1"
    and nd': "nd' = nd\<lparr>nodeSpectrum := snd (decreaseEnergy (nat i) amount (getTick le) (nodeSpectrum nd))\<rparr>"
    using assms(2) by (auto simp: processQuBurn_def bind_result_Inr_iff Let_def split: if_splits)
  from assms(1) debit_found(1) [OF _ i] nd' show ?thesis by (simp add: node_ok_def)
qed (use assms(1) in simp)

lemma processIssueAsset_keeps: "node_ok nd \<Longrightarrow> processIssueAsset le nd = Inr nd' \<Longrightarrow> node_ok nd'"
  by (auto simp: processIssueAsset_def node_ok_def bind_result_Inr_iff Let_def dest: issueAsset_keeps_ok)

lemma processChangeOwnershipAndPossession_keeps:
  "node_ok nd \<Longrightarrow> processChangeOwnershipAndPossession le0 le1 nd = Inr nd' \<Longrightarrow> node_ok nd'"
  by (auto simp: processChangeOwnershipAndPossession_def node_ok_def bind_result_Inr_iff Let_def
      split: if_splits prod.splits dest: transferByName_keeps_ok)

lemma processChangeManagingContract_keeps:
  "node_ok nd \<Longrightarrow> processChangeManagingContract le0 le1 nd = Inr nd' \<Longrightarrow> node_ok nd'"
  by (auto simp: processChangeManagingContract_def node_ok_def bind_result_Inr_iff Let_def
      split: if_splits prod.splits dest: managementRights_keeps_ok)

lemmas process_keeps = processQuTransfer_keeps processQuBurn_keeps processIssueAsset_keeps
  processChangeOwnershipAndPossession_keeps processChangeManagingContract_keeps processDistributeDividends_keeps

lemma dispatch_keeps:
  assumes "node_ok (simNode st)" and "dispatch le st = Inr st'"
  shows "node_ok (simNode st')"
  using assms by (auto simp: dispatch_def Let_def bind_result_Inr_iff split: if_splits option.splits dest: process_keeps)

lemma simulate_keeps:
  "node_ok (simNode st) \<Longrightarrow> simulate epoch vle i st = Inr st' \<Longrightarrow> node_ok (simNode st')"
proof (induction epoch vle i st rule: simulate.induct)
  case (1 epoch vle i st)
  note res = 1(6) [unfolded simulate.simps [of epoch vle i st]]
  show ?case
  proof (cases "i < length vle \<and> selfCheck epoch (vle ! i)")
    case False
    with res 1(5) show ?thesis by (auto split: if_splits)
  next
    case True
    show ?thesis
    proof (cases "getType (vle ! i) = 255")
      case False
      with True res 1(1) dispatch_keeps [OF 1(5)] show ?thesis by (auto simp: bind_result_Inr_iff)
    next
      case type: True
      let ?msg = "getCustomMessage (vle ! i)"
      show ?thesis
      proof (cases "?msg = CUSTOM_MESSAGE_OP_START_DISTRIBUTE_DIVIDENDS")
        case start: True
        with True type res obtain i' msg' dd ok nd where
          w: "windowResult (dividendWindow epoch vle (i + 1) ?msg []) = Inr (i', msg', dd)"
            "\<not> msg' \<noteq> CUSTOM_MESSAGE_OP_END_DISTRIBUTE_DIVIDENDS"
          and nd: "processDistributeDividends dd (simNode st) = Inr (ok, nd)"
          and rest: "simulate epoch vle (i' + 1) (st\<lparr>simNode := nd\<rparr>) = Inr st'"
          by (auto simp: bind_result_Inr_iff Let_def split: if_splits)
        have "node_ok (simNode (st\<lparr>simNode := nd\<rparr>))"
          using processDistributeDividends_keeps [OF 1(5) nd] by simp
        with 1(2) [OF _ _ _ refl start w(1) refl refl w(2) nd refl] True type rest show ?thesis by simp
      next
        case False
        with True type res 1(3,4,5) show ?thesis by (auto simp: Let_def split: if_splits)
      qed
    qed
  qed
qed

section \<open>The abstract ledger\<close>

text \<open>Debits and credits of a map from keys to records.\<close>

definition ledgerCovers :: "m256 \<Rightarrow> i64 \<Rightarrow> (m256 \<Rightarrow> EntityRecord option) \<Rightarrow> bool" where
  "ledgerCovers src a m = (case m src of None \<Rightarrow> False
     | Some r \<Rightarrow> 0 \<le> sint a \<and> sint a \<le> sint (incomingAmount r - outgoingAmount r))"

definition ledgerDebit :: "m256 \<Rightarrow> i64 \<Rightarrow> u32 \<Rightarrow> (m256 \<Rightarrow> EntityRecord option) \<Rightarrow> m256 \<Rightarrow> EntityRecord option" where
  "ledgerDebit src a tick m = (if ledgerCovers src a m then m(src \<mapsto> debited a tick (the (m src))) else m)"

definition ledgerCredit :: "m256 \<Rightarrow> i64 \<Rightarrow> u32 \<Rightarrow> (m256 \<Rightarrow> EntityRecord option) \<Rightarrow> m256 \<Rightarrow> EntityRecord option" where
  "ledgerCredit dst a tick m = (if dst \<noteq> 0 \<and> 0 \<le> sint a then m(dst \<mapsto> credited dst a tick (m dst)) else m)"

lemma credit_refines:
  assumes "spectrum_ok sp" and "spectrumFree sp \<noteq> {}"
  obtains sp' where "increaseEnergy dst a tick sp = Inr sp'" "spectrum_ok sp'"
    "entities sp' = ledgerCredit dst a tick (entities sp)"
    "totalEnergy sp' = totalEnergy sp + (if dst \<noteq> 0 \<and> 0 \<le> sint a then a else 0)"
proof (cases "dst \<noteq> 0 \<and> 0 \<le> sint a")
  case True
  with increaseEnergy_spec [OF assms(1), of dst a tick] assms(2) that show ?thesis by (auto simp: ledgerCredit_def)
next
  case False
  then have "increaseEnergy dst a tick sp = Inr sp" by (auto simp: increaseEnergy_def)
  with False that assms(1) show ?thesis by (auto simp: ledgerCredit_def)
qed

text \<open>Looking the source up and debiting it when found, as every payment starts.\<close>

lemma spectrumIndex_returned:
  assumes ok: "spectrum_ok sp" and res: "spectrumIndex pk sp = Inr i"
  shows "(entities sp pk = None \<and> i = -1) \<or>
    (\<exists>j<SPECTRUM_CAPACITY. i = int j \<and> publicKey (sp j) = pk \<and> pk \<noteq> 0 \<and> entities sp pk = Some (sp j))"
proof (cases "pk = 0")
  case True
  then have "entities sp pk = None" by (simp add: entities_def table_map_None_iff)
  with True res show ?thesis by (simp add: spectrumIndex_def)
next
  case False
  then obtain j where j: "probe SPECTRUM_CAPACITY (slot_for entityKey sp pk) (entityHome pk) = Some j"
    using res by (auto simp: spectrumIndex_def entity_slot_for bind_result_Inr_iff)
  have tab: "table_ok SPECTRUM_CAPACITY entityKey entityHome sp" using ok by (simp add: spectrum_ok_def)
  have "spectrumFree sp \<noteq> {} \<or> entities sp pk \<noteq> None"
    using spt.search_slot_cases [OF tab j] spt.cap_probe_less [OF j spt.home_less]
    by (auto simp: spectrumFree_def free_slots_def entities_def split: if_splits)
  from spectrumIndex_cases [OF ok this] res show ?thesis by auto
qed

lemma debit_returned:
  assumes ok: "spectrum_ok sp" and res: "spectrumIndex src sp = Inr i"
    and sp': "sp' = (if i \<noteq> -1 then snd (decreaseEnergy (nat i) a tick sp) else sp)"
  shows "spectrum_ok sp'" and "i = -1 \<longleftrightarrow> entities sp src = None" and "spectrumFree sp' = spectrumFree sp"
    and "entities sp' = ledgerDebit src a tick (entities sp)"
    and "totalEnergy sp' = totalEnergy sp - (if ledgerCovers src a (entities sp) then a else 0)"
proof -
  have "spectrum_ok sp' \<and> (i = -1 \<longleftrightarrow> entities sp src = None) \<and> spectrumFree sp' = spectrumFree sp \<and>
    entities sp' = ledgerDebit src a tick (entities sp) \<and>
    totalEnergy sp' = totalEnergy sp - (if ledgerCovers src a (entities sp) then a else 0)"
    using spectrumIndex_returned [OF ok res]
  proof (elim disjE conjE exE)
    assume "entities sp src = None" "i = -1"
    with sp' ok show ?thesis by (auto simp: ledgerDebit_def ledgerCovers_def)
  next
    fix j assume j: "j < SPECTRUM_CAPACITY" "publicKey (sp j) = src" "src \<noteq> 0"
      and i: "i = int j" and ent: "entities sp src = Some (sp j)"
    have covers: "ledgerCovers src a (entities sp) \<longleftrightarrow> 0 \<le> sint a \<and> sint a \<le> sint (energy sp j)"
      by (simp add: ledgerCovers_def ent energy_def)
    have free: "spectrumFree (sp(j := debited a tick (sp j))) = spectrumFree sp"
      unfolding spectrumFree_def by (rule free_slots_same) (simp add: entityKey_def)
    from covers free debit_ok [OF ok j, of a tick] ok ent show ?thesis
      by (simp add: sp' i decreaseEnergy_eq ledgerDebit_def)
  qed
  then show "spectrum_ok sp'" and "i = -1 \<longleftrightarrow> entities sp src = None" and "spectrumFree sp' = spectrumFree sp"
    and "entities sp' = ledgerDebit src a tick (entities sp)"
    and "totalEnergy sp' = totalEnergy sp - (if ledgerCovers src a (entities sp) then a else 0)" by blast+
qed

lemma debit_refines:
  assumes "spectrum_ok sp" and "spectrumFree sp \<noteq> {} \<or> entities sp src \<noteq> None"
  obtains i sp' where "spectrumIndex src sp = Inr i"
    "sp' = (if i \<noteq> -1 then snd (decreaseEnergy (nat i) a tick sp) else sp)" "spectrum_ok sp'"
    "i = -1 \<longleftrightarrow> entities sp src = None"
    "spectrumFree sp' = spectrumFree sp" "entities sp' = ledgerDebit src a tick (entities sp)"
    "totalEnergy sp' = totalEnergy sp - (if ledgerCovers src a (entities sp) then a else 0)"
proof -
  obtain i where i: "spectrumIndex src sp = Inr i" using spectrumIndex_cases [OF assms] by blast
  show thesis by (rule that [OF i refl debit_returned [OF assms(1) i refl]])
qed

lemma quTransfer_refines:
  assumes "spectrum_ok (nodeSpectrum nd)" and "spectrumFree (nodeSpectrum nd) \<noteq> {}"
    and "readBody 72 le = Inr bs" and "decodeQuTransfer bs = qt"
  shows "\<exists>sp'. processQuTransfer le nd = Inr (nd\<lparr>nodeSpectrum := sp'\<rparr>) \<and> spectrum_ok sp' \<and>
    entities sp' = ledgerCredit (qtDestinationPublicKey qt) (qtAmount qt) (getTick le)
      (ledgerDebit (qtSourcePublicKey qt) (qtAmount qt) (getTick le) (entities (nodeSpectrum nd))) \<and>
    totalEnergy sp' = totalEnergy (nodeSpectrum nd)
      - (if ledgerCovers (qtSourcePublicKey qt) (qtAmount qt) (entities (nodeSpectrum nd)) then qtAmount qt else 0)
      + (if qtDestinationPublicKey qt \<noteq> 0 \<and> 0 \<le> sint (qtAmount qt) then qtAmount qt else 0)"
proof -
  obtain i sp1 where i: "spectrumIndex (qtSourcePublicKey qt) (nodeSpectrum nd) = Inr i"
    and sp1: "sp1 = (if i \<noteq> -1 then snd (decreaseEnergy (nat i) (qtAmount qt) (getTick le) (nodeSpectrum nd))
      else nodeSpectrum nd)" "spectrum_ok sp1" "spectrumFree sp1 = spectrumFree (nodeSpectrum nd)"
    "entities sp1 = ledgerDebit (qtSourcePublicKey qt) (qtAmount qt) (getTick le) (entities (nodeSpectrum nd))"
    "totalEnergy sp1 = totalEnergy (nodeSpectrum nd)
      - (if ledgerCovers (qtSourcePublicKey qt) (qtAmount qt) (entities (nodeSpectrum nd)) then qtAmount qt else 0)"
    by (rule debit_refines [OF assms(1) disjI1 [OF assms(2)]])
  have ne: "spectrumFree sp1 \<noteq> {}" using sp1(3) assms(2) by simp
  obtain sp2 where "increaseEnergy (qtDestinationPublicKey qt) (qtAmount qt) (getTick le) sp1 = Inr sp2"
    "spectrum_ok sp2" "entities sp2 = ledgerCredit (qtDestinationPublicKey qt) (qtAmount qt) (getTick le) (entities sp1)"
    "totalEnergy sp2 = totalEnergy sp1 + (if qtDestinationPublicKey qt \<noteq> 0 \<and> 0 \<le> sint (qtAmount qt) then qtAmount qt else 0)"
    by (rule credit_refines [OF sp1(2) ne])
  moreover from this i sp1(1) assms(3,4) have "processQuTransfer le nd = Inr (nd\<lparr>nodeSpectrum := sp2\<rparr>)"
    by (simp add: processQuTransfer_def)
  ultimately show ?thesis using sp1(4,5) by (intro exI [of _ sp2]) simp
qed

section \<open>The abstract replay\<close>

text \<open>
  What a batch of events does to the map of entities, event by event: a transfer debits its source
  and credits its destination, a burn debits its source, a dividend window debits its payer with the
  total and credits the holders, and no other event touches the map.
\<close>

definition payment :: "LogEvent \<Rightarrow> QuTransfer" where
  "payment le = decodeQuTransfer (take 72 (getLogBody le))"

definition paymentTotal :: "LogEvent list \<Rightarrow> i64" where
  "paymentTotal ds = (\<Sum>le\<leftarrow>ds. qtAmount (payment le))"

definition ledgerPayout :: "u32 \<Rightarrow> LogEvent list \<Rightarrow> (m256 \<Rightarrow> EntityRecord option) \<Rightarrow> m256 \<Rightarrow> EntityRecord option" where
  "ledgerPayout tick ds m =
     foldl (\<lambda>m le. ledgerCredit (qtDestinationPublicKey (payment le)) (qtAmount (payment le)) tick m) m ds"

definition ledgerDividends :: "LogEvent list \<Rightarrow> (m256 \<Rightarrow> EntityRecord option) \<Rightarrow> m256 \<Rightarrow> EntityRecord option" where
  "ledgerDividends ds m =
     (if ds = [] \<or> (\<exists>le\<in>set ds. getType le \<noteq> 0 \<or> qtSourcePublicKey (payment le) \<noteq> qtSourcePublicKey (payment (hd ds))) \<or>
         m (qtSourcePublicKey (payment (hd ds))) = None
      then m
      else ledgerPayout (getTick (hd ds)) ds
        (ledgerDebit (qtSourcePublicKey (payment (hd ds))) (paymentTotal ds) (getTick (hd ds)) m))"

definition ledgerEvent :: "LogEvent \<Rightarrow> (m256 \<Rightarrow> EntityRecord option) \<Rightarrow> m256 \<Rightarrow> EntityRecord option" where
  "ledgerEvent le m =
     (if getType le = 0 then
        ledgerCredit (qtDestinationPublicKey (payment le)) (qtAmount (payment le)) (getTick le)
          (ledgerDebit (qtSourcePublicKey (payment le)) (qtAmount (payment le)) (getTick le) m)
      else if getType le = 8 then
        let b = decodeBurning (take 44 (getLogBody le)) in ledgerDebit (burnSourcePublicKey b) (burnAmount b) (getTick le) m
      else m)"

definition beforeMessage :: "LogEvent list \<Rightarrow> LogEvent list" where
  "beforeMessage les = takeWhile (\<lambda>le. getType le \<noteq> 255) les"

definition fromMessage :: "LogEvent list \<Rightarrow> LogEvent list" where
  "fromMessage les = dropWhile (\<lambda>le. getType le \<noteq> 255) les"

lemma fromMessage_length: "length (tl (fromMessage les)) \<le> length les"
  using length_dropWhile_le [of "\<lambda>le. getType le \<noteq> 255" les] unfolding fromMessage_def length_tl by linarith

function ledgerReplay :: "LogEvent list \<Rightarrow> (m256 \<Rightarrow> EntityRecord option) \<Rightarrow> m256 \<Rightarrow> EntityRecord option" where
  "ledgerReplay [] m = m"
| "ledgerReplay (le # les) m =
     (if getType le = 255 \<and> getCustomMessage le = CUSTOM_MESSAGE_OP_START_DISTRIBUTE_DIVIDENDS
      then ledgerReplay (tl (fromMessage les)) (ledgerDividends (beforeMessage les) m)
      else ledgerReplay les (ledgerEvent le m))"
  by pat_completeness auto
termination
  by (relation "measure (\<lambda>(les, m). length les)") (auto simp: le_imp_less_Suc [OF fromMessage_length] simp del: length_tl)

abbreviation nodeLedger :: "node \<Rightarrow> m256 \<Rightarrow> EntityRecord option" where
  "nodeLedger nd \<equiv> entities (nodeSpectrum nd)"

lemma readBody_Inr: "readBody n le = Inr bs \<longleftrightarrow> PackedHeaderSize + n \<le> length (content le) \<and> bs = take n (getLogBody le)"
  by (auto simp: readBody_def getLogBody_def bytes_at_def split: if_splits)

lemma credit_returned:
  "spectrum_ok sp \<Longrightarrow> increaseEnergy dst a tick sp = Inr sp' \<Longrightarrow> entities sp' = ledgerCredit dst a tick (entities sp)"
  using increaseEnergy_returned(3) by (simp add: ledgerCredit_def)

lemma processQuTransfer_ledger:
  assumes "node_ok nd" and "processQuTransfer le nd = Inr nd'" and "getType le = 0"
  shows "nodeLedger nd' = ledgerEvent le (nodeLedger nd)"
proof -
  have ok: "spectrum_ok (nodeSpectrum nd)" using assms(1) by (simp add: node_ok_def)
  let ?qt = "payment le"
  obtain i sp' where i: "spectrumIndex (qtSourcePublicKey ?qt) (nodeSpectrum nd) = Inr i"
    and sp': "increaseEnergy (qtDestinationPublicKey ?qt) (qtAmount ?qt) (getTick le)
      (if i \<noteq> -1 then snd (decreaseEnergy (nat i) (qtAmount ?qt) (getTick le) (nodeSpectrum nd))
       else nodeSpectrum nd) = Inr sp'" "nd' = nd\<lparr>nodeSpectrum := sp'\<rparr>"
    using assms(2) unfolding processQuTransfer_def Let_def bind_result_Inr_iff payment_def readBody_Inr by auto
  note debit = debit_returned [OF ok i refl]
  from credit_returned [OF debit(1) sp'(1)] debit(4) sp'(2) assms(3) show ?thesis by (simp add: ledgerEvent_def)
qed

lemma processQuBurn_ledger:
  assumes "node_ok nd" and "processQuBurn le nd = Inr nd'" and "getType le = 8"
  shows "nodeLedger nd' = ledgerEvent le (nodeLedger nd)"
proof -
  have ok: "spectrum_ok (nodeSpectrum nd)" using assms(1) by (simp add: node_ok_def)
  let ?b = "decodeBurning (take 44 (getLogBody le))"
  obtain i where i: "spectrumIndex (burnSourcePublicKey ?b) (nodeSpectrum nd) = Inr i"
    and run: "(if i \<noteq> -1 then Inr (nd\<lparr>nodeSpectrum := snd (decreaseEnergy (nat i) (burnAmount ?b) (getTick le) (nodeSpectrum nd))\<rparr>)
      else Inr nd) = (Inr nd' :: node result)"
    using assms(2) unfolding processQuBurn_def Let_def bind_result_Inr_iff readBody_Inr by blast
  have nd': "nodeSpectrum nd' = (if i \<noteq> -1
      then snd (decreaseEnergy (nat i) (burnAmount ?b) (getTick le) (nodeSpectrum nd)) else nodeSpectrum nd)"
    using run by (cases "i = -1") auto
  from debit_returned(4) [OF ok i nd'] assms(3) show ?thesis by (simp add: ledgerEvent_def Let_def)
qed

lemma assets_only:
  "processIssueAsset le nd = Inr nd' \<Longrightarrow> nodeSpectrum nd' = nodeSpectrum nd"
  "processChangeOwnershipAndPossession le0 le1 nd = Inr nd' \<Longrightarrow> nodeSpectrum nd' = nodeSpectrum nd"
  "processChangeManagingContract le0 le1 nd = Inr nd' \<Longrightarrow> nodeSpectrum nd' = nodeSpectrum nd"
  by (auto simp: processIssueAsset_def processChangeOwnershipAndPossession_def processChangeManagingContract_def
      bind_result_Inr_iff Let_def split: if_splits prod.splits)

lemma dispatch_ledger:
  assumes "node_ok (simNode st)" and "dispatch le st = Inr st'"
  shows "nodeLedger (simNode st') = ledgerEvent le (nodeLedger (simNode st))"
proof -
  consider "getType le = 0" | "getType le = 8" | "getType le \<noteq> 0" "getType le \<noteq> 8" by blast
  then show ?thesis
  proof cases
    case 1
    with assms show ?thesis by (auto simp: dispatch_def bind_result_Inr_iff dest: processQuTransfer_ledger)
  next
    case 2
    with assms show ?thesis by (auto simp: dispatch_def bind_result_Inr_iff dest: processQuBurn_ledger)
  next
    case 3
    with assms show ?thesis
      by (auto simp: dispatch_def bind_result_Inr_iff Let_def ledgerEvent_def assets_only split: if_splits option.splits)
  qed
qed

text \<open>The payout of a window.\<close>

lemma dividendTotal_returned:
  "dividendTotal src ds t = Inr r \<Longrightarrow>
     r = (if \<forall>le\<in>set ds. qtSourcePublicKey (payment le) = src then Some (t + paymentTotal ds) else None)"
  by (induction src ds t rule: dividendTotal.induct)
    (auto simp: bind_result_Inr_iff Let_def payment_def paymentTotal_def algebra_simps readBody_Inr split: if_splits)

lemma dividendCredits_ledger:
  "spectrum_ok sp \<Longrightarrow> dividendCredits tick ds sp = Inr sp' \<Longrightarrow> entities sp' = ledgerPayout tick ds (entities sp)"
proof (induction tick ds sp rule: dividendCredits.induct)
  case (2 tick le les sp)
  then obtain sp1 where inc: "increaseEnergy (qtDestinationPublicKey (payment le)) (qtAmount (payment le)) tick sp = Inr sp1"
    and rest: "dividendCredits tick les sp1 = Inr sp'" and body: "readBody 72 le = Inr (take 72 (getLogBody le))"
    by (auto simp: bind_result_Inr_iff Let_def payment_def readBody_Inr)
  from 2(1) [OF body refl _ increaseEnergy_returned(1) [OF 2(2) inc] rest] inc credit_returned [OF 2(2) inc]
  show ?case by (simp add: ledgerPayout_def payment_def)
qed (simp add: ledgerPayout_def)

text \<open>The payment proper, once the payer is known.\<close>

definition payDividends :: "int \<Rightarrow> LogEvent list \<Rightarrow> node \<Rightarrow> (bool \<times> node) result" where
  "payDividends src_idx ds nd =
     (if src_idx = -1 then Inr (False, nd)
      else bind_result (dividendCredits (getTick (hd ds)) ds
          (snd (decreaseEnergy (nat src_idx) (paymentTotal ds) (getTick (hd ds)) (nodeSpectrum nd))))
        (\<lambda>sp. Inr (True, nd\<lparr>nodeSpectrum := sp\<rparr>)))"

lemma credit_free:
  assumes "spectrum_ok sp" and "spectrumFree sp \<noteq> {}" and "increaseEnergy dst a tick sp = Inr sp'"
  shows "card (spectrumFree sp) \<le> Suc (card (spectrumFree sp'))"
proof (cases "dst \<noteq> 0 \<and> 0 \<le> sint a")
  case True
  then obtain j r where "increaseEnergy dst a tick sp = Inr (sp(j := r))"
    using increaseEnergy_at [OF assms(1) _ _ disjI1 [OF assms(2)], of dst a tick] by blast
  with assms(3) have sub: "spectrumFree sp \<subseteq> insert j (spectrumFree sp')"
    by (auto simp: spectrumFree_def free_slots_def split: if_splits)
  have fin: "finite (spectrumFree sp')" by (simp add: spectrumFree_def free_slots_def)
  have "card (spectrumFree sp) \<le> card (insert j (spectrumFree sp'))" using sub fin by (intro card_mono) simp_all
  also have "\<dots> \<le> Suc (card (spectrumFree sp'))" using fin by (simp add: card_insert_if)
  finally show ?thesis .
next
  case False
  with assms(3) show ?thesis by (auto simp: increaseEnergy_def)
qed

lemma dividendCredits_returns:
  assumes "spectrum_ok sp" and "length ds \<le> card (spectrumFree sp)"
    and "\<forall>le\<in>set ds. readBody 72 le = Inr (take 72 (getLogBody le))"
  shows "\<exists>sp'. dividendCredits tick ds sp = Inr sp' \<and> spectrum_ok sp' \<and> entities sp' = ledgerPayout tick ds (entities sp) \<and>
    totalEnergy sp' = totalEnergy sp + (\<Sum>le\<leftarrow>ds. if qtDestinationPublicKey (payment le) \<noteq> 0 \<and> 0 \<le> sint (qtAmount (payment le))
      then qtAmount (payment le) else 0)"
  using assms
proof (induction ds arbitrary: sp)
  case (Cons le ds)
  then have free: "spectrumFree sp \<noteq> {}" by auto
  obtain sp1 where inc: "increaseEnergy (qtDestinationPublicKey (payment le)) (qtAmount (payment le)) tick sp = Inr sp1"
    "spectrum_ok sp1" "entities sp1 = ledgerCredit (qtDestinationPublicKey (payment le)) (qtAmount (payment le)) tick (entities sp)"
    "totalEnergy sp1 = totalEnergy sp + (if qtDestinationPublicKey (payment le) \<noteq> 0 \<and> 0 \<le> sint (qtAmount (payment le))
      then qtAmount (payment le) else 0)"
    by (rule credit_refines [OF Cons.prems(1) free])
  have "length ds \<le> card (spectrumFree sp1)" using credit_free [OF Cons.prems(1) free inc(1)] Cons.prems(2) by simp
  from Cons.IH [OF inc(2) this] Cons.prems(3) obtain sp' where "dividendCredits tick ds sp1 = Inr sp'" "spectrum_ok sp'"
    "entities sp' = ledgerPayout tick ds (entities sp1)"
    "totalEnergy sp' = totalEnergy sp1 + (\<Sum>le\<leftarrow>ds. if qtDestinationPublicKey (payment le) \<noteq> 0 \<and> 0 \<le> sint (qtAmount (payment le))
      then qtAmount (payment le) else 0)" by auto
  with inc Cons.prems(3) show ?case
    by (intro exI [of _ sp']) (simp add: ledgerPayout_def flip: payment_def)
qed (simp add: ledgerPayout_def)

lemma dividendTotal_returns:
  "\<forall>le\<in>set ds. readBody 72 le = Inr (take 72 (getLogBody le)) \<and> qtSourcePublicKey (payment le) = src \<Longrightarrow>
     dividendTotal src ds t = Inr (Some (t + paymentTotal ds))"
  by (induction ds arbitrary: t) (simp_all add: payment_def paymentTotal_def algebra_simps)

lemma processDistributeDividends_pays:
  assumes "ds \<noteq> []" and "\<forall>le\<in>set ds. getType le = 0" and "readBody 72 (hd ds) = Inr (take 72 (getLogBody (hd ds)))"
    and "dividendTotal (qtSourcePublicKey (payment (hd ds))) ds 0 = Inr (Some (paymentTotal ds))"
  shows "processDistributeDividends ds nd =
    bind_result (spectrumIndex (qtSourcePublicKey (payment (hd ds))) (nodeSpectrum nd)) (\<lambda>i. payDividends i ds nd)"
  using assms unfolding processDistributeDividends_def payment_def payDividends_def Let_def by simp

lemma payDividends_ledger:
  assumes ok: "spectrum_ok (nodeSpectrum nd)" and ds: "ds \<noteq> []" "\<forall>le\<in>set ds. getType le = 0"
    and same: "\<forall>le\<in>set ds. qtSourcePublicKey (payment le) = qtSourcePublicKey (payment (hd ds))"
    and i: "spectrumIndex (qtSourcePublicKey (payment (hd ds))) (nodeSpectrum nd) = Inr i"
    and res: "payDividends i ds nd = Inr (b, nd')"
  shows "nodeLedger nd' = ledgerDividends ds (nodeLedger nd)"
proof -
  define sp where "sp = (if i \<noteq> -1 then snd (decreaseEnergy (nat i) (paymentTotal ds) (getTick (hd ds)) (nodeSpectrum nd))
    else nodeSpectrum nd)"
  note debit = debit_returned [OF ok i sp_def]
  show ?thesis
  proof (cases "i = -1")
    case True
    with debit(2) res show ?thesis by (simp add: ledgerDividends_def payDividends_def)
  next
    case False
    with res obtain sp' where sp': "dividendCredits (getTick (hd ds)) ds sp = Inr sp'" "nd' = nd\<lparr>nodeSpectrum := sp'\<rparr>"
      by (auto simp: payDividends_def bind_result_Inr_iff sp_def)
    have "ledgerDividends ds (nodeLedger nd) = ledgerPayout (getTick (hd ds)) ds (entities sp)"
      unfolding ledgerDividends_def debit(4) by (rule if_not_P) (use False debit(2) ds same in blast)
    with dividendCredits_ledger [OF debit(1) sp'(1)] sp'(2) show ?thesis by simp
  qed
qed

lemma dividends_refine:
  assumes ok: "spectrum_ok (nodeSpectrum nd)" and ds: "ds \<noteq> []"
    and each: "\<forall>le\<in>set ds. selfCheck epoch le \<and> getType le = 0 \<and> qtSourcePublicKey (payment le) = src"
    and payer: "nodeLedger nd src \<noteq> None" and room: "length ds \<le> card (spectrumFree (nodeSpectrum nd))"
  shows "\<exists>sp'. processDistributeDividends ds nd = Inr (True, nd\<lparr>nodeSpectrum := sp'\<rparr>) \<and> spectrum_ok sp' \<and>
    entities sp' = ledgerPayout (getTick (hd ds)) ds
      (ledgerDebit src (paymentTotal ds) (getTick (hd ds)) (nodeLedger nd)) \<and>
    totalEnergy sp' = totalEnergy (nodeSpectrum nd)
      - (if ledgerCovers src (paymentTotal ds) (nodeLedger nd) then paymentTotal ds else 0)
      + (\<Sum>le\<leftarrow>ds. if qtDestinationPublicKey (payment le) \<noteq> 0 \<and> 0 \<le> sint (qtAmount (payment le))
          then qtAmount (payment le) else 0)"
proof -
  have bodies: "\<forall>le\<in>set ds. readBody 72 le = Inr (take 72 (getLogBody le))"
    using each selfCheck_readBody [of epoch _ 72] by (simp add: expectedMinBodySizeForType_def)
  have src: "qtSourcePublicKey (payment (hd ds)) = src" using each ds hd_in_set by blast
  have tot: "dividendTotal src ds 0 = Inr (Some (paymentTotal ds))"
    using dividendTotal_returns [of ds src 0] bodies each by simp
  obtain i sp where i: "spectrumIndex src (nodeSpectrum nd) = Inr i"
    and sp: "sp = (if i \<noteq> -1 then snd (decreaseEnergy (nat i) (paymentTotal ds) (getTick (hd ds)) (nodeSpectrum nd))
      else nodeSpectrum nd)" "spectrum_ok sp" "i = -1 \<longleftrightarrow> nodeLedger nd src = None"
      "spectrumFree sp = spectrumFree (nodeSpectrum nd)"
      "entities sp = ledgerDebit src (paymentTotal ds) (getTick (hd ds)) (nodeLedger nd)"
      "totalEnergy sp = totalEnergy (nodeSpectrum nd)
        - (if ledgerCovers src (paymentTotal ds) (nodeLedger nd) then paymentTotal ds else 0)"
    by (rule debit_refines [OF ok disjI2 [OF payer]])
  have run: "processDistributeDividends ds nd = payDividends i ds nd"
    using processDistributeDividends_pays [OF ds _ _ tot [folded src], of nd] each bodies ds src i by simp
  have "length ds \<le> card (spectrumFree sp)" using room sp(4) by simp
  from dividendCredits_returns [OF sp(2) this bodies, of "getTick (hd ds)"] obtain sp' where
    "dividendCredits (getTick (hd ds)) ds sp = Inr sp'" "spectrum_ok sp'"
    "entities sp' = ledgerPayout (getTick (hd ds)) ds (entities sp)"
    "totalEnergy sp' = totalEnergy sp + (\<Sum>le\<leftarrow>ds. if qtDestinationPublicKey (payment le) \<noteq> 0 \<and> 0 \<le> sint (qtAmount (payment le))
      then qtAmount (payment le) else 0)" by blast
  with payer sp show ?thesis by (intro exI [of _ sp']) (simp add: run payDividends_def)
qed

lemma processDistributeDividends_ledger:
  assumes "node_ok nd" and res: "processDistributeDividends ds nd = Inr (b, nd')"
  shows "nodeLedger nd' = ledgerDividends ds (nodeLedger nd)"
proof (cases "ds = [] \<or> (\<exists>le\<in>set ds. getType le \<noteq> 0)")
  case True
  then have "processDistributeDividends ds nd = Inr (ds = [], nd)" by (auto simp: processDistributeDividends_def)
  moreover from True have "ledgerDividends ds m = m" for m unfolding ledgerDividends_def by (intro if_P) blast
  ultimately show ?thesis using res by simp
next
  case False
  then have ds: "ds \<noteq> []" "\<forall>le\<in>set ds. getType le = 0" by blast+
  let ?src = "qtSourcePublicKey (payment (hd ds))"
  have ok: "spectrum_ok (nodeSpectrum nd)" using assms(1) by (simp add: node_ok_def)
  have body: "readBody 72 (hd ds) = Inr (take 72 (getLogBody (hd ds)))"
    using res False by (auto simp: processDistributeDividends_def bind_result_Inr_iff [of "readBody a b" for a b] readBody_Inr)
  then obtain tot where tot: "dividendTotal ?src ds 0 = Inr tot"
    using res ds by (auto simp: processDistributeDividends_def bind_result_Inr_iff [of "dividendTotal a b c" for a b c]
        payment_def Let_def)
  show ?thesis
  proof (cases "\<forall>le\<in>set ds. qtSourcePublicKey (payment le) = ?src")
    case True
    then have "dividendTotal ?src ds 0 = Inr (Some (paymentTotal ds))" using tot dividendTotal_returned [OF tot] by simp
    from res [unfolded processDistributeDividends_pays [OF ds body this]] obtain i where
      "spectrumIndex ?src (nodeSpectrum nd) = Inr i" "payDividends i ds nd = Inr (b, nd')"
      by (auto simp: bind_result_Inr_iff)
    then show ?thesis by (rule payDividends_ledger [OF ok ds True])
  next
    case diff: False
    then have "dividendTotal ?src ds 0 = Inr None" using tot dividendTotal_returned [OF tot] by (simp split: if_splits)
    with res ds body have "nd' = nd" by (simp add: processDistributeDividends_def payment_def)
    moreover from diff have "ledgerDividends ds m = m" for m unfolding ledgerDividends_def by (intro if_P) blast
    ultimately show ?thesis by simp
  qed
qed

section \<open>Dividend windows\<close>

lemma dividendWindow_hangs:
  assumes "msg \<noteq> CUSTOM_MESSAGE_OP_END_DISTRIBUTE_DIVIDENDS" and "i < length vle" and "selfCheck epoch (vle ! i)"
    and "getType (vle ! i) = 255" and "getCustomMessage (vle ! i) \<noteq> CUSTOM_MESSAGE_OP_END_DISTRIBUTE_DIVIDENDS"
  shows "dividendWindow epoch vle i msg dd = None"
proof (rule ccontr)
  assume "dividendWindow epoch vle i msg dd \<noteq> None"
  then obtain r where r: "dividendWindow epoch vle i msg dd = Some r" by blast
  define stuck where "stuck = (\<lambda>epoch vle i msg. msg \<noteq> CUSTOM_MESSAGE_OP_END_DISTRIBUTE_DIVIDENDS \<and> i < length vle \<and>
    selfCheck epoch (vle ! i) \<and> getType (vle ! i) = 255 \<and>
    getCustomMessage (vle ! i) \<noteq> CUSTOM_MESSAGE_OP_END_DISTRIBUTE_DIVIDENDS)"
  have "\<not> stuck epoch vle i msg"
  proof (rule dividendWindow.raw_induct [where P = "\<lambda>epoch vle i msg dd r. \<not> stuck epoch vle i msg", OF _ r], goal_cases)
    case (1 f epoch vle i msg dd r)
    then show ?case by (auto simp: stuck_def split: if_splits) metis
  qed
  with assms show False by (simp add: stuck_def)
qed

lemma window_event:
  assumes "drop i vle = ds @ e # rest"
  shows "i + length ds < length vle" and "vle ! (i + length ds) = e"
proof -
  show len: "i + length ds < length vle" using arg_cong [OF assms, of length] by simp
  have "drop i vle ! length ds = e" unfolding assms by simp
  with len show "vle ! (i + length ds) = e" by simp
qed

lemma dividendWindow_skips:
  assumes "drop i vle = ds @ rest" and "msg \<noteq> CUSTOM_MESSAGE_OP_END_DISTRIBUTE_DIVIDENDS"
    and "\<forall>le\<in>set ds. selfCheck epoch le \<and> getType le \<noteq> 255"
  shows "dividendWindow epoch vle i msg dd = dividendWindow epoch vle (i + length ds) msg (dd @ ds)"
  using assms
proof (induction ds arbitrary: i dd)
  case (Cons d ds)
  have i: "i < length vle" using Cons.prems(1) by (metis append_Cons drop_all leI list.distinct(1))
  then have "vle ! i = d" using Cons.prems(1) hd_drop_conv_nth [OF i] by simp
  moreover have "drop (i + 1) vle = ds @ rest"
    using Cons.prems(1) by (metis append_Cons drop_Suc Suc_eq_plus1 list.sel(3) tl_drop)
  ultimately show ?case
    using Cons i by (simp add: dividendWindow.simps [of epoch vle i])
qed simp

lemma dividendWindow_collects:
  assumes "drop i vle = ds @ e # rest" and "msg \<noteq> CUSTOM_MESSAGE_OP_END_DISTRIBUTE_DIVIDENDS"
    and "\<forall>le\<in>set ds. selfCheck epoch le \<and> getType le \<noteq> 255"
    and "selfCheck epoch e" and "getType e = 255" and "getCustomMessage e = CUSTOM_MESSAGE_OP_END_DISTRIBUTE_DIVIDENDS"
  shows "dividendWindow epoch vle i msg dd =
    Some (Inr (i + length ds, CUSTOM_MESSAGE_OP_END_DISTRIBUTE_DIVIDENDS, dd @ ds))"
  unfolding dividendWindow_skips [OF assms(1-3)]
  using assms(2,4-6) window_event [OF assms(1)] by (simp add: dividendWindow.simps [of epoch vle "i + length ds"])

lemma messages_distinct [simp]:
  "CUSTOM_MESSAGE_OP_START_DISTRIBUTE_DIVIDENDS \<noteq> CUSTOM_MESSAGE_OP_END_DISTRIBUTE_DIVIDENDS"
  by (simp add: CUSTOM_MESSAGE_OP_START_DISTRIBUTE_DIVIDENDS_def CUSTOM_MESSAGE_OP_END_DISTRIBUTE_DIVIDENDS_def)

lemma dividendWindow_result:
  assumes "dividendWindow epoch vle i msg dd = Some r"
    and "r = Inr (i', CUSTOM_MESSAGE_OP_END_DISTRIBUTE_DIVIDENDS, dd')" and "msg \<noteq> CUSTOM_MESSAGE_OP_END_DISTRIBUTE_DIVIDENDS"
  shows "dd' = dd @ beforeMessage (drop i vle) \<and> drop i' vle = fromMessage (drop i vle)"
proof -
  have "\<forall>i' dd'. r = Inr (i', CUSTOM_MESSAGE_OP_END_DISTRIBUTE_DIVIDENDS, dd') \<longrightarrow>
    msg \<noteq> CUSTOM_MESSAGE_OP_END_DISTRIBUTE_DIVIDENDS \<longrightarrow>
    dd' = dd @ beforeMessage (drop i vle) \<and> drop i' vle = fromMessage (drop i vle)"
  proof (rule dividendWindow.raw_induct
      [where P = "\<lambda>epoch vle i msg dd r. \<forall>i' dd'. r = Inr (i', CUSTOM_MESSAGE_OP_END_DISTRIBUTE_DIVIDENDS, dd') \<longrightarrow>
        msg \<noteq> CUSTOM_MESSAGE_OP_END_DISTRIBUTE_DIVIDENDS \<longrightarrow>
        dd' = dd @ beforeMessage (drop i vle) \<and> drop i' vle = fromMessage (drop i vle)", OF _ assms(1)], goal_cases)
    case (1 f epoch vle i msg dd r)
    have drop: "drop i vle = vle ! i # drop (Suc i) vle" if "i < length vle" using Cons_nth_drop_Suc [OF that] by simp
    have msg: "beforeMessage (drop i vle) = [] \<and> fromMessage (drop i vle) = drop i vle"
      if "i < length vle" "getType (vle ! i) = 255" using that by (simp add: drop beforeMessage_def fromMessage_def)
    have other: "beforeMessage (drop i vle) = vle ! i # beforeMessage (drop (Suc i) vle) \<and>
        fromMessage (drop i vle) = fromMessage (drop (Suc i) vle)"
      if "i < length vle" "getType (vle ! i) \<noteq> 255" using that by (simp add: drop beforeMessage_def fromMessage_def)
    show ?case
    proof (cases "msg \<noteq> CUSTOM_MESSAGE_OP_END_DISTRIBUTE_DIVIDENDS \<and> i < length vle \<and> selfCheck epoch (vle ! i)")
      case True
      with 1(2) msg other show ?thesis
        by (cases "getType (vle ! i) = 255") (auto split: if_splits dest!: 1(1))
    next
      case False
      with 1(2) show ?thesis by (auto split: if_splits)
    qed
  qed
  with assms(2,3) show ?thesis by blast
qed

lemma simulate_ledger:
  "node_ok (simNode st) \<Longrightarrow> simulate epoch vle i st = Inr st' \<Longrightarrow>
     nodeLedger (simNode st') = ledgerReplay (drop i vle) (nodeLedger (simNode st))"
proof (induction epoch vle i st rule: simulate.induct)
  case (1 epoch vle i st)
  note res = 1(6) [unfolded simulate.simps [of epoch vle i st]]
  show ?case
  proof (cases "i < length vle")
    case False
    with res show ?thesis by simp
  next
    case i: True
    with res have check: "selfCheck epoch (vle ! i)" by (auto split: if_splits)
    have drop: "drop i vle = vle ! i # drop (i + 1) vle" using Cons_nth_drop_Suc [OF i] by simp
    show ?thesis
    proof (cases "getType (vle ! i) = 255")
      case False
      with i check res obtain st1 where d: "dispatch (vle ! i) st = Inr st1"
        and rest: "simulate epoch vle (i + 1) st1 = Inr st'" by (auto simp: bind_result_Inr_iff)
      from 1(1) [OF i _ False d dispatch_keeps [OF 1(5) d] rest] check False dispatch_ledger [OF 1(5) d]
      show ?thesis by (simp add: drop)
    next
      case type: True
      let ?msg = "getCustomMessage (vle ! i)"
      show ?thesis
      proof (cases "?msg = CUSTOM_MESSAGE_OP_START_DISTRIBUTE_DIVIDENDS")
        case start: True
        with i check type res obtain i' msg' dd ok nd where
          w: "windowResult (dividendWindow epoch vle (i + 1) ?msg []) = Inr (i', msg', dd)"
            "\<not> msg' \<noteq> CUSTOM_MESSAGE_OP_END_DISTRIBUTE_DIVIDENDS"
          and nd: "processDistributeDividends dd (simNode st) = Inr (ok, nd)"
          and rest: "simulate epoch vle (i' + 1) (st\<lparr>simNode := nd\<rparr>) = Inr st'"
          by (auto simp: bind_result_Inr_iff Let_def split: if_splits)
        have win: "dd = beforeMessage (drop (i + 1) vle) \<and> drop i' vle = fromMessage (drop (i + 1) vle)"
          using w start messages_distinct dividendWindow_result [of epoch vle "i + 1" ?msg "[]" _ i' dd]
          by (auto simp: windowResult_def split: option.splits)
        then have "drop (i' + 1) vle = tl (fromMessage (drop (i + 1) vle))" by (metis drop_Suc Suc_eq_plus1 tl_drop)
        moreover have "node_ok (simNode (st\<lparr>simNode := nd\<rparr>))"
          using processDistributeDividends_keeps [OF 1(5) nd] by simp
        from 1(2) [OF i _ _ refl start w(1) refl refl w(2) nd refl this rest] check type
        have "nodeLedger (simNode st') = ledgerReplay (drop (i' + 1) vle) (nodeLedger nd)" by simp
        ultimately show ?thesis
          using processDistributeDividends_ledger [OF 1(5) nd] win start type by (simp add: drop)
      next
        case False
        have same: "ledgerEvent (vle ! i) m = m" for m using type by (simp add: ledgerEvent_def)
        from i check type False res 1(3,4,5) show ?thesis
          by (auto simp: Let_def drop same split: if_splits)
      qed
    qed
  qed
qed

text \<open>A window that reaches the end of the batch ends the program.\<close>

lemma simulate_exits_without_end:
  assumes "vle = pre @ s # ds" and "\<forall>le\<in>set (s # ds). selfCheck epoch le" and "\<forall>le\<in>set ds. getType le \<noteq> 255"
    and "getType s = 255" and "getCustomMessage s = CUSTOM_MESSAGE_OP_START_DISTRIBUTE_DIVIDENDS"
  shows "simulate epoch vle (length pre) st = Inl (Exit (-1))"
proof -
  have drop: "drop (length pre + 1) vle = ds @ []" using assms(1) by simp
  have "dividendWindow epoch vle (length pre + 1) CUSTOM_MESSAGE_OP_START_DISTRIBUTE_DIVIDENDS [] =
      dividendWindow epoch vle (length vle) CUSTOM_MESSAGE_OP_START_DISTRIBUTE_DIVIDENDS ds"
    using dividendWindow_skips [OF drop messages_distinct, of epoch "[]"] assms(1-3) by simp
  also have "\<dots> = Some (Inr (length vle, CUSTOM_MESSAGE_OP_START_DISTRIBUTE_DIVIDENDS, ds))"
    by (simp add: dividendWindow.simps [of epoch vle "length vle"])
  finally have "dividendWindow epoch vle (length pre + 1) CUSTOM_MESSAGE_OP_START_DISTRIBUTE_DIVIDENDS [] =
      Some (Inr (length vle, CUSTOM_MESSAGE_OP_START_DISTRIBUTE_DIVIDENDS, ds))" .
  moreover have "length pre < length vle" "vle ! length pre = s" using assms(1) by simp_all
  ultimately show ?thesis using assms(2,4,5) by (subst simulate.simps) (simp add: windowResult_def)
qed

section \<open>Worked example\<close>

text \<open>A payment of 3 from the entity 5 to the entity 9 in tick 100, and a node to replay it on.\<close>

definition demoTransfer :: LogEvent where
  "demoTransfer = makeEvent 200 100 0 1 (store_le (5 :: m256) @ store_le (9 :: m256) @ store_le (3 :: u64))"

definition demoNode :: node where
  "demoNode = \<lparr>nodeSpectrum = demoSpectrum, nodeUniverse = demoUniverse\<rparr>"

definition demoState :: simState where
  "demoState = \<lparr>simNode = demoNode, ple = None, ple1 = None, gIsEndEpoch = False, lastQuorumTick = 0\<rparr>"

lemma demoNode_ok: "node_ok demoNode"
  by (simp add: node_ok_def demoNode_def demoSpectrum_ok demoUniverse_ok)

lemma demoTransfer_check: "selfCheck 200 demoTransfer" "getType demoTransfer = 0"
  unfolding demoTransfer_def by (rule selfCheck_makeEvent) (simp_all add: expectedMinBodySizeForType_def)

lemma demoTransfer_body:
  "readBody 72 demoTransfer = Inr (store_le (5 :: m256) @ store_le (9 :: m256) @ store_le (3 :: u64))"
  using selfCheck_readBody [OF demoTransfer_check(1), of 72] demoTransfer_check(2)
  by (simp add: demoTransfer_def expectedMinBodySizeForType_def)

lemma demoTransfer_decoded:
  "decodeQuTransfer (store_le (5 :: m256) @ store_le (9 :: m256) @ store_le (3 :: u64)) =
     \<lparr>qtSourcePublicKey = 5, qtDestinationPublicKey = 9, qtAmount = 3\<rparr>"
  by (simp add: decodeQuTransfer_def keyAt_def u64At_def m256i_of_bytes_def bytes_at_append)

lemma demoTransfer_payment: "payment demoTransfer = \<lparr>qtSourcePublicKey = 5, qtDestinationPublicKey = 9, qtAmount = 3\<rparr>"
  using demoTransfer_body demoTransfer_decoded by (simp add: payment_def readBody_Inr)

lemma demoTransfer_tick: "getTick demoTransfer = 100"
  by (simp add: demoTransfer_def)

lemma demoNode_payer: "entities demoSpectrum 5 = Some (demoSpectrum 5)"
  using spt.table_map_Some_iff [of demoSpectrum 5 "demoSpectrum 5"] demoSpectrum_ok
  by (auto simp: entities_def spectrum_ok_def demoSpectrum_def demoEntity_def SPECTRUM_CAPACITY_num)

lemma demoNode_covers: "ledgerCovers 5 3 (entities demoSpectrum)"
  by (simp add: ledgerCovers_def demoNode_payer) (simp add: demoSpectrum_def demoEntity_def zeroEntity_def)

section \<open>Properties\<close>

text \<open>
  Claim C5. Whenever the replay of a batch of log events returns, for any list of events, the spectrum
  holds exactly the balances of the abstract replay of these events: transfers debit their source
  when it covers the amount and credit their destination, burns debit, a dividend window debits its
  payer with the total and credits its holders, and every other event leaves all entities as they
  were. Both tables stay well formed; for the universe this includes that the possessions under
  every ownership record add up to its shares.
\<close>

theorem simulate_keeps_ledgers:
  assumes "node_ok (simNode st)" and "simulate epoch vle i st = Inr st'"
  shows "entities (nodeSpectrum (simNode st')) = ledgerReplay (drop i vle) (entities (nodeSpectrum (simNode st))) \<and>
    spectrum_ok (nodeSpectrum (simNode st')) \<and> universe_ok (nodeUniverse (simNode st'))"
  using simulate_ledger [OF assms] simulate_keeps [OF assms] by (simp add: node_ok_def)

theorem simulate_keeps_ledgers_witness:
  "\<exists>st'. simulate 200 [demoTransfer] 0 demoState = Inr st' \<and>
     entities (nodeSpectrum (simNode st')) = ledgerCredit 9 3 100 (ledgerDebit 5 3 100 (entities demoSpectrum)) \<and>
     universe_ok (nodeUniverse (simNode st'))"
proof -
  obtain sp' where run: "processQuTransfer demoTransfer demoNode = Inr (demoNode\<lparr>nodeSpectrum := sp'\<rparr>)"
    using quTransfer_refines [of demoNode demoTransfer, OF _ _ demoTransfer_body refl]
    by (auto simp: demoNode_def demoSpectrum_ok demoSpectrum_free)
  have "simulate 200 [demoTransfer] 0 demoState = Inr (demoState\<lparr>simNode := demoNode\<lparr>nodeSpectrum := sp'\<rparr>\<rparr>)"
    by (simp add: simulate.simps [of _ _ 0] simulate.simps [of _ _ "Suc 0"] demoTransfer_check dispatch_def
        demoState_def run)
  moreover from simulate_keeps_ledgers [OF _ this]
  have "entities sp' = ledgerCredit 9 3 100 (ledgerDebit 5 3 100 (entities demoSpectrum)) \<and> universe_ok demoUniverse"
    using demoNode_ok
    by (simp add: demoState_def demoNode_def demoTransfer_check demoTransfer_payment demoTransfer_tick ledgerEvent_def)
  ultimately show ?thesis by (auto simp: demoState_def demoNode_def)
qed

text \<open>
  Claim C6. \<open>processQuTransfer\<close> on a well-formed spectrum with a free slot returns and refines the
  abstract payment: the source is debited when it exists and its balance covers the amount, then the
  destination is credited, whether or not the debit succeeded. The total of all balances changes
  accordingly: it is conserved exactly when the debit and the credit both happen or both do not.
\<close>

theorem processQuTransfer_refines_payment:
  assumes "spectrum_ok (nodeSpectrum nd)" and "spectrumFree (nodeSpectrum nd) \<noteq> {}"
    and "readBody 72 le = Inr bs" and "decodeQuTransfer bs = qt"
  shows "\<exists>sp'. processQuTransfer le nd = Inr (nd\<lparr>nodeSpectrum := sp'\<rparr>) \<and> spectrum_ok sp' \<and>
    entities sp' = ledgerCredit (qtDestinationPublicKey qt) (qtAmount qt) (getTick le)
      (ledgerDebit (qtSourcePublicKey qt) (qtAmount qt) (getTick le) (entities (nodeSpectrum nd))) \<and>
    totalEnergy sp' = totalEnergy (nodeSpectrum nd)
      - (if ledgerCovers (qtSourcePublicKey qt) (qtAmount qt) (entities (nodeSpectrum nd)) then qtAmount qt else 0)
      + (if qtDestinationPublicKey qt \<noteq> 0 \<and> 0 \<le> sint (qtAmount qt) then qtAmount qt else 0)"
  using quTransfer_refines [OF assms] .

theorem processQuTransfer_refines_payment_witness:
  "\<exists>sp'. processQuTransfer demoTransfer demoNode = Inr (demoNode\<lparr>nodeSpectrum := sp'\<rparr>) \<and>
     totalEnergy sp' = totalEnergy demoSpectrum"
proof -
  from demoNode_covers processQuTransfer_refines_payment [of demoNode demoTransfer, OF _ _ demoTransfer_body demoTransfer_decoded]
  show ?thesis by (auto simp: demoNode_def demoSpectrum_ok demoSpectrum_free)
qed

definition demoMessage :: "u64 \<Rightarrow> LogEvent" where
  "demoMessage m = makeEvent 200 100 255 1 (store_le m)"

lemma demoMessage_facts:
  "selfCheck 200 (demoMessage m)" "getType (demoMessage m) = 255" "getCustomMessage (demoMessage m) = m"
proof -
  show "selfCheck 200 (demoMessage m)"
    unfolding demoMessage_def by (rule selfCheck_makeEvent) (simp_all add: expectedMinBodySizeForType_def)
  show type: "getType (demoMessage m) = 255" by (simp add: demoMessage_def)
  have "bytes_at (content (demoMessage m)) PackedHeaderSize 8 = store_le m"
    using makeEvent_fields(5) [of 200 100 255 1 "store_le m"]
    by (simp add: demoMessage_def getLogBody_def bytes_at_def)
  with type show "getCustomMessage (demoMessage m) = m"
    by (simp add: getCustomMessage_def hasPackedHeader_def PackedHeaderSize_def) (simp add: demoMessage_def)
qed

text \<open>
  Claim C35. A dividend window, the start message, a sequence of transfers from one payer with an
  entry in the spectrum and the end message, on a spectrum with a free slot per transfer: the replay
  debits the payer once, with the total of the transfers and only if its balance covers it, credits
  the destination of every transfer in turn, whether or not the debit succeeded, and goes on after
  the end message. The total of all balances changes by what was credited less what was debited.
\<close>

theorem simulate_pays_dividend_window:
  assumes "vle = pre @ s # ds @ e # rest" and "\<forall>le\<in>set (s # ds @ [e]). selfCheck epoch le"
    and "getType s = 255" and "getCustomMessage s = CUSTOM_MESSAGE_OP_START_DISTRIBUTE_DIVIDENDS"
    and "getType e = 255" and "getCustomMessage e = CUSTOM_MESSAGE_OP_END_DISTRIBUTE_DIVIDENDS"
    and "ds \<noteq> []" and "\<forall>le\<in>set ds. getType le = 0 \<and> qtSourcePublicKey (payment le) = src"
    and "spectrum_ok sp" and "sp = nodeSpectrum (simNode st)" and "entities sp src \<noteq> None"
    and "length ds \<le> card (spectrumFree sp)"
    and "dividend = (\<Sum>le\<leftarrow>ds. qtAmount (payment le))" and "tick = getTick (hd ds)"
  shows "\<exists>sp'. simulate epoch vle (length pre) st =
      simulate epoch vle (length pre + length ds + 2) (st\<lparr>simNode := (simNode st)\<lparr>nodeSpectrum := sp'\<rparr>\<rparr>) \<and>
    spectrum_ok sp' \<and>
    entities sp' =
      foldl (\<lambda>m le. ledgerCredit (qtDestinationPublicKey (payment le)) (qtAmount (payment le)) tick m)
        (ledgerDebit src dividend tick (entities sp)) ds \<and>
    totalEnergy sp' = totalEnergy sp - (if ledgerCovers src dividend (entities sp) then dividend else 0)
      + (\<Sum>le\<leftarrow>ds. if qtDestinationPublicKey (payment le) \<noteq> 0 \<and> 0 \<le> sint (qtAmount (payment le))
          then qtAmount (payment le) else 0)"
proof -
  have "drop (length pre + 1) vle = ds @ e # rest" using assms(1) by simp
  from dividendWindow_collects [OF this messages_distinct, of epoch "[]"] assms(2,5,6,8)
  have window: "dividendWindow epoch vle (length pre + 1) CUSTOM_MESSAGE_OP_START_DISTRIBUTE_DIVIDENDS [] =
      Some (Inr (length pre + 1 + length ds, CUSTOM_MESSAGE_OP_END_DISTRIBUTE_DIVIDENDS, ds))" by simp
  have each: "\<forall>le\<in>set ds. selfCheck epoch le \<and> getType le = 0 \<and> qtSourcePublicKey (payment le) = src"
    using assms(2,8) by simp
  obtain sp' where pay: "processDistributeDividends ds (simNode st) = Inr (True, (simNode st)\<lparr>nodeSpectrum := sp'\<rparr>)"
    and sp': "spectrum_ok sp'" "entities sp' = ledgerPayout tick ds (ledgerDebit src dividend tick (entities sp))"
    "totalEnergy sp' = totalEnergy sp - (if ledgerCovers src dividend (entities sp) then dividend else 0)
      + (\<Sum>le\<leftarrow>ds. if qtDestinationPublicKey (payment le) \<noteq> 0 \<and> 0 \<le> sint (qtAmount (payment le))
          then qtAmount (payment le) else 0)"
    using dividends_refine [of "simNode st", OF _ assms(7) each] assms(9-14) by (auto simp: paymentTotal_def)
  have "length pre < length vle" "vle ! length pre = s" using assms(1) by simp_all
  then have "simulate epoch vle (length pre) st =
      simulate epoch vle (length pre + length ds + 2) (st\<lparr>simNode := (simNode st)\<lparr>nodeSpectrum := sp'\<rparr>\<rparr>)"
    using assms(2-4) window pay by (subst simulate.simps) (simp add: windowResult_def)
  with sp' show ?thesis unfolding ledgerPayout_def by blast
qed

theorem simulate_pays_dividend_window_witness:
  "\<exists>sp'. simulate 200 [demoMessage CUSTOM_MESSAGE_OP_START_DISTRIBUTE_DIVIDENDS, demoTransfer,
       demoMessage CUSTOM_MESSAGE_OP_END_DISTRIBUTE_DIVIDENDS] 0 demoState =
     Inr (demoState\<lparr>simNode := demoNode\<lparr>nodeSpectrum := sp'\<rparr>\<rparr>) \<and> spectrum_ok sp' \<and>
     entities sp' = ledgerCredit 9 3 100 (ledgerDebit 5 3 100 (entities demoSpectrum)) \<and>
     totalEnergy sp' = totalEnergy demoSpectrum"
proof -
  have "finite (spectrumFree demoSpectrum)" by (simp add: spectrumFree_def free_slots_def)
  with demoSpectrum_free have room: "Suc 0 \<le> card (spectrumFree demoSpectrum)" by (simp add: Suc_le_eq card_gt_0_iff)
  let ?vle = "[demoMessage CUSTOM_MESSAGE_OP_START_DISTRIBUTE_DIVIDENDS, demoTransfer,
       demoMessage CUSTOM_MESSAGE_OP_END_DISTRIBUTE_DIVIDENDS]"
  have "\<exists>sp'. simulate 200 ?vle (length ([] :: LogEvent list)) demoState =
      simulate 200 ?vle (length ([] :: LogEvent list) + length [demoTransfer] + 2)
        (demoState\<lparr>simNode := (simNode demoState)\<lparr>nodeSpectrum := sp'\<rparr>\<rparr>) \<and>
    spectrum_ok sp' \<and>
    entities sp' =
      foldl (\<lambda>m le. ledgerCredit (qtDestinationPublicKey (payment le)) (qtAmount (payment le)) 100 m)
        (ledgerDebit 5 3 100 (entities demoSpectrum)) [demoTransfer] \<and>
    totalEnergy sp' = totalEnergy demoSpectrum - (if ledgerCovers 5 3 (entities demoSpectrum) then 3 else 0)
      + (\<Sum>le\<leftarrow>[demoTransfer]. if qtDestinationPublicKey (payment le) \<noteq> 0 \<and> 0 \<le> sint (qtAmount (payment le))
          then qtAmount (payment le) else 0)"
    by (rule simulate_pays_dividend_window [where s = "demoMessage CUSTOM_MESSAGE_OP_START_DISTRIBUTE_DIVIDENDS"
          and e = "demoMessage CUSTOM_MESSAGE_OP_END_DISTRIBUTE_DIVIDENDS" and rest = "[]"])
      (simp_all add: demoMessage_facts demoTransfer_check demoTransfer_payment demoTransfer_tick demoState_def demoNode_def
        demoSpectrum_ok demoNode_payer room)
  then show ?thesis
    by (simp add: demoTransfer_payment demoNode_covers) (simp add: demoState_def demoNode_def)
qed

text \<open>
  Claim C36. Inside a dividend window, after any number of events that are not custom messages, a
  custom message other than the end message makes the replay loop run forever: the window loop
  reports it and reads it again without advancing.
\<close>

theorem simulate_hangs_in_dividend_window:
  assumes "vle = pre @ s # ds @ m # rest" and "\<forall>le\<in>set (s # ds @ [m]). selfCheck epoch le"
    and "getType s = 255" and "getCustomMessage s = CUSTOM_MESSAGE_OP_START_DISTRIBUTE_DIVIDENDS"
    and "\<forall>le\<in>set ds. getType le \<noteq> 255"
    and "getType m = 255" and "getCustomMessage m \<noteq> CUSTOM_MESSAGE_OP_END_DISTRIBUTE_DIVIDENDS"
  shows "simulate epoch vle (length pre) st = Inl Diverges"
proof -
  have drop: "drop (length pre + 1) vle = ds @ m # rest" using assms(1) by simp
  have "dividendWindow epoch vle (length pre + 1) CUSTOM_MESSAGE_OP_START_DISTRIBUTE_DIVIDENDS [] =
      dividendWindow epoch vle (length pre + 1 + length ds) CUSTOM_MESSAGE_OP_START_DISTRIBUTE_DIVIDENDS ds"
    using dividendWindow_skips [OF drop messages_distinct, of epoch "[]"] assms(2,5) by simp
  also have "\<dots> = None"
    using window_event [OF drop] assms(2,6,7) by (intro dividendWindow_hangs messages_distinct) simp_all
  finally have "dividendWindow epoch vle (length pre + 1) CUSTOM_MESSAGE_OP_START_DISTRIBUTE_DIVIDENDS [] = None" .
  moreover have "length pre < length vle" "vle ! length pre = s" using assms(1) by simp_all
  ultimately show ?thesis using assms(2-4) by (subst simulate.simps) (simp add: windowResult_def)
qed

theorem simulate_hangs_in_dividend_window_witness:
  "simulate 200 [demoMessage CUSTOM_MESSAGE_OP_START_DISTRIBUTE_DIVIDENDS, demoTransfer, demoMessage 7] 0 demoState = Inl Diverges"
  using simulate_hangs_in_dividend_window [of _ "[]" "demoMessage CUSTOM_MESSAGE_OP_START_DISTRIBUTE_DIVIDENDS" "[demoTransfer]"
      "demoMessage 7" "[]", OF refl, of 200 demoState]
  by (simp add: demoMessage_facts demoTransfer_check CUSTOM_MESSAGE_OP_END_DISTRIBUTE_DIVIDENDS_def)

text \<open>A vote that carries the salted digests of the given state under its computor's key.\<close>

definition confirms :: "(nat \<Rightarrow> m256) \<Rightarrow> m256 \<Rightarrow> m256 \<Rightarrow> TickVote \<Rightarrow> bool" where
  "confirms keys sd ud v \<longleftrightarrow>
     saltedSpectrumDigest v = salted (keys (unat (computorIndex v))) sd \<and>
     saltedUniverseDigest v = salted (keys (unat (computorIndex v))) ud"

lemma countVotes_filter:
  "countVotes keys sd ud vs (a, b, c) =
     (a + length (filter (\<lambda>v. transactionDigest v = 0) vs),
      b + length (filter (\<lambda>v. transactionDigest v \<noteq> 0) vs),
      c + length (filter (confirms keys sd ud) vs))"
  by (induction vs arbitrary: a b c) (auto simp: confirms_def Let_def)

text \<open>
  Claim C23. The vote check confirms the state only with a quorum: when \<open>checkQuorum\<close> reports a match,
  at least 451 votes (for a tick with data) or 226 votes (for an empty tick) carry exactly the
  salted digests of the computed spectrum and universe under their computor's key. With at most 676
  votes, one per computor, the two kinds of tick exclude each other, so the answer does not depend
  on the order in which the code tests them.
\<close>

theorem checkQuorum_needs_quorum:
  assumes "checkQuorum keys sd ud votes = Quorum hasTickData matched" and "length votes \<le> 676"
  shows "(hasTickData \<longleftrightarrow> 451 \<le> length (filter (\<lambda>v. transactionDigest v \<noteq> 0) votes)) \<and>
    (\<not> hasTickData \<longleftrightarrow> 226 \<le> length (filter (\<lambda>v. transactionDigest v = 0) votes)) \<and>
    (matched \<longleftrightarrow> (if hasTickData then 451 else 226) \<le> length (filter (confirms keys sd ud) votes))"
proof -
  have "length (filter (\<lambda>v. transactionDigest v = 0) votes) + length (filter (\<lambda>v. transactionDigest v \<noteq> 0) votes) \<le> 676"
    using assms(2) sum_length_filter_compl [of "\<lambda>v. transactionDigest v = 0" votes] by simp
  with assms(1) show ?thesis by (auto simp: checkQuorum_def countVotes_filter split: if_splits)
qed

definition demoVote :: TickVote where
  "demoVote = \<lparr>computorIndex = 1, voteEpoch = 200, voteTick = 100, millisecond = 0, voteTime = [],
     prevResourceTestingDigest = 0, saltedResourceTestingDigest = 0, prevTransactionBodyDigest = 0,
     saltedTransactionBodyDigest = 0, prevSpectrumDigest = 0, prevUniverseDigest = 0, prevComputerDigest = 0,
     saltedSpectrumDigest = salted 7 1, saltedUniverseDigest = salted 7 2, saltedComputerDigest = 0,
     transactionDigest = 0, expectedNextTickTransactionDigest = 0, voteSignature = []\<rparr>"

theorem checkQuorum_needs_quorum_witness:
  "checkQuorum (\<lambda>_. 7) 1 2 (replicate 226 demoVote) = Quorum False True \<and>
   226 \<le> length (filter (confirms (\<lambda>_. 7) 1 2) (replicate 226 demoVote))"
proof -
  have c: "confirms (\<lambda>_. 7) 1 2 demoVote" "transactionDigest demoVote = 0"
    by (simp_all add: confirms_def demoVote_def)
  then have "checkQuorum (\<lambda>_. 7) 1 2 (replicate 226 demoVote) = Quorum False True"
    by (simp add: checkQuorum_def countVotes_filter)
  with checkQuorum_needs_quorum [OF this] show ?thesis by auto
qed

end
