(* ===== verification/DigestTree.thy ===== *)
theory DigestTree
  imports EventProcessor
begin

text \<open>
  The state digests of \<open>LoggingEventProcessor.cpp\<close>: \<open>computeSpectrumDigest\<close> and \<open>getUniverseDigest\<close>
  keep a binary hash tree over all slots of a ledger, stored level after level in one array, and
  rehash only the nodes below which a change flag is set. The flags of one level are overwritten in
  place by those of the next. The lemmas show that this incremental update gives the tree, and so
  the root, of a full recomputation.
\<close>

section \<open>The code\<close>

record digestTree =
  digests :: "nat \<Rightarrow> m256"
  changeFlags :: "nat \<Rightarrow> u64"

text \<open>The bytes of a slot as they lie in memory.\<close>

definition entityBytes :: "EntityRecord \<Rightarrow> u8 list" where
  "entityBytes r = m256i_u8 (publicKey r) @ store_le (incomingAmount r) @ store_le (outgoingAmount r) @
     store_le (numberOfIncomingTransfers r) @ store_le (numberOfOutgoingTransfers r) @
     store_le (latestIncomingTransferTick r) @ store_le (latestOutgoingTransferTick r)"

definition assetBytes :: "AssetRecord \<Rightarrow> u8 list" where
  "assetBytes r = m256i_u8 (assetPublicKey r) @ [assetType r, assetPadding r] @
     store_le (managingContractIndex r) @ store_le (assetIndex r) @ store_le (numberOfShares r)"

definition entityDigest :: "EntityRecord \<Rightarrow> m256" where
  "entityDigest r = KangarooTwelve64To32 (entityBytes r)"

definition assetDigest :: "AssetRecord \<Rightarrow> m256" where
  "assetDigest r = m256i_of_bytes (KangarooTwelve (assetBytes r) 32)"

text \<open>\<open>KangarooTwelve64To32\<close> on two neighbouring digests.\<close>

definition hashPair :: "m256 \<Rightarrow> m256 \<Rightarrow> m256" where
  "hashPair a b = KangarooTwelve64To32 (m256i_u8 a @ m256i_u8 b)"

definition setFlag :: "nat \<Rightarrow> digestTree \<Rightarrow> digestTree" where
  "setFlag i t = t\<lparr>changeFlags := (changeFlags t)
     (drop_bit 6 i := changeFlags t (drop_bit 6 i) OR push_bit (i AND 63) 1)\<rparr>"

definition setDigest :: "nat \<Rightarrow> m256 \<Rightarrow> digestTree \<Rightarrow> digestTree" where
  "setDigest i d t = t\<lparr>digests := (digests t)(i := d)\<rparr>"

text \<open>One pair of a level: test the two flags, hash, clear them and set the flag of the parent.\<close>

definition pairStep :: "nat \<Rightarrow> nat \<Rightarrow> nat \<Rightarrow> digestTree \<Rightarrow> digestTree" where
  "pairStep previousLevelBeginning digestIndex i t =
     (if changeFlags t (drop_bit 6 i) AND push_bit (i AND 63) 3 \<noteq> 0 then
        let t1 = setDigest digestIndex
              (hashPair (digests t (previousLevelBeginning + i)) (digests t (previousLevelBeginning + i + 1))) t;
            t2 = t1\<lparr>changeFlags := (changeFlags t1)
              (drop_bit 6 i := changeFlags t1 (drop_bit 6 i) AND NOT (push_bit (i AND 63) 3))\<rparr>
        in t2\<lparr>changeFlags := (changeFlags t2)
             (drop_bit 7 i := changeFlags t2 (drop_bit 7 i) OR push_bit (drop_bit 1 i AND 63) 1)\<rparr>
      else t)"

function levelLoop :: "nat \<Rightarrow> nat \<Rightarrow> nat \<Rightarrow> nat \<Rightarrow> digestTree \<Rightarrow> nat \<times> digestTree" where
  "levelLoop previousLevelBeginning numberOfLeafs i digestIndex t =
     (if i < numberOfLeafs
      then levelLoop previousLevelBeginning numberOfLeafs (i + 2) (digestIndex + 1)
             (pairStep previousLevelBeginning digestIndex i t)
      else (digestIndex, t))"
  by pat_completeness auto
termination by (relation "measure (\<lambda>(p, n, i, d, t). n - i)") auto

declare levelLoop.simps [simp del]

function treeLoop :: "nat \<Rightarrow> nat \<Rightarrow> nat \<Rightarrow> digestTree \<Rightarrow> digestTree" where
  "treeLoop previousLevelBeginning numberOfLeafs digestIndex t =
     (if 1 < numberOfLeafs
      then let (digestIndex, t) = levelLoop previousLevelBeginning numberOfLeafs 0 digestIndex t
           in treeLoop (previousLevelBeginning + numberOfLeafs) (drop_bit 1 numberOfLeafs) digestIndex t
      else t)"
  by pat_completeness auto
termination by (relation "measure (\<lambda>(p, n, d, t). n)") (auto simp: drop_bit_Suc)

declare treeLoop.simps [simp del]

definition UINT32_MAX :: u32 where
  "UINT32_MAX = 0xFFFFFFFF"

definition touched :: "u32 \<Rightarrow> u32 \<Rightarrow> EntityRecord \<Rightarrow> bool" where
  "touched tickStart tickEnd r \<longleftrightarrow>
     tickStart \<le> latestIncomingTransferTick r \<and> latestIncomingTransferTick r \<le> tickEnd \<or>
     tickStart \<le> latestOutgoingTransferTick r \<and> latestOutgoingTransferTick r \<le> tickEnd"

definition spectrumLeaf :: "u32 \<Rightarrow> u32 \<Rightarrow> spectrum \<Rightarrow> nat \<Rightarrow> digestTree \<Rightarrow> digestTree" where
  "spectrumLeaf tickStart tickEnd sp i t =
     (if tickStart = UINT32_MAX \<or> touched tickStart tickEnd (sp i)
      then setFlag i (setDigest i (entityDigest (sp i)) t) else t)"

definition clearFirstWord :: "digestTree \<Rightarrow> digestTree" where
  "clearFirstWord t = t\<lparr>changeFlags := (changeFlags t)(0 := 0)\<rparr>"

definition computeSpectrumDigest :: "u32 \<Rightarrow> u32 \<Rightarrow> spectrum \<Rightarrow> digestTree \<Rightarrow> digestTree" where
  "computeSpectrumDigest tickStart tickEnd sp t =
     clearFirstWord (treeLoop 0 SPECTRUM_CAPACITY SPECTRUM_CAPACITY
       (fold (spectrumLeaf tickStart tickEnd sp) [0..<SPECTRUM_CAPACITY] t))"

definition universeLeaf :: "u32 \<Rightarrow> (nat \<Rightarrow> AssetRecord) \<Rightarrow> nat \<Rightarrow> digestTree \<Rightarrow> digestTree" where
  "universeLeaf tickStart as i t =
     (if tickStart \<noteq> UINT32_MAX then
        if changeFlags t (drop_bit 6 i) AND push_bit (i AND 63) 1 \<noteq> 0 then setDigest i (assetDigest (as i)) t else t
      else setFlag i (setDigest i (assetDigest (as i)) t))"

text \<open>The universe keeps its own change flags, which the asset operations set.\<close>

definition getUniverseDigest :: "u32 \<Rightarrow> universe \<Rightarrow> (nat \<Rightarrow> m256) \<Rightarrow> m256 \<times> universe \<times> (nat \<Rightarrow> m256)" where
  "getUniverseDigest tickStart u ds =
     (let t = clearFirstWord (treeLoop 0 ASSETS_CAPACITY ASSETS_CAPACITY
                (fold (universeLeaf tickStart (assets u)) [0..<ASSETS_CAPACITY]
                   \<lparr>digests = ds, changeFlags = assetChangeFlags u\<rparr>))
      in (digests t (ASSETS_CAPACITY * 2 - 1 - 1), u\<lparr>assetChangeFlags := changeFlags t\<rparr>, digests t))"

section \<open>Flags as bits\<close>

definition flagged :: "digestTree \<Rightarrow> nat \<Rightarrow> bool" where
  "flagged t i \<longleftrightarrow> bit (changeFlags t (i div 64)) (i mod 64)"

lemma word_index [simp]: "drop_bit 6 (i::nat) = i div 64" "drop_bit 7 i = i div 128" "drop_bit 1 i = i div 2" "drop_bit (Suc 0) i = i div 2"
  "i AND 63 = i mod 64"
proof -
  show "i AND 63 = i mod 64"
    using take_bit_eq_mask [of 6 i] by (simp add: take_bit_eq_mod mask_eq_exp_minus_1)
qed (simp_all add: drop_bit_eq_div)

lemma same_bit: "(j::nat) div 64 = i div 64 \<and> j mod 64 = i mod 64 \<longleftrightarrow> j = i"
  by (metis div_mult_mod_eq)

lemma flagged_setFlag [simp]: "flagged (setFlag i t) j \<longleftrightarrow> j = i \<or> flagged t j"
proof -
  have "bit (push_bit (i mod 64) 1 :: u64) k \<longleftrightarrow> k = i mod 64" for k
    by (auto simp: bit_simps)
  then show ?thesis using same_bit [of j i] by (auto simp: flagged_def setFlag_def bit_or_iff)
qed

lemma setters [simp]:
  "digests (setFlag i t) = digests t" "digests (setDigest i d t) = (digests t)(i := d)"
  "flagged (setDigest i d t) = flagged t" "digests (clearFirstWord t) = digests t"
  by (simp_all add: setFlag_def setDigest_def flagged_def fun_eq_iff clearFirstWord_def)

text \<open>The mask of a pair of flags covers both bits, in one word.\<close>

lemma pair_position:
  "(2 * k + 1) div 64 = 2 * k div 64" "(2 * k + 1) mod 64 = 2 * k mod 64 + 1" "2 * k mod 64 + 1 < (64::nat)"
proof -
  have even: "2 * k mod 64 = 2 * (k mod 32)" using mult_mod_right [of 2 k 32] by simp
  then show lt: "2 * k mod 64 + 1 < 64" using mod_less_divisor [of 32 k] by linarith
  have "(2 * k + 1) mod 64 = (2 * k mod 64 + 1) mod 64" by (rule mod_add_left_eq [symmetric])
  then show "(2 * k + 1) mod 64 = 2 * k mod 64 + 1" using lt by simp
  have "(2 * k + 1) div 64 = (2 * k + 1) div 2 div 32" by (simp add: div_mult2_eq [symmetric])
  also have "\<dots> = 2 * k div 64" by simp
  finally show "(2 * k + 1) div 64 = 2 * k div 64" .
qed

lemma bit_pair_mask:
  assumes "r + 1 < 64"
  shows "bit (push_bit r 3 :: u64) n \<longleftrightarrow> n = r \<or> n = r + 1"
proof -
  have "(3::u64) = 1 OR push_bit 1 1" by simp
  then have b3: "bit (3::u64) m \<longleftrightarrow> m = 0 \<or> m = 1" for m
    by (simp only: bit_or_iff bit_push_bit_iff bit_1_iff) auto
  show ?thesis unfolding bit_push_bit_iff b3 using assms by auto
qed

lemma word64_zero: "(w :: u64) \<noteq> 0 \<longleftrightarrow> (\<exists>n<64. bit w n)"
proof
  assume "w \<noteq> 0"
  then show "\<exists>n<64. bit w n" using bit_word_eqI [of w 0] by auto
qed auto

lemma pair_flagged:
  "changeFlags t (2 * k div 64) AND push_bit (2 * k mod 64) 3 \<noteq> 0 \<longleftrightarrow> flagged t (2 * k) \<or> flagged t (2 * k + 1)"
proof -
  have "2 * k mod 64 < 64" by simp
  with pair_position(3) [of k] show ?thesis
    unfolding flagged_def pair_position(1,2) word64_zero bit_and_iff bit_pair_mask [OF pair_position(3)] by blast
qed

lemma flagged_pairStep:
  "flagged (pairStep p d (2 * k) t) j \<longleftrightarrow>
     (if flagged t (2 * k) \<or> flagged t (2 * k + 1) then j = k \<or> j \<noteq> 2 * k \<and> j \<noteq> 2 * k + 1 \<and> flagged t j
      else flagged t j)"
proof (cases "flagged t (2 * k) \<or> flagged t (2 * k + 1)")
  case True
  have parent: "2 * k div 128 = k div 64" "2 * k div 2 = k" by (simp_all add: div_mult2_eq)
  define w where "w = (changeFlags t)(2 * k div 64 := changeFlags t (2 * k div 64) AND NOT (push_bit (2 * k mod 64) 3))"
  have cleared: "bit (w (j div 64)) (j mod 64) \<longleftrightarrow> j \<noteq> 2 * k \<and> j \<noteq> 2 * k + 1 \<and> flagged t j" for j
    using same_bit [of j "2 * k"] same_bit [of j "2 * k + 1"] mod_less_divisor [of 64 j]
    unfolding w_def flagged_def pair_position(1,2)
    by (auto simp: bit_and_iff bit_not_iff bit_pair_mask [OF pair_position(3)])
  let ?t1 = "(setDigest d (hashPair (digests t (p + 2 * k)) (digests t (p + 2 * k + 1))) t)\<lparr>changeFlags := w\<rparr>"
  have "pairStep p d (2 * k) t = setFlag k ?t1"
    unfolding pairStep_def word_index pair_flagged parent setFlag_def w_def if_P [OF True]
    by (simp add: Let_def setDigest_def)
  moreover have "flagged ?t1 j \<longleftrightarrow> j \<noteq> 2 * k \<and> j \<noteq> 2 * k + 1 \<and> flagged t j"
    unfolding cleared [symmetric] by (simp only: flagged_def) simp
  ultimately show ?thesis using True by simp
next
  case False
  then show ?thesis unfolding pairStep_def word_index pair_flagged by simp
qed

lemma digests_pairStep:
  "digests (pairStep p d (2 * k) t) =
     (if flagged t (2 * k) \<or> flagged t (2 * k + 1)
      then (digests t)(d := hashPair (digests t (p + 2 * k)) (digests t (p + 2 * k + 1))) else digests t)"
  unfolding pairStep_def word_index pair_flagged by (simp add: Let_def)

section \<open>One level\<close>

text \<open>
  The tree after \<open>k\<close> pairs of a level of \<open>n\<close> nodes at \<open>p\<close>, from the tree \<open>t0\<close> at its start: the
  parents of flagged pairs are rehashed, the flags below \<open>k\<close> are those of the next level, and the
  flags of the pairs already treated are clear.
\<close>

definition level_inv :: "nat \<Rightarrow> nat \<Rightarrow> digestTree \<Rightarrow> nat \<Rightarrow> digestTree \<Rightarrow> bool" where
  "level_inv p n t0 k t \<longleftrightarrow>
     (\<forall>j. flagged t j \<longleftrightarrow> (if j < k then flagged t0 (2 * j) \<or> flagged t0 (2 * j + 1)
                          else if j < 2 * k then False else flagged t0 j)) \<and>
     (\<forall>j. digests t j = (if p + n \<le> j \<and> j < p + n + k \<and>
            (flagged t0 (2 * (j - (p + n))) \<or> flagged t0 (2 * (j - (p + n)) + 1))
          then hashPair (digests t0 (p + 2 * (j - (p + n)))) (digests t0 (p + 2 * (j - (p + n)) + 1))
          else digests t0 j))"

lemma level_inv_step:
  assumes inv: "level_inv p n t0 k t" and k: "2 * k + 1 < n"
  shows "level_inv p n t0 (k + 1) (pairStep p (p + n + k) (2 * k) t)"
proof -
  have flags: "flagged t j \<longleftrightarrow> (if j < k then flagged t0 (2 * j) \<or> flagged t0 (2 * j + 1)
      else if j < 2 * k then False else flagged t0 j)" for j
    using inv by (simp add: level_inv_def)
  have digs: "digests t j = digests t0 j" if "j < p + n \<or> p + n + k \<le> j" for j
    using inv that by (auto simp: level_inv_def)
  have pair: "flagged t (2 * k) = flagged t0 (2 * k)" "flagged t (2 * k + 1) = flagged t0 (2 * k + 1)"
    using flags by simp_all
  have below: "digests t (p + 2 * k) = digests t0 (p + 2 * k)" "digests t (p + 2 * k + 1) = digests t0 (p + 2 * k + 1)"
    using k by (auto intro!: digs)
  have "flagged (pairStep p (p + n + k) (2 * k) t) j \<longleftrightarrow>
      (if j < k + 1 then flagged t0 (2 * j) \<or> flagged t0 (2 * j + 1)
       else if j < 2 * (k + 1) then False else flagged t0 j)" for j
  proof (cases "flagged t0 (2 * k) \<or> flagged t0 (2 * k + 1)")
    case True
    then show ?thesis unfolding flagged_pairStep pair flags by (cases "j = k") (auto simp: less_Suc_eq)
  next
    case False
    have "j = 2 * k \<or> j = 2 * k + 1" if "\<not> j < 2 * k" "j < 2 * (k + 1)" using that by auto
    with False show ?thesis unfolding flagged_pairStep pair flags by (cases "j = k") (auto split: if_splits)
  qed
  moreover have "digests (pairStep p (p + n + k) (2 * k) t) j = (if p + n \<le> j \<and> j < p + n + (k + 1) \<and>
            (flagged t0 (2 * (j - (p + n))) \<or> flagged t0 (2 * (j - (p + n)) + 1))
          then hashPair (digests t0 (p + 2 * (j - (p + n)))) (digests t0 (p + 2 * (j - (p + n)) + 1))
          else digests t0 j)" for j
  proof (cases "j = p + n + k")
    case True
    then show ?thesis unfolding digests_pairStep pair below using digs by simp
  next
    case False
    then have "digests (pairStep p (p + n + k) (2 * k) t) j = digests t j" by (simp add: digests_pairStep)
    moreover have "j < p + n + (k + 1) \<longleftrightarrow> j < p + n + k" using False by linarith
    ultimately show ?thesis using inv by (simp add: level_inv_def)
  qed
  ultimately show ?thesis unfolding level_inv_def by blast
qed

lemma level_inv_init: "level_inv p n t0 0 t0"
  by (auto simp: level_inv_def)

lemma levelLoop_inv:
  assumes "level_inv p (2 * m) t0 k t" and "k \<le> m"
  shows "\<exists>t'. levelLoop p (2 * m) (2 * k) (p + 2 * m + k) t = (p + 2 * m + m, t') \<and> level_inv p (2 * m) t0 m t'"
  using assms
proof (induction "m - k" arbitrary: k t)
  case 0
  then show ?case by (subst levelLoop.simps) simp
next
  case (Suc x)
  then have k: "k < m" by simp
  have "level_inv p (2 * m) t0 (k + 1) (pairStep p (p + 2 * m + k) (2 * k) t)"
    using level_inv_step [OF Suc.prems(1)] k by simp
  from Suc.hyps(1) [OF _ this] Suc.hyps(2) k show ?case
    by (subst levelLoop.simps) (simp add: add.assoc)
qed

lemma levelLoop_level:
  obtains t' where "levelLoop p (2 * m) 0 (p + 2 * m) t = (p + 2 * m + m, t')" and "level_inv p (2 * m) t m t'"
  using levelLoop_inv [OF level_inv_init, of m p t] by auto

section \<open>The tree\<close>

text \<open>
  The root by full recomputation, level by level, over \<open>2 ^ d\<close> leaves.
\<close>

primrec merkle :: "nat \<Rightarrow> (nat \<Rightarrow> m256) \<Rightarrow> m256" where
  "merkle 0 leaf = leaf 0"
| "merkle (Suc d) leaf = merkle d (\<lambda>i. hashPair (leaf (2 * i)) (leaf (2 * i + 1)))"

text \<open>
  A stored tree of depth \<open>d\<close> that begins at \<open>p\<close>: every inner node outside the paths above the
  positions in \<open>F\<close> is the hash of its two children.
\<close>

primrec tree_ok :: "nat \<Rightarrow> nat \<Rightarrow> (nat \<Rightarrow> bool) \<Rightarrow> (nat \<Rightarrow> m256) \<Rightarrow> bool" where
  "tree_ok 0 p F ds \<longleftrightarrow> True"
| "tree_ok (Suc d) p F ds \<longleftrightarrow>
     (\<forall>k<2 ^ d. \<not> F (2 * k) \<longrightarrow> \<not> F (2 * k + 1) \<longrightarrow>
        ds (p + 2 ^ Suc d + k) = hashPair (ds (p + 2 * k)) (ds (p + 2 * k + 1))) \<and>
     tree_ok d (p + 2 ^ Suc d) (\<lambda>k. F (2 * k) \<or> F (2 * k + 1)) ds"

lemma tree_ok_cong:
  assumes "\<And>k. k < 2 ^ d \<Longrightarrow> F k = G k" and "\<And>j. p \<le> j \<Longrightarrow> ds j = es j"
  shows "tree_ok d p F ds = tree_ok d p G es"
  using assms
proof (induction d arbitrary: p F G)
  case (Suc d)
  have "tree_ok d (p + 2 ^ Suc d) (\<lambda>k. F (2 * k) \<or> F (2 * k + 1)) ds
      = tree_ok d (p + 2 ^ Suc d) (\<lambda>k. G (2 * k) \<or> G (2 * k + 1)) es"
    using Suc.prems by (intro Suc.IH) auto
  then show ?case using Suc.prems by simp
qed simp

text \<open>Replacing leaves at positions in \<open>F\<close> is allowed.\<close>

lemma tree_ok_change:
  assumes ok: "tree_ok d p F ds" and leaf: "\<And>k. k < 2 ^ d \<Longrightarrow> \<not> F k \<Longrightarrow> es (p + k) = ds (p + k)"
    and above: "\<And>j. p + 2 ^ d \<le> j \<Longrightarrow> es j = ds j"
  shows "tree_ok d p F es"
proof (cases d)
  case (Suc e)
  have "tree_ok e (p + 2 ^ Suc e) (\<lambda>k. F (2 * k) \<or> F (2 * k + 1)) es
      = tree_ok e (p + 2 ^ Suc e) (\<lambda>k. F (2 * k) \<or> F (2 * k + 1)) ds"
    using above Suc by (intro tree_ok_cong) auto
  moreover have "es (p + 2 * k) = ds (p + 2 * k)" "es (p + 2 * k + 1) = ds (p + 2 * k + 1)"
    if "k < 2 ^ e" "\<not> F (2 * k)" "\<not> F (2 * k + 1)" for k
    using leaf [of "2 * k"] leaf [of "2 * k + 1"] that Suc by auto
  ultimately show ?thesis using ok above by (simp add: Suc)
qed simp

lemma tree_ok_mono:
  assumes "tree_ok d p F ds" and "\<And>k. F k \<Longrightarrow> G k"
  shows "tree_ok d p G ds"
  using assms
proof (induction d arbitrary: p F G)
  case (Suc d)
  have "tree_ok d (p + 2 ^ Suc d) (\<lambda>k. G (2 * k) \<or> G (2 * k + 1)) ds"
    by (rule Suc.IH [of _ "\<lambda>k. F (2 * k) \<or> F (2 * k + 1)"]) (use Suc.prems in auto)
  moreover have "\<not> F (2 * k) \<and> \<not> F (2 * k + 1)" if "\<not> G (2 * k)" "\<not> G (2 * k + 1)" for k
    using Suc.prems(2) that by blast
  ultimately show ?case using Suc.prems(1) by simp
qed simp

lemma tree_ok_all: "(\<And>k. k < 2 ^ d \<Longrightarrow> F k) \<Longrightarrow> tree_ok d p F ds"
  by (induction d arbitrary: p F) simp_all

lemma merkle_root:
  assumes "tree_ok d p (\<lambda>_. False) ds" and "\<And>k. k < 2 ^ d \<Longrightarrow> ds (p + k) = leaf k"
  shows "ds (p + 2 ^ d * 2 - 2) = merkle d leaf"
  using assms
proof (induction d arbitrary: p leaf)
  case (Suc d)
  have "ds ((p + 2 ^ Suc d) + 2 ^ d * 2 - 2) = merkle d (\<lambda>i. hashPair (leaf (2 * i)) (leaf (2 * i + 1)))"
    using Suc.prems(1) Suc.prems(2) [of "2 * _"] Suc.prems(2) [of "2 * _ + 1"] by (intro Suc.IH) simp_all
  then show ?case by (simp add: algebra_simps)
qed simp

text \<open>The loop over the levels makes the tree whole, keeps what is below it and clears the flags.\<close>

lemma level_tree:
  assumes ok: "tree_ok (Suc d) p (flagged t) (digests t)" and lv: "level_inv p (2 * 2 ^ d) t (2 ^ d) t1"
  shows "tree_ok d (p + 2 ^ Suc d) (flagged t1) (digests t1)"
    and "\<And>k. k < 2 ^ d \<Longrightarrow>
      digests t1 (p + 2 ^ Suc d + k) = hashPair (digests t (p + 2 * k)) (digests t (p + 2 * k + 1))"
    and "\<And>j. j < p + 2 ^ Suc d \<Longrightarrow> digests t1 j = digests t j"
    and "\<And>j. 2 ^ d \<le> j \<Longrightarrow> flagged t1 j \<Longrightarrow> 2 ^ Suc d \<le> j \<and> flagged t j"
proof -
  let ?F = "\<lambda>k. flagged t (2 * k) \<or> flagged t (2 * k + 1)"
  have fl: "flagged t1 j = ?F j" if "j < 2 ^ d" for j using lv that by (simp add: level_inv_def)
  have dg: "digests t1 j = digests t j" if "j < p + 2 ^ Suc d \<or> p + 2 ^ Suc d + 2 ^ d \<le> j" for j
    using lv that by (auto simp: level_inv_def)
  have parent: "digests t1 (p + 2 ^ Suc d + k) = (if ?F k then hashPair (digests t (p + 2 * k)) (digests t (p + 2 * k + 1))
      else digests t (p + 2 ^ Suc d + k))" if "k < 2 ^ d" for k
    using lv that by (simp add: level_inv_def)
  have "tree_ok d (p + 2 ^ Suc d) ?F (digests t1)"
    by (rule tree_ok_change [of _ _ _ "digests t"]) (use ok parent dg in auto)
  then show "tree_ok d (p + 2 ^ Suc d) (flagged t1) (digests t1)"
    using tree_ok_cong [of d "flagged t1" ?F "p + 2 ^ Suc d" "digests t1" "digests t1"] fl by blast
  show "digests t1 (p + 2 ^ Suc d + k) = hashPair (digests t (p + 2 * k)) (digests t (p + 2 * k + 1))" if "k < 2 ^ d" for k
    using parent [OF that] ok that by simp
  show "digests t1 j = digests t j" if "j < p + 2 ^ Suc d" for j using dg that by blast
  show "2 ^ Suc d \<le> j \<and> flagged t j" if "2 ^ d \<le> j" "flagged t1 j" for j
    using lv that by (auto simp: level_inv_def split: if_splits)
qed

lemma treeLoop_tree:
  assumes "tree_ok d p (flagged t) (digests t)"
  shows "tree_ok d p (\<lambda>_. False) (digests (treeLoop p (2 ^ d) (p + 2 ^ d) t)) \<and>
     (\<forall>j<p + 2 ^ d. digests (treeLoop p (2 ^ d) (p + 2 ^ d) t) j = digests t j) \<and>
     (\<forall>j>0. flagged (treeLoop p (2 ^ d) (p + 2 ^ d) t) j \<longrightarrow> 2 ^ d \<le> j \<and> flagged t j)"
  using assms
proof (induction d arbitrary: p t)
  case 0
  then show ?case by (simp add: treeLoop.simps)
next
  case (Suc d)
  obtain t1 where run: "levelLoop p (2 * 2 ^ d) 0 (p + 2 * 2 ^ d) t = (p + 2 * 2 ^ d + 2 ^ d, t1)"
    and lv: "level_inv p (2 * 2 ^ d) t (2 ^ d) t1" by (rule levelLoop_level)
  note L = level_tree [OF Suc.prems lv]
  define q where "q = p + 2 ^ Suc d"
  have whole: "treeLoop p (2 ^ Suc d) (p + 2 ^ Suc d) t = treeLoop q (2 ^ d) (q + 2 ^ d) t1"
  proof -
    have "(1::nat) \<le> 2 ^ d" by simp
    then have "1 < 2 * (2::nat) ^ d" by linarith
    with run show ?thesis by (subst treeLoop.simps) (simp add: q_def)
  qed
  note IH = Suc.IH [OF L(1), folded q_def]
  show ?case unfolding whole using IH L by (auto simp: q_def)
qed
section \<open>The two digests\<close>

text \<open>The stored tree over the leaves \<open>leaf\<close>, with no change pending.\<close>

definition tree_of :: "nat \<Rightarrow> (nat \<Rightarrow> m256) \<Rightarrow> digestTree \<Rightarrow> bool" where
  "tree_of d leaf t \<longleftrightarrow> (\<forall>k<2 ^ d. digests t k = leaf k) \<and> tree_ok d 0 (\<lambda>_. False) (digests t) \<and>
     (\<forall>j<2 ^ d. \<not> flagged t j)"

lemma tree_of_root: "tree_of d leaf t \<Longrightarrow> digests t (2 ^ d * 2 - 1 - 1) = merkle d leaf"
  using merkle_root [of d 0 "digests t" leaf] by (simp add: tree_of_def numeral_2_eq_2)

lemma flagged_clearFirstWord: "flagged (clearFirstWord t) j \<longleftrightarrow> 64 \<le> j \<and> flagged t j"
  by (auto simp: flagged_def clearFirstWord_def)

text \<open>
  What the two leaf passes have in common: a slot chosen by \<open>renew\<close> gets its digest and its flag,
  the others keep theirs.
\<close>

locale leaf_pass =
  fixes step :: "nat \<Rightarrow> digestTree \<Rightarrow> digestTree" and renew :: "digestTree \<Rightarrow> nat \<Rightarrow> bool" and leaf :: "nat \<Rightarrow> m256"
  assumes step_digests: "digests (step i t) = (if renew t i then (digests t)(i := leaf i) else digests t)"
    and step_flags: "flagged (step i t) j \<longleftrightarrow> flagged t j \<or> j = i \<and> renew t i"
    and step_renew: "renew (step i t) j \<longleftrightarrow> renew t j"
begin

lemma pass_fields:
  "renew (fold step [0..<n] t) j \<longleftrightarrow> renew t j"
  "digests (fold step [0..<n] t) j = (if j < n \<and> renew t j then leaf j else digests t j)"
  "flagged (fold step [0..<n] t) j \<longleftrightarrow> flagged t j \<or> j < n \<and> renew t j"
proof (induction n)
  case (Suc n)
  {
    case 1
    then show ?case using Suc.IH by (simp add: step_renew)
  next
    case 2
    then show ?case using Suc.IH by (auto simp: step_digests less_Suc_eq)
  next
    case 3
    then show ?case using Suc.IH by (auto simp: step_flags less_Suc_eq)
  }
qed simp_all

lemma pass_rebuilds:
  assumes stale: "tree_ok d 0 (renew t) (digests t)"
    and kept: "\<And>i. i < 2 ^ d \<Longrightarrow> \<not> renew t i \<Longrightarrow> digests t i = leaf i"
    and flags: "\<And>i. i < 2 ^ d \<Longrightarrow> flagged t i \<Longrightarrow> renew t i"
  shows "tree_of d leaf (clearFirstWord (treeLoop 0 (2 ^ d) (2 ^ d) (fold step [0..<2 ^ d] t)))"
proof -
  let ?s = "fold step [0..<2 ^ d] t"
  have fl: "flagged ?s j \<longleftrightarrow> renew t j" if "j < 2 ^ d" for j using flags that by (auto simp: pass_fields)
  have dg: "digests ?s j = leaf j" if "j < 2 ^ d" for j using kept that by (simp add: pass_fields)
  have "tree_ok d 0 (renew t) (digests ?s)"
    by (rule tree_ok_change [OF stale]) (simp_all add: pass_fields)
  then have "tree_ok d 0 (flagged ?s) (digests ?s)"
    using tree_ok_cong [of d "flagged ?s" "renew t" 0 "digests ?s" "digests ?s"] fl by simp
  from treeLoop_tree [OF this] have whole: "tree_ok d 0 (\<lambda>_. False) (digests (treeLoop 0 (2 ^ d) (2 ^ d) ?s))"
    and low: "\<And>j. j < 2 ^ d \<Longrightarrow> digests (treeLoop 0 (2 ^ d) (2 ^ d) ?s) j = digests ?s j"
    and clear: "\<And>j. 0 < j \<Longrightarrow> flagged (treeLoop 0 (2 ^ d) (2 ^ d) ?s) j \<Longrightarrow> 2 ^ d \<le> j" by simp_all
  show ?thesis unfolding tree_of_def flagged_clearFirstWord setters
  proof (intro conjI allI impI notI)
    fix j :: nat
    assume "j < 2 ^ d" "64 \<le> j \<and> flagged (treeLoop 0 (2 ^ d) (2 ^ d) ?s) j"
    then show False using clear [of j] by simp
  qed (simp_all add: whole low dg)
qed

end

interpretation spectrumPass: leaf_pass "spectrumLeaf tickStart tickEnd sp"
  "\<lambda>_ i. tickStart = UINT32_MAX \<or> touched tickStart tickEnd (sp i)" "\<lambda>i. entityDigest (sp i)" for tickStart tickEnd sp
  by unfold_locales (auto simp: spectrumLeaf_def)

lemma flag_test: "changeFlags t (i div 64) AND push_bit (i mod 64) 1 \<noteq> 0 \<longleftrightarrow> flagged t i"
proof -
  have "bit (push_bit (i mod 64) 1 :: u64) n \<longleftrightarrow> n = i mod 64" for n by (auto simp: bit_simps)
  then show ?thesis unfolding flagged_def word64_zero bit_and_iff using mod_less_divisor [of 64 i] by auto
qed

lemma universeLeaf_eq:
  "universeLeaf tickStart as i t =
     (if tickStart = UINT32_MAX then setFlag i (setDigest i (assetDigest (as i)) t)
      else if flagged t i then setDigest i (assetDigest (as i)) t else t)"
  unfolding universeLeaf_def word_index flag_test by simp

interpretation universePass: leaf_pass "universeLeaf tickStart as"
  "\<lambda>t i. tickStart = UINT32_MAX \<or> flagged t i" "\<lambda>i. assetDigest (as i)" for tickStart as
  by unfold_locales (auto simp: universeLeaf_eq)

lemma tree_of_stale: "tree_of d leaf t \<Longrightarrow> tree_ok d 0 F (digests t)"
  using tree_ok_mono [of d 0 "\<lambda>_. False" "digests t" F] by (simp add: tree_of_def)

lemma tree_of_update:
  assumes "(\<forall>i<2 ^ d. R i) \<or> tree_of d old t \<and> (\<forall>i<2 ^ d. R i \<or> new i = old i)"
  shows "tree_ok d 0 R (digests t)" and "\<And>i. i < 2 ^ d \<Longrightarrow> \<not> R i \<Longrightarrow> digests t i = new i"
proof -
  show "tree_ok d 0 R (digests t)" using assms tree_of_stale tree_ok_all by blast
  show "digests t i = new i" if "i < 2 ^ d" "\<not> R i" for i using assms that by (auto simp: tree_of_def)
qed

lemma computeSpectrumDigest_tree:
  assumes "tree_of SPECTRUM_DEPTH (\<lambda>i. entityDigest (sp0 i)) t"
    and "\<And>i. i < SPECTRUM_CAPACITY \<Longrightarrow> touched tickStart tickEnd (sp i) \<or> sp i = sp0 i"
  shows "tree_of SPECTRUM_DEPTH (\<lambda>i. entityDigest (sp i)) (computeSpectrumDigest tickStart tickEnd sp t)"
proof -
  let ?R = "\<lambda>i. tickStart = UINT32_MAX \<or> touched tickStart tickEnd (sp i)"
  have "(\<forall>i<2 ^ SPECTRUM_DEPTH. ?R i) \<or> tree_of SPECTRUM_DEPTH (\<lambda>i. entityDigest (sp0 i)) t \<and>
      (\<forall>i<2 ^ SPECTRUM_DEPTH. ?R i \<or> entityDigest (sp i) = entityDigest (sp0 i))"
    using assms unfolding SPECTRUM_CAPACITY_pow2 by metis
  note U = tree_of_update [OF this]
  show ?thesis unfolding computeSpectrumDigest_def SPECTRUM_CAPACITY_pow2
    by (rule spectrumPass.pass_rebuilds [OF U]) (use assms(1) in \<open>simp_all add: tree_of_def\<close>)
qed

section \<open>Pending changes\<close>

text \<open>
  The incremental update is right because the ledgers leave a trace of every change: an energy
  operation stamps the tick into the record, and an asset operation sets the flag of the slot.
\<close>

inductive energyRun :: "u32 \<Rightarrow> u32 \<Rightarrow> spectrum \<Rightarrow> spectrum \<Rightarrow> bool" for tickStart tickEnd sp0 where
  start: "energyRun tickStart tickEnd sp0 sp0"
| credit: "energyRun tickStart tickEnd sp0 sp \<Longrightarrow> tickStart \<le> tick \<Longrightarrow> tick \<le> tickEnd \<Longrightarrow>
    increaseEnergy pk n tick sp = Inr sp' \<Longrightarrow> energyRun tickStart tickEnd sp0 sp'"
| debit: "energyRun tickStart tickEnd sp0 sp \<Longrightarrow> tickStart \<le> tick \<Longrightarrow> tick \<le> tickEnd \<Longrightarrow>
    decreaseEnergy i n tick sp = (done, sp') \<Longrightarrow> energyRun tickStart tickEnd sp0 sp'"

lemma increaseEnergy_stamps:
  assumes "increaseEnergy pk n tick sp = Inr sp'"
  shows "sp' i = sp i \<or> latestIncomingTransferTick (sp' i) = tick"
  using assms by (auto simp: increaseEnergy_def bind_result_Inr_iff split: if_splits)

lemma decreaseEnergy_stamps:
  assumes "decreaseEnergy k n tick sp = (b, sp')"
  shows "sp' i = sp i \<or> latestOutgoingTransferTick (sp' i) = tick"
  using assms by (auto simp: decreaseEnergy_def split: if_splits)

lemma energyRun_touched:
  assumes "energyRun tickStart tickEnd sp0 sp"
  shows "touched tickStart tickEnd (sp i) \<or> sp i = sp0 i"
  using assms
proof (induction rule: energyRun.induct)
  case (credit sp tick pk n sp')
  then show ?case using increaseEnergy_stamps [OF credit(4), of i] by (auto simp: touched_def)
next
  case (debit sp tick k n b sp')
  then show ?case using decreaseEnergy_stamps [OF debit(4), of i] by (auto simp: touched_def)
qed simp

definition assetTree :: "universe \<Rightarrow> (nat \<Rightarrow> m256) \<Rightarrow> digestTree" where
  "assetTree u ds = \<lparr>digests = ds, changeFlags = assetChangeFlags u\<rparr>"

definition assetFlagged :: "universe \<Rightarrow> nat \<Rightarrow> bool" where
  "assetFlagged u i \<longleftrightarrow> bit (assetChangeFlags u (i div 64)) (i mod 64)"

lemma flagged_assetTree [simp]: "flagged (assetTree u ds) = assetFlagged u" "digests (assetTree u ds) = ds"
  by (simp_all add: fun_eq_iff flagged_def assetFlagged_def assetTree_def)

lemma asset_writes [simp]:
  "assetFlagged (setAsset i r u) = assetFlagged u"
  "assetFlagged (markChanged i u) j \<longleftrightarrow> j = i \<or> assetFlagged u j"
proof -
  have "flagged (setFlag i (assetTree u (\<lambda>_. 0))) j \<longleftrightarrow> assetFlagged (markChanged i u) j"
    by (simp add: flagged_def assetFlagged_def setFlag_def markChanged_def assetTree_def)
  then show "assetFlagged (markChanged i u) j \<longleftrightarrow> j = i \<or> assetFlagged u j" by simp
qed (simp_all add: fun_eq_iff setAsset_def markChanged_def assetFlagged_def)

definition marked :: "universe \<Rightarrow> universe \<Rightarrow> bool" where
  "marked u u' \<longleftrightarrow> (\<forall>i<ASSETS_CAPACITY. assetFlagged u' i \<or> \<not> assetFlagged u i \<and> assets u' i = assets u i)"

lemma marked_refl: "marked u u" and marked_trans: "marked u v \<Longrightarrow> marked v w \<Longrightarrow> marked u w"
  unfolding marked_def by blast metis

lemma marked_three:
  "marked u (markChanged c (markChanged b (markChanged a (setAsset c z (setAsset b y (setAsset a x u))))))"
  by (simp add: marked_def)

lemma issueAsset_marks:
  assumes "issueAsset issuer nm decimals unit shares managing u = Inr (r, i, ix, u')"
  shows "marked u u'"
proof -
  obtain a where a: "(if assetType (assets u a) = EMPTY then
      (\<exists>b c x y z. u' = markChanged c (markChanged b (markChanged a (setAsset c z (setAsset b y (setAsset a x u))))))
      else u' = u)"
    using assms unfolding issueAsset_def Let_def bind_result_Inr_iff
    by (force simp: bind_result_Inr_iff split: if_splits simp del: assets_setAsset)
  then show ?thesis by (auto simp: marked_refl marked_three split: if_splits)
qed

lemma moveShares_marks: "moveShares srcO srcP owner ownerMc possessor possMc n u = Inr (dO, dP, u') \<Longrightarrow> marked u u'"
  by (auto simp: moveShares_def Let_def marked_def addShares_def bind_result_Inr_iff)

lemma transfer_marks: "transferShareOwnershipAndPossession srcO srcP dst n u = Inr (b, u') \<Longrightarrow> marked u u'"
  by (auto simp: transferShareOwnershipAndPossession_def bind_result_Inr_iff marked_refl dest: moveShares_marks split: if_splits)
     (auto simp: marked_def addShares_def)

lemma managementRights_marks: "transferShareManagementRights srcO srcP mO mP n u = Inr (b, ix, u') \<Longrightarrow> marked u u'"
  by (auto simp: transferShareManagementRights_def bind_result_Inr_iff marked_refl dest: moveShares_marks split: if_splits)

lemma assetsEndEpoch_marks: "assetsEndEpoch u = Inr u' \<Longrightarrow> marked u u'"
proof -
  have "bit (0xFFFFFFFFFFFFFFFF :: u64) (i mod 64)" for i :: nat
    using mask_eq_exp_minus_1 [of 64, where ?'a = u64] bit_mask_iff [of 64 "i mod 64", where ?'a = u64] by simp
  moreover have "i div 64 < ASSETS_CAPACITY div 64" if "i < ASSETS_CAPACITY" for i
    using that by (simp add: ASSETS_CAPACITY_def)
  ultimately show "assetsEndEpoch u = Inr u' \<Longrightarrow> marked u u'"
    by (auto simp: assetsEndEpoch_def bind_result_Inr_iff marked_def assetFlagged_def simp del: upt_conv_Cons)
qed

text \<open>Runs of the operations of the asset ledger.\<close>

inductive assetRun :: "universe \<Rightarrow> universe \<Rightarrow> bool" for u0 where
  initial: "assetRun u0 u0"
| issue: "assetRun u0 u \<Longrightarrow> issueAsset issuer nm decimals unit shares managing u = Inr (r, i, ix, u') \<Longrightarrow> assetRun u0 u'"
| transfer: "assetRun u0 u \<Longrightarrow> transferShareOwnershipAndPossession srcO srcP dst n u = Inr (b, u') \<Longrightarrow> assetRun u0 u'"
| rights: "assetRun u0 u \<Longrightarrow> transferShareManagementRights srcO srcP mO mP n u = Inr (b, ix, u') \<Longrightarrow> assetRun u0 u'"
| endEpoch: "assetRun u0 u \<Longrightarrow> assetsEndEpoch u = Inr u' \<Longrightarrow> assetRun u0 u'"

lemma assetRun_marked: "assetRun u0 u \<Longrightarrow> marked u0 u"
  by (induction rule: assetRun.induct)
    (blast intro: marked_refl marked_trans issueAsset_marks transfer_marks managementRights_marks assetsEndEpoch_marks)+

lemma getUniverseDigest_tree:
  assumes "tickStart = UINT32_MAX \<or>
      tree_of ASSETS_DEPTH (\<lambda>i. assetDigest (assets u0 i)) (assetTree u0 ds) \<and> marked u0 u"
  obtains root u' ds' where "getUniverseDigest tickStart u ds = (root, u', ds')" and "assets u' = assets u"
    and "root = merkle ASSETS_DEPTH (\<lambda>i. assetDigest (assets u i))"
    and "tree_of ASSETS_DEPTH (\<lambda>i. assetDigest (assets u i)) (assetTree u' ds')"
proof -
  let ?leaf = "\<lambda>i. assetDigest (assets u i)" and ?R = "\<lambda>i. tickStart = UINT32_MAX \<or> assetFlagged u i"
  let ?t = "clearFirstWord (treeLoop 0 ASSETS_CAPACITY ASSETS_CAPACITY
                (fold (universeLeaf tickStart (assets u)) [0..<ASSETS_CAPACITY] (assetTree u ds)))"
  have "(\<forall>i<2 ^ ASSETS_DEPTH. ?R i) \<or> tree_of ASSETS_DEPTH (\<lambda>i. assetDigest (assets u0 i)) (assetTree u0 ds) \<and>
      (\<forall>i<2 ^ ASSETS_DEPTH. ?R i \<or> ?leaf i = assetDigest (assets u0 i))"
    using assms unfolding marked_def ASSETS_CAPACITY_pow2 by metis
  note U = tree_of_update [OF this, unfolded flagged_assetTree]
  have tree: "tree_of ASSETS_DEPTH ?leaf ?t" unfolding ASSETS_CAPACITY_pow2
    by (rule universePass.pass_rebuilds) (use U in simp_all)
  have "getUniverseDigest tickStart u ds =
      (digests ?t (ASSETS_CAPACITY * 2 - 1 - 1), u\<lparr>assetChangeFlags := changeFlags ?t\<rparr>, digests ?t)"
    unfolding getUniverseDigest_def assetTree_def Let_def ..
  moreover have "digests ?t (ASSETS_CAPACITY * 2 - 1 - 1) = merkle ASSETS_DEPTH ?leaf"
    using tree_of_root [OF tree] by (simp add: ASSETS_CAPACITY_pow2)
  moreover have "assetTree (u\<lparr>assetChangeFlags := changeFlags ?t\<rparr>) (digests ?t) = ?t"
    by (simp add: assetTree_def)
  ultimately show thesis using tree that by simp
qed

text \<open>A full pass needs nothing of the stored tree.\<close>

lemma computeSpectrumDigest_full:
  "tree_of SPECTRUM_DEPTH (\<lambda>i. entityDigest (sp i)) (computeSpectrumDigest UINT32_MAX tickEnd sp t)"
  unfolding computeSpectrumDigest_def SPECTRUM_CAPACITY_pow2
  by (rule spectrumPass.pass_rebuilds) (simp_all add: tree_ok_all)

lemma spectrum_root:
  "tree_of SPECTRUM_DEPTH leaf t \<Longrightarrow> digests t (SPECTRUM_CAPACITY * 2 - 1 - 1) = merkle SPECTRUM_DEPTH leaf"
  using tree_of_root [of SPECTRUM_DEPTH leaf t] by (simp add: SPECTRUM_CAPACITY_pow2)

definition demoTree :: digestTree where
  "demoTree = computeSpectrumDigest UINT32_MAX UINT32_MAX demoSpectrum \<lparr>digests = (\<lambda>_. 0), changeFlags = (\<lambda>_. 0)\<rparr>"

definition burntRecord :: "nat \<Rightarrow> AssetRecord" where
  "burntRecord i = (assets demoUniverse i)\<lparr>numberOfShares := numberOfShares (assets demoUniverse i) - 1\<rparr>"

section \<open>Properties\<close>

text \<open>
  Claim C11. The incremental spectrum digest is right: from a stored tree that belongs to an earlier
  spectrum, after any run of credits and debits whose ticks lie in the range of the batch, hashing
  only the slots whose latest transfer tick is in the range and the nodes above flagged children
  gives the tree of the current spectrum: all leaves and inner nodes are current, no flag is left,
  and the root is the root that a full pass computes from any stored tree at all.
\<close>

theorem computeSpectrumDigest_incremental:
  assumes "tree_of SPECTRUM_DEPTH (\<lambda>i. entityDigest (sp0 i)) t" and "energyRun tickStart tickEnd sp0 sp"
  shows "tree_of SPECTRUM_DEPTH (\<lambda>i. entityDigest (sp i)) (computeSpectrumDigest tickStart tickEnd sp t) \<and>
    digests (computeSpectrumDigest tickStart tickEnd sp t) (SPECTRUM_CAPACITY * 2 - 1 - 1) =
      merkle SPECTRUM_DEPTH (\<lambda>i. entityDigest (sp i)) \<and>
    digests (computeSpectrumDigest UINT32_MAX UINT32_MAX sp stored) (SPECTRUM_CAPACITY * 2 - 1 - 1) =
      merkle SPECTRUM_DEPTH (\<lambda>i. entityDigest (sp i))"
proof -
  have "tree_of SPECTRUM_DEPTH (\<lambda>i. entityDigest (sp i)) (computeSpectrumDigest tickStart tickEnd sp t)"
    by (rule computeSpectrumDigest_tree [OF assms(1)]) (rule energyRun_touched [OF assms(2)])
  then show ?thesis using spectrum_root computeSpectrumDigest_full by blast
qed

theorem computeSpectrumDigest_incremental_witness:
  "digests (computeSpectrumDigest 10 20 (snd (decreaseEnergy 5 3 15 demoSpectrum)) demoTree)
     (SPECTRUM_CAPACITY * 2 - 1 - 1) =
   merkle SPECTRUM_DEPTH (\<lambda>i. entityDigest (snd (decreaseEnergy 5 3 15 demoSpectrum) i))"
proof -
  have "energyRun 10 20 demoSpectrum (snd (decreaseEnergy 5 3 15 demoSpectrum))"
    by (rule energyRun.debit [OF energyRun.start, of 10 15]) (simp_all add: prod_eq_iff)
  then show ?thesis
    using computeSpectrumDigest_incremental [OF computeSpectrumDigest_full, folded demoTree_def] unfolding demoTree_def by blast
qed

text \<open>
  Claim C12. The incremental universe digest is right: from a stored tree of an earlier universe,
  after any run of issuances, transfers, management transfers and epoch rebuilds, rehashing only the
  slots whose change flag is set returns the root of a full recomputation over all asset records;
  the stored tree is then that of the current universe, no flag is left and no record is changed.
  With the full-pass marker as the first tick nothing is needed of the stored tree.
\<close>

theorem getUniverseDigest_incremental:
  assumes "tickStart = UINT32_MAX \<or>
    tree_of ASSETS_DEPTH (\<lambda>i. assetDigest (assets u0 i)) (assetTree u0 ds) \<and> assetRun u0 u"
  shows "\<exists>u' ds'. getUniverseDigest tickStart u ds =
      (merkle ASSETS_DEPTH (\<lambda>i. assetDigest (assets u i)), u', ds') \<and> assets u' = assets u \<and>
      tree_of ASSETS_DEPTH (\<lambda>i. assetDigest (assets u i)) (assetTree u' ds')"
  using getUniverseDigest_tree [of tickStart u0 ds u] assetRun_marked assms by metis

theorem getUniverseDigest_incremental_witness:
  "\<exists>u ds u' ds'. getUniverseDigest 7 u ds =
     (merkle ASSETS_DEPTH (\<lambda>i. assetDigest (assets u i)), u', ds') \<and>
     assets u = (assets demoUniverse)(6 := burntRecord 6, 7 := burntRecord 7)"
proof -
  obtain u ds where full: "assets u = assets demoUniverse"
    "tree_of ASSETS_DEPTH (\<lambda>i. assetDigest (assets demoUniverse i)) (assetTree u ds)"
    using getUniverseDigest_incremental [of UINT32_MAX demoUniverse "\<lambda>_. 0" demoUniverse] by blast
  define v where "v = markChanged 7 (markChanged 6 (addShares 7 (- 1) (addShares 6 (- 1) u)))"
  have burn: "transferShareOwnershipAndPossession 6 7 0 1 u = Inr (True, v)"
    by (simp add: transferShareOwnershipAndPossession_def sourceCheck_def inTable_def full(1) demoUniverse_def v_def
        ASSETS_CAPACITY_def zeroAsset_def issuanceRecord_def creditRecord_def setIssuanceName_def)
  have "assets v = (assets demoUniverse)(6 := burntRecord 6, 7 := burntRecord 7)"
    by (simp add: v_def addShares_def full(1) burntRecord_def)
  moreover have "assetRun u v" by (rule assetRun.transfer [OF assetRun.initial burn])
  with getUniverseDigest_incremental [of 7 u ds v] full(2) have "\<exists>u' ds'. getUniverseDigest 7 v ds =
      (merkle ASSETS_DEPTH (\<lambda>i. assetDigest (assets v i)), u', ds')" unfolding full(1) by blast
  ultimately show ?thesis by blast
qed

end
