(* ===== verification/Field1271.thy ===== *)
theory Field1271
  imports BobPrelude "HOL-Library.Numeral_Type"
begin

text \<open>
  The field arithmetic of FourQ in \<open>K12AndKeyUtil.h\<close>: GF(p) for \<open>p = 2^127 - 1\<close> on two 64-bit limbs
  with carry chains, and its quadratic extension. The specification is the ring of the integers
  modulo \<open>p\<close>, taken from the library as a numeral type, and pairs over it. A limb pair is reduced when
  its top bit is clear; zero then has the two representations 0 and \<open>p\<close>.
\<close>

section \<open>The code\<close>

type_synonym felm_t = "u64 \<times> u64"
type_synonym f2elm_t = "felm_t \<times> felm_t"

text \<open>The carry intrinsics: the flag and the wrapped sum or difference.\<close>

definition addcarry_u64 :: "bool \<Rightarrow> u64 \<Rightarrow> u64 \<Rightarrow> bool \<times> u64" where
  "addcarry_u64 c a b = (2 ^ 64 \<le> unat a + unat b + of_bool c, a + b + of_bool c)"

definition subborrow_u64 :: "bool \<Rightarrow> u64 \<Rightarrow> u64 \<Rightarrow> bool \<times> u64" where
  "subborrow_u64 c a b = (unat a < unat b + of_bool c, a - b - of_bool c)"

text \<open>Their replacements on a machine without the intrinsics.\<close>

definition subborrow_aarch64 :: "bool \<Rightarrow> u64 \<Rightarrow> u64 \<Rightarrow> bool \<times> u64" where
  "subborrow_aarch64 c src1 src2 =
     (src1 < src2 + (if c then 1 else 0), src1 - (src2 + (if c then 1 else 0)))"

definition addcarry_aarch64 :: "bool \<Rightarrow> u64 \<Rightarrow> u64 \<Rightarrow> bool \<times> u64" where
  "addcarry_aarch64 c src1 src2 =
     (0xFFFFFFFFFFFFFFFF - src1 < src2 + (if c then 1 else 0), src1 + (src2 + (if c then 1 else 0)))"

text \<open>The nested calls over two limbs.\<close>

definition add2 :: "felm_t \<Rightarrow> felm_t \<Rightarrow> felm_t" where
  "add2 a b =
     (let (c, s0) = addcarry_u64 False (fst a) (fst b); (_, s1) = addcarry_u64 c (snd a) (snd b) in (s0, s1))"

definition sub2 :: "felm_t \<Rightarrow> felm_t \<Rightarrow> felm_t" where
  "sub2 a b =
     (let (c, s0) = subborrow_u64 False (fst a) (fst b); (_, s1) = subborrow_u64 c (snd a) (snd b) in (s0, s1))"

definition mod1271 :: "felm_t \<Rightarrow> felm_t" where
  "mod1271 a =
     (let a = sub2 a (0xFFFFFFFFFFFFFFFF, 0x7FFFFFFFFFFFFFFF);
          mask = 0 - drop_bit 63 (snd a)
      in add2 a (mask, 0x7FFFFFFFFFFFFFFF AND mask))"

definition fpadd1271 :: "felm_t \<Rightarrow> felm_t \<Rightarrow> felm_t" where
  "fpadd1271 a b =
     (let c = add2 a b in add2 (fst c, snd c AND 0x7FFFFFFFFFFFFFFF) (drop_bit 63 (snd c), 0))"

definition fpsub1271 :: "felm_t \<Rightarrow> felm_t \<Rightarrow> felm_t" where
  "fpsub1271 a b =
     (let c = sub2 a b in sub2 (fst c, snd c AND 0x7FFFFFFFFFFFFFFF) (drop_bit 63 (snd c), 0))"

definition fpneg1271 :: "felm_t \<Rightarrow> felm_t" where
  "fpneg1271 a = (NOT (fst a), 0x7FFFFFFFFFFFFFFF - snd a)"

text \<open>The low and the high word of the product.\<close>

definition umul128 :: "u64 \<Rightarrow> u64 \<Rightarrow> u64 \<times> u64" where
  "umul128 a b = (let v = ucast a * ucast b :: 128 word in (ucast v, ucast (drop_bit 64 v)))"

definition shiftleft128 :: "u64 \<Rightarrow> u64 \<Rightarrow> nat \<Rightarrow> u64" where
  "shiftleft128 low high s = push_bit s high OR drop_bit (64 - s) low"

definition shiftright128 :: "u64 \<Rightarrow> u64 \<Rightarrow> nat \<Rightarrow> u64" where
  "shiftright128 low high s = drop_bit s low OR push_bit (64 - s) high"

text \<open>The second half of both multiplications: from the low limb and the middle words, with \<open>a1\<close>, \<open>b1\<close> the high limbs.\<close>

definition fpreduce1271 :: "u64 \<Rightarrow> felm_t \<Rightarrow> u64 \<Rightarrow> u64 \<Rightarrow> felm_t" where
  "fpreduce1271 tt1_0 tt2 a1 b1 =
     (let (tt3_0, tt3_1) = umul128 a1 b1;
          tt3_1 = shiftleft128 tt3_0 tt3_1 1;
          tt3 = add2 (shiftright128 (fst tt2) (snd tt2) 63, drop_bit 63 (snd tt2)) (push_bit 1 tt3_0, tt3_1);
          tt1 = add2 (tt1_0, fst tt2 AND 0x7FFFFFFFFFFFFFFF) tt3
      in add2 (fst tt1, snd tt1 AND 0x7FFFFFFFFFFFFFFF) (drop_bit 63 (snd tt1), 0))"

definition fpmul1271 :: "felm_t \<Rightarrow> felm_t \<Rightarrow> felm_t" where
  "fpmul1271 a b =
     (let (tt1_0, tt3_0) = umul128 (fst a) (fst b);
          tt2 = umul128 (fst a) (snd b);
          tt2 = add2 tt2 (tt3_0, 0);
          tt3 = umul128 (snd a) (fst b);
          tt2 = add2 tt2 tt3
      in fpreduce1271 tt1_0 tt2 (snd a) (snd b))"

definition fpsqr1271 :: "felm_t \<Rightarrow> felm_t" where
  "fpsqr1271 a =
     (let (tt1_0, tt3_0) = umul128 (fst a) (fst a);
          tt2 = umul128 (fst a) (snd a);
          tt3 = add2 tt2 (tt3_0, 0);
          tt2 = add2 tt2 tt3
      in fpreduce1271 tt1_0 tt2 (snd a) (snd a))"

definition fpexp1251 :: "felm_t \<Rightarrow> felm_t" where
  "fpexp1251 a =
     (let t2 = fpsqr1271 a;
          t2 = fpmul1271 a t2;
          t3 = fpsqr1271 t2;
          t3 = fpsqr1271 t3;
          t3 = fpmul1271 t2 t3;
          t4 = fpsqr1271 t3;
          t4 = fpsqr1271 t4;
          t4 = fpsqr1271 t4;
          t4 = fpsqr1271 t4;
          t4 = fpmul1271 t3 t4;
          t5 = fpsqr1271 t4;
          t5 = (fpsqr1271 ^^ 7) t5;
          t5 = fpmul1271 t4 t5;
          t2 = fpsqr1271 t5;
          t2 = (fpsqr1271 ^^ 15) t2;
          t2 = fpmul1271 t5 t2;
          t1 = fpsqr1271 t2;
          t1 = (fpsqr1271 ^^ 31) t1;
          t1 = fpmul1271 t2 t1;
          t1 = (fpsqr1271 ^^ 32) t1;
          t1 = fpmul1271 t1 t2;
          t1 = (fpsqr1271 ^^ 16) t1;
          t1 = fpmul1271 t5 t1;
          t1 = (fpsqr1271 ^^ 8) t1;
          t1 = fpmul1271 t4 t1;
          t1 = (fpsqr1271 ^^ 4) t1;
          t1 = fpmul1271 t3 t1;
          t1 = fpsqr1271 t1
      in fpmul1271 a t1)"

text \<open>Half of an element, for one component of \<open>fp2div1271\<close>.\<close>

definition fphalf1271 :: "felm_t \<Rightarrow> felm_t" where
  "fphalf1271 a =
     (let mask = 0 - (1 AND fst a);
          temp = add2 a (mask, drop_bit 1 mask)
      in (shiftright128 (fst temp) (snd temp) 1, drop_bit 1 (snd temp)))"

definition fp2div1271 :: "f2elm_t \<Rightarrow> f2elm_t" where
  "fp2div1271 a = (fphalf1271 (fst a), fphalf1271 (snd a))"

definition fp2neg1271 :: "f2elm_t \<Rightarrow> f2elm_t" where
  "fp2neg1271 a = (fpneg1271 (fst a), fpneg1271 (snd a))"

definition fp2sqr1271 :: "f2elm_t \<Rightarrow> f2elm_t" where
  "fp2sqr1271 a =
     (let t1 = fpadd1271 (fst a) (snd a);
          t2 = fpsub1271 (fst a) (snd a);
          t3 = fpmul1271 (fst a) (snd a)
      in (fpmul1271 t1 t2, fpadd1271 t3 t3))"

definition fp2mul1271 :: "f2elm_t \<Rightarrow> f2elm_t \<Rightarrow> f2elm_t" where
  "fp2mul1271 a b =
     (let t1 = fpmul1271 (fst a) (fst b);
          t2 = fpmul1271 (snd a) (snd b);
          t3 = fpadd1271 (fst a) (snd a);
          t4 = fpadd1271 (fst b) (snd b);
          c0 = fpsub1271 t1 t2;
          t3 = fpmul1271 t3 t4;
          t3 = fpsub1271 t3 t1;
          c1 = fpsub1271 t3 t2
      in (c0, c1))"

definition fp2add1271 :: "f2elm_t \<Rightarrow> f2elm_t \<Rightarrow> f2elm_t" where
  "fp2add1271 a b = (fpadd1271 (fst a) (fst b), fpadd1271 (snd a) (snd b))"

definition fp2sub1271 :: "f2elm_t \<Rightarrow> f2elm_t \<Rightarrow> f2elm_t" where
  "fp2sub1271 a b = (fpsub1271 (fst a) (fst b), fpsub1271 (snd a) (snd b))"

text \<open>It doubles its first argument in place; both the doubled argument and the result are returned.\<close>

definition fp2addsub1271 :: "f2elm_t \<Rightarrow> f2elm_t \<Rightarrow> f2elm_t \<times> f2elm_t" where
  "fp2addsub1271 a b = (let a = fp2add1271 a a in (a, fp2sub1271 a b))"

section \<open>Limbs as numbers\<close>

definition fval :: "felm_t \<Rightarrow> nat" where
  "fval a = unat (fst a) + 2 ^ 64 * unat (snd a)"

definition reduced :: "felm_t \<Rightarrow> bool" where
  "reduced a \<longleftrightarrow> fval a < 2 ^ 127"

lemma unat_u64_less: "unat (a :: u64) < 2 ^ 64"
  using unsigned_less [of a] by simp

lemma unat_of_bool [simp]: "unat (of_bool c :: u64) = of_bool c"
  by (cases c) simp_all

lemma addcarry_val:
  assumes "addcarry_u64 c a b = (d, s)"
  shows "unat s + 2 ^ 64 * of_bool d = unat a + unat b + of_bool c"
proof -
  have "unat s = (unat a + unat b + of_bool c) mod 2 ^ 64"
    using assms by (auto simp: addcarry_u64_def unat_word_ariths mod_simps)
  moreover have "unat a + unat b + of_bool c < 2 * 2 ^ 64"
    using unat_u64_less [of a] unat_u64_less [of b] by (cases c) auto
  ultimately show ?thesis using assms by (auto simp: addcarry_u64_def mod_if)
qed

lemma subborrow_val:
  assumes "subborrow_u64 c a b = (d, s)"
  shows "unat s + unat b + of_bool c = unat a + 2 ^ 64 * of_bool d"
proof -
  obtain f where f: "addcarry_u64 c s b = (f, a)"
    using assms by (auto simp: subborrow_u64_def addcarry_u64_def algebra_simps)
  have "d \<longleftrightarrow> unat a < unat b + of_bool c" using assms by (auto simp: subborrow_u64_def)
  then have "d = f" using addcarry_val [OF f] unat_u64_less [of s] by (cases f) auto
  with addcarry_val [OF f] show ?thesis by simp
qed

lemma fval_less: "fval a < 2 ^ 128"
  using unat_u64_less [of "fst a"] unat_u64_less [of "snd a"] by (simp add: fval_def)

lemma fval_add2: "fval (add2 a b) = (fval a + fval b) mod 2 ^ 128"
proof -
  obtain c s0 d s1 where s: "addcarry_u64 False (fst a) (fst b) = (c, s0)" "addcarry_u64 c (snd a) (snd b) = (d, s1)"
    by (meson surj_pair)
  have "fval (s0, s1) + 2 ^ 128 * of_bool d = fval a + fval b"
    using addcarry_val [OF s(1)] addcarry_val [OF s(2)] by (simp add: fval_def)
  then have "fval (s0, s1) mod 2 ^ 128 = (fval a + fval b) mod 2 ^ 128" by (metis mod_mult_self2)
  with fval_less [of "(s0, s1)"] show ?thesis by (simp add: add2_def s)
qed

lemma fval_sub2: "fval (sub2 a b) = (fval a + 2 ^ 128 - fval b) mod 2 ^ 128"
proof -
  obtain c s0 d s1 where s: "subborrow_u64 False (fst a) (fst b) = (c, s0)" "subborrow_u64 c (snd a) (snd b) = (d, s1)"
    by (meson surj_pair)
  have v: "fval (s0, s1) + fval b = fval a + 2 ^ 128 * of_bool d"
    using subborrow_val [OF s(1)] subborrow_val [OF s(2)] by (simp add: fval_def)
  with fval_less [of "(s0, s1)"] fval_less [of a] fval_less [of b]
  have "fval (s0, s1) = (fval a + 2 ^ 128 - fval b) mod 2 ^ 128"
    by (cases d) (auto simp: mod_if)
  then show ?thesis by (simp add: sub2_def s)
qed

lemma umul128_val: "fval (umul128 a b) = unat a * unat b"
proof -
  let ?v = "ucast a * ucast b :: 128 word"
  have small: "unat a * unat b < 2 ^ 64 * 2 ^ 64"
    by (rule mult_strict_mono) (use unat_u64_less in auto)
  have wide: "unat (ucast w :: 128 word) = unat w" for w :: u64
    using unat_u64_less [of w] unfolding unsigned_ucast_eq by (simp add: take_bit_eq_mod)
  have v: "unat ?v = unat a * unat b" unfolding unat_word_ariths wide using small by simp
  have "unat (ucast ?v :: u64) = unat ?v mod 2 ^ 64" by (simp only: unsigned_ucast_eq) (simp add: take_bit_eq_mod)
  moreover have "unat (ucast (drop_bit 64 ?v) :: u64) = unat ?v div 2 ^ 64"
  proof -
    have "unat (drop_bit 64 ?v) = unat ?v div 2 ^ 64"
      unfolding unsigned_drop_bit_eq using small by (simp add: v drop_bit_eq_div take_bit_eq_mod)
    moreover have "\<dots> < 2 ^ 64" using small v by (simp add: less_mult_imp_div_less)
    ultimately show ?thesis unfolding unsigned_ucast_eq by (simp add: take_bit_eq_mod)
  qed
  ultimately show ?thesis by (simp add: umul128_def Let_def fval_def v)
qed

lemma low_mask: "unat (w AND 0x7FFFFFFFFFFFFFFF :: u64) = unat w mod 2 ^ 63"
proof -
  have "(0x7FFFFFFFFFFFFFFF :: u64) = mask 63" by (simp add: mask_eq_exp_minus_1)
  then have "unat (w AND 0x7FFFFFFFFFFFFFFF) = unat (take_bit 63 w)" by (simp add: take_bit_eq_mask)
  also have "\<dots> = unat w mod 2 ^ 63" unfolding unsigned_take_bit_eq by (simp add: take_bit_eq_mod)
  finally show ?thesis .
qed

lemma unat_drop: "unat (drop_bit n w :: u64) = unat w div 2 ^ n"
  unfolding unsigned_drop_bit_eq using unat_u64_less [of w] by (simp add: drop_bit_eq_div take_bit_eq_mod)

text \<open>Folding a 128-bit value at bit 127.\<close>

definition fold127 :: "nat \<Rightarrow> nat" where
  "fold127 n = n mod 2 ^ 127 + n div 2 ^ 127"

lemma fval_low: "fval (fst c, snd c AND 0x7FFFFFFFFFFFFFFF) = fval c mod 2 ^ 127"
proof -
  obtain q r where x: "unat (snd c) = 2 ^ 63 * q + r" "q = unat (snd c) div 2 ^ 63" "r = unat (snd c) mod 2 ^ 63"
    by simp
  then have "fval c = unat (fst c) + 2 ^ 64 * (unat (snd c) mod 2 ^ 63) + 2 ^ 127 * (unat (snd c) div 2 ^ 63)"
    unfolding x(2,3) [symmetric] by (simp add: fval_def)
  moreover have "unat (fst c) + 2 ^ 64 * (unat (snd c) mod 2 ^ 63) < 2 ^ 127"
    using unat_u64_less [of "fst c"] mod_less_divisor [of "2 ^ 63" "unat (snd c)"] by simp
  ultimately have "fval c mod 2 ^ 127 = unat (fst c) + 2 ^ 64 * (unat (snd c) mod 2 ^ 63)"
    by (metis mod_less mod_mult_self2)
  then show ?thesis by (simp add: fval_def low_mask)
qed

lemma high_bit: "unat (drop_bit 63 (snd c)) = fval c div 2 ^ 127"
proof -
  have "fval c div 2 ^ 127 = fval c div 2 ^ 64 div 2 ^ 63" by (simp add: div_mult2_eq [symmetric])
  also have "fval c div 2 ^ 64 = unat (snd c)" using unat_u64_less [of "fst c"] by (simp add: fval_def)
  finally show ?thesis by (simp add: unat_drop)
qed

lemma fold127_val:
  "fval (add2 (fst c, snd c AND 0x7FFFFFFFFFFFFFFF) (drop_bit 63 (snd c), 0)) = fold127 (fval c)"
proof -
  have "fold127 (fval c) < 2 ^ 128"
    unfolding fold127_def using mod_less_divisor [of "2 ^ 127" "fval c"] fval_less [of c] by (simp add: less_mult_imp_div_less)
  moreover have "fval (drop_bit 63 (snd c), 0) = fval c div 2 ^ 127" by (simp add: fval_def high_bit)
  ultimately show ?thesis by (simp only: fval_add2 fval_low fold127_def [symmetric] mod_less)
qed

section \<open>Field operations as operations of the ring\<close>

type_synonym gf = "170141183460469231731687303715884105727"

definition fp :: "felm_t \<Rightarrow> gf" where
  "fp a = of_nat (fval a)"

lemma card_gf: "CARD(gf) = 2 ^ 127 - 1"
  by simp

lemma gf_eq_iff: "of_nat m = (of_nat n :: gf) \<longleftrightarrow> m mod (2 ^ 127 - 1) = n mod (2 ^ 127 - 1)"
proof -
  have "of_nat m = (of_nat n :: gf) \<longleftrightarrow> int m mod int CARD(gf) = int n mod int CARD(gf)"
    by (metis bit1.Rep_Abs_mod bit1.of_nat_eq)
  then show ?thesis unfolding card_gf of_nat_mod [symmetric] of_nat_eq_iff .
qed

lemma gf_order: "(2 ^ 127 :: gf) = 1"
proof -
  have "of_nat (2 ^ 127) = (of_nat 1 :: gf)" unfolding gf_eq_iff by simp
  then show ?thesis by simp
qed

lemma gf_fold127: "of_nat (fold127 n) = (of_nat n :: gf)"
proof -
  have "(of_nat n :: gf) = of_nat (n mod 2 ^ 127 + 2 ^ 127 * (n div 2 ^ 127))" by (simp only: mod_mult_div_eq)
  also have "\<dots> = of_nat (n mod 2 ^ 127) + 2 ^ 127 * of_nat (n div 2 ^ 127)" by (simp only: of_nat_add of_nat_mult of_nat_power of_nat_numeral)
  also have "\<dots> = of_nat (fold127 n)" by (simp only: gf_order fold127_def of_nat_add mult_1)
  finally show ?thesis ..
qed

lemma fold127_less:
  assumes "n \<le> 2 * (2 ^ 127 - 1)"
  shows "fold127 n < 2 ^ 127"
proof (cases "n < 2 ^ 127")
  case False
  then have "n div 2 ^ 127 = 1" "n mod 2 ^ 127 = n - 2 ^ 127"
    using assms by (simp_all add: div_nat_eqI le_mod_geq)
  with assms False show ?thesis by (simp add: fold127_def)
qed (simp add: fold127_def)

lemma fpadd1271_val:
  assumes "reduced a" and "reduced b"
  shows "fval (fpadd1271 a b) = fold127 (fval a + fval b)"
proof -
  have "fval (add2 a b) = fval a + fval b" using assms by (simp add: fval_add2 reduced_def)
  then show ?thesis by (simp add: fpadd1271_def Let_def fold127_val)
qed

lemma fpadd1271_ring:
  assumes "reduced a" and "reduced b"
  shows "fp (fpadd1271 a b) = fp a + fp b" and "reduced (fpadd1271 a b)"
proof -
  show "fp (fpadd1271 a b) = fp a + fp b" by (simp add: fp_def fpadd1271_val assms gf_fold127)
  have "fval a + fval b \<le> 2 * (2 ^ 127 - 1)" using assms by (simp add: reduced_def)
  from fold127_less [OF this] show "reduced (fpadd1271 a b)"
    by (simp only: reduced_def fpadd1271_val [OF assms])
qed

lemma borrow_one:
  assumes "\<not> b \<le> a" and "b < 2 ^ 127"
  shows "(a + 2 ^ 127 - b + 2 ^ 128 - 1) mod 2 ^ 128 = a + 2 ^ 127 - b - (1::nat)"
proof -
  have "a + 2 ^ 127 - b + 2 ^ 128 - 1 = (a + 2 ^ 127 - b - 1) + 2 ^ 128" and "a + 2 ^ 127 - b - 1 < 2 ^ 128"
    using assms by simp_all
  then show ?thesis by (metis mod_add_self2 mod_less)
qed

lemma fpsub1271_val:
  assumes "reduced a" and "reduced b"
  shows "fval (fpsub1271 a b) = (if fval b \<le> fval a then fval a - fval b else fval a + (2 ^ 127 - 1) - fval b)"
proof -
  let ?c = "sub2 a b"
  have c: "fval ?c = (if fval b \<le> fval a then fval a - fval b else fval a + 2 ^ 128 - fval b)"
    using fval_less [of a] fval_less [of b] by (auto simp: fval_sub2 mod_if)
  have "fval (drop_bit 63 (snd ?c), 0) = fval ?c div 2 ^ 127" by (simp add: fval_def high_bit)
  then have v: "fval (fpsub1271 a b) = (fval ?c mod 2 ^ 127 + 2 ^ 128 - fval ?c div 2 ^ 127) mod 2 ^ 128"
    unfolding fpsub1271_def Let_def fval_sub2 fval_low by simp
  show ?thesis
  proof (cases "fval b \<le> fval a")
    case True
    then have "fval ?c < 2 ^ 127" using assms c by (simp add: reduced_def)
    then have "(fval ?c + 2 ^ 128) mod 2 ^ 128 = fval ?c" by simp
    then show ?thesis using v c True \<open>fval ?c < 2 ^ 127\<close> by simp
  next
    case False
    then have "fval ?c div 2 ^ 127 = 1" "fval ?c mod 2 ^ 127 = fval a + 2 ^ 127 - fval b"
      using assms c by (simp_all add: reduced_def div_nat_eqI le_mod_geq)
    then have "fval (fpsub1271 a b) = fval a + 2 ^ 127 - fval b - 1"
      using v borrow_one [OF False] assms by (simp only: reduced_def)
    then show ?thesis using False assms by (simp add: reduced_def)
  qed
qed

lemma gf_diff:
  assumes "n + y = x \<or> n + y = x + (2 ^ 127 - 1)"
  shows "(of_nat n :: gf) = of_nat x - of_nat y"
proof -
  have "(of_nat (x + (2 ^ 127 - 1)) :: gf) = of_nat x" unfolding gf_eq_iff by (rule mod_add_self2)
  then have "(of_nat (n + y) :: gf) = of_nat x" using assms by presburger
  then show ?thesis unfolding of_nat_add eq_diff_eq .
qed

lemma fpsub1271_ring:
  assumes "reduced a" and "reduced b"
  shows "fp (fpsub1271 a b) = fp a - fp b" and "reduced (fpsub1271 a b)"
proof -
  show "fp (fpsub1271 a b) = fp a - fp b" unfolding fp_def
    by (rule gf_diff) (use assms in \<open>auto simp: fpsub1271_val reduced_def\<close>)
  show "reduced (fpsub1271 a b)"
    using assms unfolding reduced_def fpsub1271_val [OF assms] by auto
qed

lemma fpneg1271_ring:
  assumes "reduced a"
  shows "fp (fpneg1271 a) = - fp a" and "reduced (fpneg1271 a)"
proof -
  have hi: "unat (snd a) \<le> 2 ^ 63 - 1" using assms by (auto simp: reduced_def fval_def)
  have "unat (NOT (fst a)) + unat (fst a) = 2 ^ 64 - 1"
  proof -
    have "NOT (fst a) = - 1 - fst a" by (simp add: not_eq_complement)
    then show ?thesis using unat_u64_less [of "fst a"] by (simp add: unat_sub unsigned_minus_1_eq_mask mask_eq_exp_minus_1)
  qed
  moreover have "unat (0x7FFFFFFFFFFFFFFF - snd a) + unat (snd a) = 2 ^ 63 - 1"
    using hi by (simp add: unat_sub word_le_nat_alt)
  ultimately have v: "fval (fpneg1271 a) + fval a = 2 ^ 127 - 1" by (simp add: fpneg1271_def fval_def)
  then show "reduced (fpneg1271 a)" by (simp add: reduced_def)
  show "fp (fpneg1271 a) = - fp a" unfolding fp_def using gf_diff [of "fval (fpneg1271 a)" "fval a" 0] v by simp
qed

section \<open>Multiplication\<close>

lemma divmod_parts:
  assumes "x = r + d * q" and "r < (d :: nat)"
  shows "x mod d = r" and "x div d = q"
  using assms by simp_all

lemma double_word: "unat (push_bit 1 w :: u64) = 2 * unat w mod 2 ^ 64"
  by (simp add: push_bit_eq_mult unat_word_ariths mult.commute)

lemma double_split: "2 * n = 2 * n mod 2 ^ 64 + 2 ^ 64 * (n div 2 ^ 63)" for n :: nat
proof -
  have "2 * n div 2 ^ 64 = n div 2 ^ 63" by simp
  then show ?thesis using mod_mult_div_eq [of "2 * n" "2 ^ 64"] by (simp only:)
qed

lemma join_bits:
  assumes "0 < s" and "s < 64"
  shows "unat (push_bit s w OR drop_bit (64 - s) v :: u64) = 2 ^ s * unat w mod 2 ^ 64 + unat v div 2 ^ (64 - s)"
proof -
  have pow: "(2::nat) ^ 64 = 2 ^ s * 2 ^ (64 - s)" using assms by (simp flip: power_add)
  have "(push_bit s w AND drop_bit (64 - s) v :: u64) = 0"
  proof (rule bit_word_eqI)
    fix n
    show "bit (push_bit s w AND drop_bit (64 - s) v) n = bit (0 :: u64) n"
      unfolding bit_and_iff bit_push_bit_iff bit_drop_bit_eq
      using bit_imp_le_length [of v "64 - s + n"] assms by auto
  qed
  then have "push_bit s w OR drop_bit (64 - s) v = push_bit s w + drop_bit (64 - s) v"
    by (rule disjunctive_add_eq_or [symmetric])
  moreover have "unat (push_bit s w) = 2 ^ s * unat w mod 2 ^ 64"
    unfolding unsigned_push_bit_eq by (simp add: push_bit_eq_mult take_bit_eq_mod mult.commute)
  moreover have low: "unat v div 2 ^ (64 - s) < 2 ^ s"
    using unat_u64_less [of v] unfolding pow by (rule less_mult_imp_div_less)
  moreover have "2 ^ s * unat w mod 2 ^ 64 + unat v div 2 ^ (64 - s) < 2 ^ 64"
  proof -
    have "2 ^ s * unat w mod 2 ^ 64 = 2 ^ s * (unat w mod 2 ^ (64 - s))" unfolding pow by (rule mult_mod_right [symmetric])
    moreover have "unat w mod 2 ^ (64 - s) + 1 \<le> 2 ^ (64 - s)" by (simp add: Suc_leI)
    then have "2 ^ s * (unat w mod 2 ^ (64 - s)) + 2 ^ s \<le> 2 ^ 64" unfolding pow by (metis mult.right_neutral distrib_left mult_le_mono2)
    ultimately show ?thesis using low by linarith
  qed
  ultimately show ?thesis by (simp only: unat_word_ariths unat_drop) simp
qed

lemma join_bits_one: "unat (push_bit 1 w OR drop_bit 63 v :: u64) = 2 * unat w mod 2 ^ 64 + unat v div 2 ^ 63"
  using join_bits [of 1 w v] by simp

lemma shifted_left:
  assumes "fval a < 2 ^ 127"
  shows "fval (push_bit 1 (fst a), shiftleft128 (fst a) (snd a) 1) = 2 * fval a"
proof -
  have "2 * unat (snd a) mod 2 ^ 64 = 2 * unat (snd a)" using assms by (simp add: fval_def)
  then show ?thesis using join_bits_one [of "snd a" "fst a"] double_split [of "unat (fst a)"] double_word [of "fst a"]
    by (simp only: fval_def shiftleft128_def fst_conv snd_conv) simp
qed

lemma shifted_right:
  "fval (shiftright128 (fst a) (snd a) 63, drop_bit 63 (snd a)) = fval a div 2 ^ 63"
proof -
  have "fval a = unat (fst a) + 2 * unat (snd a) * 2 ^ 63" by (simp add: fval_def)
  then have "fval a div 2 ^ 63 = unat (fst a) div 2 ^ 63 + 2 * unat (snd a)" by simp
  moreover have "shiftright128 (fst a) (snd a) 63 = push_bit 1 (snd a) OR drop_bit 63 (fst a)"
    unfolding shiftright128_def by (subst or.commute) simp
  ultimately show ?thesis using join_bits_one [of "snd a" "fst a"] double_split [of "unat (snd a)"]
    by (simp only: fval_def unat_drop fst_conv snd_conv)
qed

lemma fpreduce1271_val:
  assumes "unat a1 < 2 ^ 63" and "unat b1 < 2 ^ 63"
    and total: "T = unat l + 2 ^ 64 * fval m + 2 ^ 128 * (unat a1 * unat b1)" and "T < 2 ^ 254"
  shows "fval (fpreduce1271 l m a1 b1) = fold127 (fold127 T)"
proof -
  define tt3 where "tt3 = add2 (shiftright128 (fst m) (snd m) 63, drop_bit 63 (snd m))
     (push_bit 1 (fst (umul128 a1 b1)), shiftleft128 (fst (umul128 a1 b1)) (snd (umul128 a1 b1)) 1)"
  define tt1 where "tt1 = add2 (l, fst m AND 0x7FFFFFFFFFFFFFFF) tt3"
  have H: "unat a1 * unat b1 < 2 ^ 63 * 2 ^ 63" by (rule mult_strict_mono) (use assms in auto)
  have "T = (unat l + 2 ^ 64 * (fval m mod 2 ^ 63)) + 2 ^ 127 * (fval m div 2 ^ 63 + 2 * (unat a1 * unat b1))"
  proof -
    have "2 ^ 64 * fval m = 2 ^ 64 * (fval m mod 2 ^ 63) + 2 ^ 64 * (2 ^ 63 * (fval m div 2 ^ 63))"
      by (simp only: distrib_left [symmetric] mod_mult_div_eq)
    then show ?thesis unfolding total by simp
  qed
  moreover have "unat l + 2 ^ 64 * (fval m mod 2 ^ 63) < 2 ^ 127"
    using unat_u64_less [of l] mod_less_divisor [of "2 ^ 63" "fval m"] by simp
  ultimately have T: "T mod 2 ^ 127 = unat l + 2 ^ 64 * (fval m mod 2 ^ 63)"
    "T div 2 ^ 127 = fval m div 2 ^ 63 + 2 * (unat a1 * unat b1)" by (rule divmod_parts)+
  have hi: "T div 2 ^ 127 < 2 ^ 127" using assms(4) by (simp add: less_mult_imp_div_less)
  have "fval (umul128 a1 b1) < 2 ^ 127" using H by (simp add: umul128_val)
  from shifted_left [OF this] have tt3: "fval tt3 = T div 2 ^ 127"
    unfolding tt3_def fval_add2 shifted_right umul128_val using hi T(2) by simp
  have "fval (l, fst m AND 0x7FFFFFFFFFFFFFFF) = T mod 2 ^ 127"
  proof -
    have "fval m = unat (fst m) + 2 * unat (snd m) * 2 ^ 63" by (simp add: fval_def)
    then have "fval m mod 2 ^ 63 = unat (fst m) mod 2 ^ 63" by (simp only: mod_mult_self1)
    then show ?thesis unfolding T(1) by (simp add: fval_def low_mask)
  qed
  then have "fval tt1 = fold127 T"
    unfolding tt1_def fval_add2 tt3 using hi mod_less_divisor [of "2 ^ 127" T] by (simp add: fold127_def)
  then show ?thesis
    using fold127_val [of tt1]
    by (simp add: fpreduce1271_def Let_def case_prod_beta tt1_def [unfolded tt3_def] del: push_bit_of_1)
qed

lemma limbs_less:
  assumes "reduced a"
  shows "unat (snd a) < 2 ^ 63"
  using assms by (simp add: reduced_def fval_def)

lemma square_bound: "(x::nat) < 2 ^ 127 \<Longrightarrow> y < 2 ^ 127 \<Longrightarrow> x * y < 2 ^ 254"
  using mult_strict_mono [of x "2 ^ 127" y "2 ^ 127"] by simp

lemma limb_product:
  assumes "unat (x :: u64) < 2 ^ 64" and "unat (y :: u64) < 2 ^ 63"
  shows "unat x * unat y \<le> (2 ^ 64 - 1) * (2 ^ 63 - 1)"
  by (rule mult_le_mono) (use assms in auto)

lemma fval_product:
  "fval a * fval b = unat (fst a) * unat (fst b) +
     2 ^ 64 * (unat (fst a) * unat (snd b) + unat (snd a) * unat (fst b)) + 2 ^ 128 * (unat (snd a) * unat (snd b))"
  by (simp add: fval_def algebra_simps)

lemma middle_word:
  fixes h :: u64
  assumes "reduced a" and "reduced b"
  shows "unat (fst a) * unat (snd b) + unat h + unat (snd a) * unat (fst b) < 2 ^ 128"
  using limb_product [OF unat_u64_less [of "fst a"] limbs_less [OF assms(2)]]
    limb_product [OF unat_u64_less [of "fst b"] limbs_less [OF assms(1)]] unat_u64_less [of h]
  by (simp add: mult.commute)

lemma fpmul1271_val:
  assumes "reduced a" and "reduced b"
  shows "fval (fpmul1271 a b) = fold127 (fold127 (fval a * fval b))"
proof -
  obtain l h where lh: "umul128 (fst a) (fst b) = (l, h)" by fastforce
  then have prod: "unat l + 2 ^ 64 * unat h = unat (fst a) * unat (fst b)"
    using umul128_val [of "fst a" "fst b"] by (simp add: fval_def)
  let ?m = "add2 (add2 (umul128 (fst a) (snd b)) (h, 0)) (umul128 (snd a) (fst b))"
  have m: "fval ?m = unat (fst a) * unat (snd b) + unat h + unat (snd a) * unat (fst b)"
    unfolding fval_add2 umul128_val using middle_word [OF assms, of h] by (simp add: fval_def)
  have "fval (fpreduce1271 l ?m (snd a) (snd b)) = fold127 (fold127 (fval a * fval b))"
  proof (rule fpreduce1271_val)
    show "fval a * fval b = unat l + 2 ^ 64 * fval ?m + 2 ^ 128 * (unat (snd a) * unat (snd b))"
      unfolding fval_product m prod [symmetric] by (simp add: algebra_simps)
  qed (use assms limbs_less square_bound in \<open>auto simp: reduced_def\<close>)
  then show ?thesis by (simp add: fpmul1271_def lh)
qed

lemma fpsqr1271_val:
  assumes "reduced a"
  shows "fval (fpsqr1271 a) = fold127 (fold127 (fval a * fval a))"
proof -
  obtain l h where lh: "umul128 (fst a) (fst a) = (l, h)" by fastforce
  then have prod: "unat l + 2 ^ 64 * unat h = unat (fst a) * unat (fst a)"
    using umul128_val [of "fst a" "fst a"] by (simp add: fval_def)
  let ?m = "add2 (umul128 (fst a) (snd a)) (add2 (umul128 (fst a) (snd a)) (h, 0))"
  have m: "fval ?m = unat (fst a) * unat (snd a) + unat h + unat (snd a) * unat (fst a)"
    unfolding fval_add2 umul128_val using middle_word [OF assms assms, of h] by (simp add: fval_def mult.commute)
  have "fval (fpreduce1271 l ?m (snd a) (snd a)) = fold127 (fold127 (fval a * fval a))"
  proof (rule fpreduce1271_val)
    show "fval a * fval a = unat l + 2 ^ 64 * fval ?m + 2 ^ 128 * (unat (snd a) * unat (snd a))"
      unfolding fval_product m prod [symmetric] by (simp add: algebra_simps)
  qed (use assms limbs_less square_bound in \<open>auto simp: reduced_def\<close>)
  then show ?thesis by (simp add: fpsqr1271_def Let_def lh)
qed

lemma fold127_twice:
  assumes "x < 2 ^ 127" and "y < 2 ^ 127"
  shows "fold127 (fold127 (x * y)) < 2 ^ 127"
proof (rule fold127_less)
  have "x * y div 2 ^ 127 < 2 ^ 127" using square_bound [OF assms] by (simp add: less_mult_imp_div_less)
  moreover have "x * y mod 2 ^ 127 < 2 ^ 127" by simp
  ultimately show "fold127 (x * y) \<le> 2 * (2 ^ 127 - 1)" by (simp add: fold127_def)
qed

lemma fpmul1271_ring:
  assumes "reduced a" and "reduced b"
  shows "fp (fpmul1271 a b) = fp a * fp b" and "reduced (fpmul1271 a b)"
  using assms by (simp_all only: fp_def reduced_def fpmul1271_val fold127_twice gf_fold127 of_nat_mult)

lemma fpsqr1271_ring:
  assumes "reduced a"
  shows "fp (fpsqr1271 a) = fp a ^ 2" and "reduced (fpsqr1271 a)"
  using assms by (simp_all only: fp_def reduced_def fpsqr1271_val fold127_twice gf_fold127 of_nat_mult power2_eq_square)

text \<open>
  What the code above the field relies on, for the prime field and for its extension alike: on
  admissible limbs the operations are those of a ring and their results are admissible.
\<close>

locale limb_ring =
  fixes val :: "'a \<Rightarrow> 'r::comm_ring_1" and ok :: "'a \<Rightarrow> bool"
    and add sub mul :: "'a \<Rightarrow> 'a \<Rightarrow> 'a" and neg sqr :: "'a \<Rightarrow> 'a"
  assumes add_ok: "ok a \<Longrightarrow> ok b \<Longrightarrow> ok (add a b)" and add_val: "ok a \<Longrightarrow> ok b \<Longrightarrow> val (add a b) = val a + val b"
    and sub_ok: "ok a \<Longrightarrow> ok b \<Longrightarrow> ok (sub a b)" and sub_val: "ok a \<Longrightarrow> ok b \<Longrightarrow> val (sub a b) = val a - val b"
    and mul_ok: "ok a \<Longrightarrow> ok b \<Longrightarrow> ok (mul a b)" and mul_val: "ok a \<Longrightarrow> ok b \<Longrightarrow> val (mul a b) = val a * val b"
    and neg_ok: "ok a \<Longrightarrow> ok (neg a)" and neg_val: "ok a \<Longrightarrow> val (neg a) = - val a"
    and sqr_ok: "ok a \<Longrightarrow> ok (sqr a)" and sqr_val: "ok a \<Longrightarrow> val (sqr a) = val a ^ 2"
begin

lemmas ops = add_ok add_val sub_ok sub_val mul_ok mul_val neg_ok neg_val sqr_ok sqr_val

lemma sqr_iterate:
  assumes "ok a"
  shows "val ((sqr ^^ n) a) = val a ^ (2 ^ n)" and "ok ((sqr ^^ n) a)"
proof (induction n)
  case (Suc n)
  {
    case 1
    then show ?case using Suc.IH by (simp add: ops mult.commute flip: power_mult)
  next
    case 2
    then show ?case using Suc.IH by (simp add: ops)
  }
qed (simp_all add: assms)

end

interpretation gf: limb_ring fp reduced fpadd1271 fpsub1271 fpmul1271 fpneg1271 fpsqr1271
  by unfold_locales
    (simp_all add: fpadd1271_ring fpsub1271_ring fpmul1271_ring fpneg1271_ring fpsqr1271_ring)

lemmas field_ops = gf.ops gf.sqr_iterate

lemma fpexp1251_ring:
  assumes "reduced a"
  shows "fp (fpexp1251 a) = fp a ^ (2 ^ 125 - 1)" and "reduced (fpexp1251 a)"
  using assms
  by (simp_all add: fpexp1251_def Let_def field_ops power_mult_distrib flip: power_mult power_add power_Suc)

section \<open>The extension field\<close>

text \<open>Pairs over the ring with the product of complex numbers.\<close>

datatype gf2 = Gf2 (re: gf) (im: gf)

instantiation gf2 :: comm_ring_1
begin

definition zero_gf2 :: gf2 where "0 = Gf2 0 0"

definition one_gf2 :: gf2 where "1 = Gf2 1 0"

definition plus_gf2 :: "gf2 \<Rightarrow> gf2 \<Rightarrow> gf2" where "x + y = Gf2 (re x + re y) (im x + im y)"

definition uminus_gf2 :: "gf2 \<Rightarrow> gf2" where "- x = Gf2 (- re x) (- im x)"

definition minus_gf2 :: "gf2 \<Rightarrow> gf2 \<Rightarrow> gf2" where "x - y = Gf2 (re x - re y) (im x - im y)"

definition times_gf2 :: "gf2 \<Rightarrow> gf2 \<Rightarrow> gf2" where
  "x * y = Gf2 (re x * re y - im x * im y) (re x * im y + im x * re y)"

instance
  by standard (simp_all add: zero_gf2_def one_gf2_def plus_gf2_def uminus_gf2_def minus_gf2_def times_gf2_def algebra_simps)

end

lemma gf2_parts [simp]:
  "re 0 = 0" "im 0 = 0" "re 1 = 1" "im 1 = 0"
  "re (x + y) = re x + re y" "im (x + y) = im x + im y" "re (x - y) = re x - re y" "im (x - y) = im x - im y"
  "re (- x) = - re x" "im (- x) = - im x"
  "re (x * y) = re x * re y - im x * im y" "im (x * y) = re x * im y + im x * re y"
  by (simp_all add: zero_gf2_def one_gf2_def plus_gf2_def uminus_gf2_def minus_gf2_def times_gf2_def)

definition fp2 :: "f2elm_t \<Rightarrow> gf2" where
  "fp2 a = Gf2 (fp (fst a)) (fp (snd a))"

definition reduced2 :: "f2elm_t \<Rightarrow> bool" where
  "reduced2 a \<longleftrightarrow> reduced (fst a) \<and> reduced (snd a)"

lemma fp2add1271_ring: "reduced2 a \<Longrightarrow> reduced2 b \<Longrightarrow> fp2 (fp2add1271 a b) = fp2 a + fp2 b"
  and fp2add1271_reduced: "reduced2 a \<Longrightarrow> reduced2 b \<Longrightarrow> reduced2 (fp2add1271 a b)"
  by (simp_all add: fp2add1271_def fp2_def reduced2_def field_ops gf2.expand)

lemma fp2sub1271_ring: "reduced2 a \<Longrightarrow> reduced2 b \<Longrightarrow> fp2 (fp2sub1271 a b) = fp2 a - fp2 b"
  and fp2sub1271_reduced: "reduced2 a \<Longrightarrow> reduced2 b \<Longrightarrow> reduced2 (fp2sub1271 a b)"
  by (simp_all add: fp2sub1271_def fp2_def reduced2_def field_ops gf2.expand)

lemma fp2neg1271_ring: "reduced2 a \<Longrightarrow> fp2 (fp2neg1271 a) = - fp2 a"
  and fp2neg1271_reduced: "reduced2 a \<Longrightarrow> reduced2 (fp2neg1271 a)"
  by (simp_all add: fp2neg1271_def fp2_def reduced2_def field_ops gf2.expand)

lemma fp2mul1271_ring: "reduced2 a \<Longrightarrow> reduced2 b \<Longrightarrow> fp2 (fp2mul1271 a b) = fp2 a * fp2 b"
  and fp2mul1271_reduced: "reduced2 a \<Longrightarrow> reduced2 b \<Longrightarrow> reduced2 (fp2mul1271 a b)"
  by (simp_all add: fp2mul1271_def Let_def fp2_def reduced2_def field_ops gf2.expand algebra_simps)

lemma fp2sqr1271_ring: "reduced2 a \<Longrightarrow> fp2 (fp2sqr1271 a) = fp2 a * fp2 a"
  and fp2sqr1271_reduced: "reduced2 a \<Longrightarrow> reduced2 (fp2sqr1271 a)"
  by (simp_all add: fp2sqr1271_def Let_def fp2_def reduced2_def field_ops gf2.expand algebra_simps)

interpretation gf2: limb_ring fp2 reduced2 fp2add1271 fp2sub1271 fp2mul1271 fp2neg1271 fp2sqr1271
  by unfold_locales (simp_all add: fp2add1271_ring fp2sub1271_ring fp2neg1271_ring fp2mul1271_ring
    fp2sqr1271_ring power2_eq_square fp2add1271_reduced fp2sub1271_reduced fp2neg1271_reduced fp2mul1271_reduced fp2sqr1271_reduced)

lemmas fp2_ops = gf2.ops gf2.sqr_iterate

section \<open>Canonical form, halving and the emulated carries\<close>

lemma minus_one_u64: "- 1 = (0xFFFFFFFFFFFFFFFF :: u64)"
  by simp

lemma low_bit: "1 AND w = of_bool (odd (unat w))" for w :: u64
  unfolding one_and_eq word_unat_eq_iff unat_mod unat_of_bool by (simp add: mod_2_eq_odd)

lemma mod1271_val:
  assumes "reduced a"
  shows "fval (mod1271 a) = fval a mod (2 ^ 127 - 1)"
proof -
  let ?p = "(0xFFFFFFFFFFFFFFFF, 0x7FFFFFFFFFFFFFFF) :: felm_t" and ?s = "sub2 a (0xFFFFFFFFFFFFFFFF, 0x7FFFFFFFFFFFFFFF)"
  have p: "fval ?p = 2 ^ 127 - 1" by (simp add: fval_def)
  have top: "unat (drop_bit 63 (snd ?s)) = fval ?s div 2 ^ 127" by (rule high_bit)
  show ?thesis
  proof (cases "fval a = 2 ^ 127 - 1")
    case True
    then have s0: "fval ?s = 0" by (simp add: fval_sub2 p)
    then have "drop_bit 63 (snd ?s) = 0" using top by (simp add: unat_eq_0)
    then have "mod1271 a = add2 ?s (0, 0)" by (simp only: mod1271_def Let_def) simp
    then show ?thesis using s0 True by (simp add: fval_add2) (simp add: fval_def)
  next
    case False
    then have s1: "fval ?s = fval a + 2 ^ 127 + 1" "fval a < 2 ^ 127 - 1"
      using assms by (simp_all add: fval_sub2 p reduced_def)
    then have "fval ?s div 2 ^ 127 = 1" by (simp add: div_nat_eqI)
    then have "drop_bit 63 (snd ?s) = 1" using top by (simp add: word_unat_eq_iff)
    then have "mod1271 a = add2 ?s ?p" by (simp only: mod1271_def Let_def) (simp add: minus_one_u64)
    then have "fval (mod1271 a) = (fval a + 2 ^ 128) mod 2 ^ 128" using s1 p by (simp add: fval_add2)
    then show ?thesis using s1(2) fval_less [of a] by (simp only: mod_add_self2) simp
  qed
qed

lemma mod1271_eq_iff:
  assumes "reduced a" and "reduced b"
  shows "mod1271 a = mod1271 b \<longleftrightarrow> fp a = fp b"
proof -
  have "x = y" if "fval x = fval y" for x y
  proof -
    have "unat (snd x) = unat (snd y)" "unat (fst x) = unat (fst y)"
      using that unat_u64_less [of "fst x"] unat_u64_less [of "fst y"] unfolding fval_def
      by (metis divmod_parts(2), metis divmod_parts(1))
    then show ?thesis by (simp add: prod_eq_iff word_unat_eq_iff)
  qed
  then have "mod1271 a = mod1271 b \<longleftrightarrow> fval (mod1271 a) = fval (mod1271 b)" by metis
  then show ?thesis unfolding fp_def gf_eq_iff using assms by (simp only: mod1271_val)
qed

lemma shifted_right_one: "fval (shiftright128 (fst a) (snd a) 1, drop_bit 1 (snd a)) = fval a div 2"
proof -
  have "fval a = unat (fst a) + 2 ^ 63 * unat (snd a) * 2" by (simp add: fval_def)
  then have "fval a div 2 = unat (fst a) div 2 + 2 ^ 63 * unat (snd a)" by (simp only: div_mult_self1) 
  moreover have "2 ^ 63 * n = 2 ^ 63 * n mod 2 ^ 64 + 2 ^ 64 * (n div 2)" for n :: nat
    using mod_mult_div_eq [of "2 ^ 63 * n" "2 ^ 64"] by simp
  moreover have "shiftright128 (fst a) (snd a) 1 = push_bit 63 (snd a) OR drop_bit (64 - 63) (fst a)"
    unfolding shiftright128_def by (subst or.commute) simp
  ultimately show ?thesis using join_bits [of 63 "snd a" "fst a"] unat_drop [of 1 "snd a"]
    by (simp only: fval_def fst_conv snd_conv) simp
qed

lemma fphalf1271_val:
  assumes "reduced a"
  shows "fval (fphalf1271 a) = (if even (fval a) then fval a else fval a + (2 ^ 127 - 1)) div 2"
proof -
  have parity: "1 AND fst a = of_bool (odd (fval a))"
    by (simp add: low_bit fval_def)
  have ones: "fval (- 1, drop_bit 1 (- 1)) = 2 ^ 127 - 1" unfolding minus_one_u64 fval_def fst_conv snd_conv unat_drop by simp
  have "fval (add2 a (- of_bool (odd (fval a)), drop_bit 1 (- of_bool (odd (fval a))))) =
      (if even (fval a) then fval a else fval a + (2 ^ 127 - 1))"
  proof (cases "even (fval a)")
    case True
    then show ?thesis using fval_less [of a] by (simp add: fval_add2) (simp add: fval_def)
  next
    case False
    then show ?thesis using assms by (simp only: fval_add2 of_bool_eq not_False_eq_True not_True_eq_False ones if_False) (simp add: reduced_def)
  qed
  then show ?thesis by (simp only: fphalf1271_def Let_def parity diff_0 shifted_right_one)
qed

lemma fphalf1271_ring:
  assumes "reduced a"
  shows "fp (fphalf1271 a) + fp (fphalf1271 a) = fp a" and "reduced (fphalf1271 a)"
proof -
  have twice: "y div 2 + y div 2 = y" if "even y" for y :: nat using that by (auto elim: evenE)
  have "fval (fphalf1271 a) + fval (fphalf1271 a) = fval a \<or> fval (fphalf1271 a) + fval (fphalf1271 a) = fval a + (2 ^ 127 - 1)"
    unfolding fphalf1271_val [OF assms] by (cases "even (fval a)") (simp_all add: twice)
  then show "fp (fphalf1271 a) + fp (fphalf1271 a) = fp a"
    unfolding fp_def using gf_diff [of "fval (fphalf1271 a)" "fval (fphalf1271 a)" "fval a"] by (simp add: algebra_simps)
  show "reduced (fphalf1271 a)" using assms unfolding reduced_def fphalf1271_val [OF assms] by auto
qed

lemma aarch64_carry_iff:
  "addcarry_aarch64 c a b = addcarry_u64 c a b \<longleftrightarrow> \<not> (c \<and> b = 0xFFFFFFFFFFFFFFFF)"
  "subborrow_aarch64 c a b = subborrow_u64 c a b \<longleftrightarrow> \<not> (c \<and> b = 0xFFFFFFFFFFFFFFFF)"
proof -
  have top: "0xFFFFFFFFFFFFFFFF = (- 1 :: u64)" by simp
  have next_val: "unat (b + (if c then 1 else 0)) = unat b + of_bool c" if "\<not> (c \<and> b = - 1)"
    using that unat_u64_less [of b]
    by (auto simp: unat_word_ariths word_unat_eq_iff unsigned_minus_1_eq_mask mask_eq_exp_minus_1 mod_if)
  show "addcarry_aarch64 c a b = addcarry_u64 c a b \<longleftrightarrow> \<not> (c \<and> b = 0xFFFFFFFFFFFFFFFF)"
    unfolding top
  proof (cases "c \<and> b = - 1")
    case True
    then show "addcarry_aarch64 c a b = addcarry_u64 c a b \<longleftrightarrow> \<not> (c \<and> b = - 1)"
      by (auto simp: addcarry_aarch64_def addcarry_u64_def unsigned_minus_1_eq_mask mask_eq_exp_minus_1)
  next
    case False
    have "unat (0xFFFFFFFFFFFFFFFF - a) = 2 ^ 64 - 1 - unat a"
      using unat_u64_less [of a] by (simp add: unat_sub word_le_nat_alt)
    then show "addcarry_aarch64 c a b = addcarry_u64 c a b \<longleftrightarrow> \<not> (c \<and> b = - 1)"
      using next_val [OF False] False unat_u64_less [of a]
      by (auto simp: addcarry_aarch64_def addcarry_u64_def word_less_nat_alt)
  qed
  show "subborrow_aarch64 c a b = subborrow_u64 c a b \<longleftrightarrow> \<not> (c \<and> b = 0xFFFFFFFFFFFFFFFF)"
    unfolding top
  proof (cases "c \<and> b = - 1")
    case True
    then show "subborrow_aarch64 c a b = subborrow_u64 c a b \<longleftrightarrow> \<not> (c \<and> b = - 1)"
      using unat_u64_less [of a] by (auto simp: subborrow_aarch64_def subborrow_u64_def unsigned_minus_1_eq_mask mask_eq_exp_minus_1)
  next
    case False
    then show "subborrow_aarch64 c a b = subborrow_u64 c a b \<longleftrightarrow> \<not> (c \<and> b = - 1)"
      using next_val [OF False] by (auto simp: subborrow_aarch64_def subborrow_u64_def word_less_nat_alt)
  qed
qed

section \<open>Properties\<close>

text \<open>
  Claim C33. The limb arithmetic is that of the field: for reduced operands, addition, subtraction,
  negation, multiplication and squaring over carry chains return reduced limbs whose value is the sum,
  difference, negative, product and square modulo \<open>2^127 - 1\<close>, and halving returns the half.
\<close>

theorem field_operations_exact:
  assumes "reduced a" and "reduced b"
  shows "fp (fpadd1271 a b) = fp a + fp b \<and> reduced (fpadd1271 a b) \<and>
    fp (fpsub1271 a b) = fp a - fp b \<and> reduced (fpsub1271 a b) \<and>
    fp (fpmul1271 a b) = fp a * fp b \<and> reduced (fpmul1271 a b) \<and>
    fp (fpsqr1271 a) = fp a * fp a \<and> reduced (fpsqr1271 a) \<and>
    fp (fpneg1271 a) = - fp a \<and> reduced (fpneg1271 a) \<and>
    fp (fphalf1271 a) + fp (fphalf1271 a) = fp a \<and> reduced (fphalf1271 a)"
  using assms by (simp add: field_ops fphalf1271_ring power2_eq_square)

theorem field_operations_exact_witness:
  "fp (fpmul1271 (3, 0x4000000000000000) (0xFFFFFFFFFFFFFFFE, 0x7FFFFFFFFFFFFFFF)) =
     fp (3, 0x4000000000000000) * fp (0xFFFFFFFFFFFFFFFE, 0x7FFFFFFFFFFFFFFF)"
  using field_operations_exact [of "(3, 0x4000000000000000)" "(0xFFFFFFFFFFFFFFFE, 0x7FFFFFFFFFFFFFFF)"]
  by (simp add: reduced_def fval_def)

text \<open>
  The replacements of the carry intrinsics on a machine without them agree with the
  intrinsics except when a carry comes in and the second operand has all bits set: there the flag
  that goes out is lost.
\<close>

lemma aarch64_carry_exact_iff:
  "(addcarry_aarch64 c a b = addcarry_u64 c a b \<longleftrightarrow> \<not> (c \<and> b = 0xFFFFFFFFFFFFFFFF)) \<and>
   (subborrow_aarch64 c a b = subborrow_u64 c a b \<longleftrightarrow> \<not> (c \<and> b = 0xFFFFFFFFFFFFFFFF)) \<and>
   snd (addcarry_aarch64 c a b) = snd (addcarry_u64 c a b) \<and> snd (subborrow_aarch64 c a b) = snd (subborrow_u64 c a b)"
  using aarch64_carry_iff [of c a b]
  by (simp add: addcarry_aarch64_def addcarry_u64_def subborrow_aarch64_def subborrow_u64_def of_bool_def algebra_simps)

end
