(* ===== verification/FourQ.thy ===== *)
theory FourQ
  imports Field1271
begin

text \<open>
  The curve arithmetic of FourQ in \<open>K12AndKeyUtil.h\<close>: extended twisted Edwards coordinates, their
  conversions, doubling, the two additions, the endomorphisms and the validation of a point. An
  extended point stands for an affine point when its coordinates are that point's scaled by a common
  factor; the lemmas show that the formulas compute the affine addition law on what they stand for.
\<close>

section \<open>The code\<close>

record point_affine =
  ax :: f2elm_t
  ay :: f2elm_t

record point_extproj =
  px :: f2elm_t
  py :: f2elm_t
  pz :: f2elm_t
  pta :: f2elm_t
  ptb :: f2elm_t

record point_extproj_precomp =
  rxy :: f2elm_t
  ryx :: f2elm_t
  rz2 :: f2elm_t
  rt2 :: f2elm_t

record point_precomp =
  sxy :: f2elm_t
  syx :: f2elm_t
  st2 :: f2elm_t

definition PARAMETER_d :: f2elm_t where
  "PARAMETER_d = ((0x0000000000000142, 0x00000000000000E4), (0xB3821488F1FC0C8D, 0x5E472F846657E0FC))"

definition ONE2 :: f2elm_t where
  "ONE2 = ((1, 0), (0, 0))"

definition ctau1 :: f2elm_t where
  "ctau1 = ((0x74DCD57CEBCE74C3, 0x1964DE2C3AFAD20C), (0x12, 0x0C))"
definition ctaudual1 :: f2elm_t where
  "ctaudual1 = ((0x9ECAA6D9DECDF034, 0x4AA740EB23058652), (0x11, 0x7FFFFFFFFFFFFFF4))"
definition cphi0 :: f2elm_t where
  "cphi0 = ((0xFFFFFFFFFFFFFFF7, 0x05), (0x4F65536CEF66F81A, 0x2553A0759182C329))"
definition cphi1 :: f2elm_t where
  "cphi1 = ((0x07, 0x05), (0x334D90E9E28296F9, 0x62C8CAA0C50C62CF))"
definition cphi2 :: f2elm_t where
  "cphi2 = ((0x15, 0x0F), (0x2C2CB7154F1DF391, 0x78DF262B6C9B5C98))"
definition cphi3 :: f2elm_t where
  "cphi3 = ((0x03, 0x02), (0x92440457A7962EA4, 0x5084C6491D76342A))"
definition cphi4 :: f2elm_t where
  "cphi4 = ((0x03, 0x03), (0xA1098C923AEC6855, 0x12440457A7962EA4))"
definition cphi5 :: f2elm_t where
  "cphi5 = ((0x0F, 0x0A), (0x669B21D3C5052DF3, 0x459195418A18C59E))"
definition cphi6 :: f2elm_t where
  "cphi6 = ((0x18, 0x12), (0xCD3643A78A0A5BE7, 0x0B232A8314318B3C))"
definition cphi7 :: f2elm_t where
  "cphi7 = ((0x23, 0x18), (0x66C183035F48781A, 0x3963BC1C99E2EA1A))"
definition cphi8 :: f2elm_t where
  "cphi8 = ((0xF0, 0xAA), (0x44E251582B5D0EF0, 0x1F529F860316CBE5))"
definition cphi9 :: f2elm_t where
  "cphi9 = ((0xBEF, 0x870), (0x14D3E48976E2505, 0xFD52E9CFE00375B))"
definition cpsi1 :: f2elm_t where
  "cpsi1 = ((0xEDF07F4767E346EF, 0x2AF99E9A83D54A02), (0x13A, 0xDE))"
definition cpsi2 :: f2elm_t where
  "cpsi2 = ((0x143, 0xE4), (0x4C7DEB770E03F372, 0x21B8D07B99A81F03))"
definition cpsi3 :: f2elm_t where
  "cpsi3 = ((0x09, 0x06), (0x3A6E6ABE75E73A61, 0x4CB26F161D7D6906))"
definition cpsi4 :: f2elm_t where
  "cpsi4 = ((0xFFFFFFFFFFFFFFF6, 0x7FFFFFFFFFFFFFF9), (0xC59195418A18C59E, 0x334D90E9E28296F9))"

text \<open>The affine point; the code also overwrites \<open>P->z\<close>, which no caller reads again.\<close>

definition eccnorm :: "point_extproj \<Rightarrow> point_affine" where
  "eccnorm P =
     (let t1_0 = fpsqr1271 (fst (pz P));
          t1_1 = fpsqr1271 (snd (pz P));
          t1_0 = fpadd1271 t1_0 t1_1;
          t1_1 = fpexp1251 t1_0;
          t1_1 = fpsqr1271 t1_1;
          t1_1 = fpsqr1271 t1_1;
          t1_0 = fpmul1271 t1_0 t1_1;
          z1 = fpneg1271 (snd (pz P));
          z0 = fpmul1271 (fst (pz P)) t1_0;
          z1 = fpmul1271 z1 t1_0;
          qx = fp2mul1271 (px P) (z0, z1);
          qy = fp2mul1271 (py P) (z0, z1)
      in \<lparr>ax = (mod1271 (fst qx), mod1271 (snd qx)), ay = (mod1271 (fst qy), mod1271 (snd qy))\<rparr>)"

definition R1_to_R2 :: "point_extproj \<Rightarrow> point_extproj_precomp" where
  "R1_to_R2 P =
     (let t2 = fp2add1271 (pta P) (pta P);
          xy = fp2add1271 (px P) (py P);
          yx = fp2sub1271 (py P) (px P);
          t2 = fp2mul1271 t2 (ptb P);
          z2 = fp2add1271 (pz P) (pz P);
          t2 = fp2mul1271 t2 PARAMETER_d
      in \<lparr>rxy = xy, ryx = yx, rz2 = z2, rt2 = t2\<rparr>)"

definition R1_to_R3 :: "point_extproj \<Rightarrow> point_extproj_precomp" where
  "R1_to_R3 P =
     \<lparr>rxy = fp2add1271 (px P) (py P), ryx = fp2sub1271 (py P) (px P), rz2 = pz P, rt2 = fp2mul1271 (pta P) (ptb P)\<rparr>"

definition R2_to_R4 :: "point_extproj_precomp \<Rightarrow> point_extproj \<Rightarrow> point_extproj" where
  "R2_to_R4 P Q = Q\<lparr>px := fp2sub1271 (rxy P) (ryx P), py := fp2add1271 (rxy P) (ryx P), pz := rz2 P\<rparr>"

definition eccdouble :: "point_extproj \<Rightarrow> point_extproj" where
  "eccdouble P =
     (let t1 = fp2sqr1271 (px P);
          t2 = fp2sqr1271 (py P);
          x = fp2add1271 (px P) (py P);
          tb = fp2add1271 t1 t2;
          t1 = fp2sub1271 t2 t1;
          ta = fp2sqr1271 x;
          t2 = fp2sqr1271 (pz P);
          ta = fp2sub1271 ta tb;
          (_, t2) = fp2addsub1271 t2 t1;
          y = fp2mul1271 t1 tb;
          x = fp2mul1271 t2 ta;
          z = fp2mul1271 t1 t2
      in \<lparr>px = x, py = y, pz = z, pta = ta, ptb = tb\<rparr>)"

definition eccadd_core :: "point_extproj_precomp \<Rightarrow> point_extproj_precomp \<Rightarrow> point_extproj" where
  "eccadd_core P Q =
     (let z = fp2mul1271 (rt2 P) (rt2 Q);
          t1 = fp2mul1271 (rz2 P) (rz2 Q);
          x = fp2mul1271 (rxy P) (rxy Q);
          y = fp2mul1271 (ryx P) (ryx Q);
          t2 = fp2sub1271 t1 z;
          t1 = fp2add1271 t1 z;
          tb = fp2sub1271 x y;
          ta = fp2add1271 x y;
          x = fp2mul1271 tb t2;
          z = fp2mul1271 t1 t2;
          y = fp2mul1271 ta t1
      in \<lparr>px = x, py = y, pz = z, pta = ta, ptb = tb\<rparr>)"

definition eccadd :: "point_extproj_precomp \<Rightarrow> point_extproj \<Rightarrow> point_extproj" where
  "eccadd Q P = eccadd_core Q (R1_to_R3 P)"

definition point_setup :: "point_affine \<Rightarrow> point_extproj" where
  "point_setup P = \<lparr>px = ax P, py = ay P, pz = ONE2, pta = ax P, ptb = ay P\<rparr>"

text \<open>The zero test of one component.\<close>

definition limbs_vanish :: "felm_t \<Rightarrow> bool" where
  "limbs_vanish t \<longleftrightarrow> fst t OR snd t = 0 \<or> (fst t + 1) OR (snd t + 1) = 0"

definition ecc_point_validate :: "point_extproj \<Rightarrow> bool" where
  "ecc_point_validate P =
     (let t1 = fp2sqr1271 (py P);
          t2 = fp2sqr1271 (px P);
          t3 = fp2sub1271 t1 t2;
          t1 = fp2mul1271 t1 t2;
          t2 = fp2mul1271 t1 PARAMETER_d;
          t1 = ONE2;
          t2 = fp2add1271 t2 t1;
          t1 = fp2sub1271 t3 t2
      in limbs_vanish (fst t1) \<and> limbs_vanish (snd t1))"

definition eccmadd :: "point_precomp \<Rightarrow> point_extproj \<Rightarrow> point_extproj" where
  "eccmadd Q P =
     (let ta = fp2mul1271 (pta P) (ptb P);
          t1 = fp2add1271 (pz P) (pz P);
          ta = fp2mul1271 ta (st2 Q);
          z = fp2add1271 (px P) (py P);
          tb = fp2sub1271 (py P) (px P);
          t2 = fp2sub1271 t1 ta;
          t1 = fp2add1271 t1 ta;
          ta = fp2mul1271 (sxy Q) z;
          x = fp2mul1271 (syx Q) tb;
          z = fp2mul1271 t1 t2;
          tb = fp2sub1271 ta x;
          ta = fp2add1271 ta x;
          x = fp2mul1271 tb t2;
          y = fp2mul1271 ta t1
      in \<lparr>px = x, py = y, pz = z, pta = ta, ptb = tb\<rparr>)"

definition ecc_tau :: "point_extproj \<Rightarrow> point_extproj" where
  "ecc_tau P =
     (let t0 = fp2sqr1271 (px P);
          t1 = fp2sqr1271 (py P);
          x = fp2mul1271 (px P) (py P);
          y = fp2sqr1271 (pz P);
          z = fp2add1271 t0 t1;
          t0 = fp2sub1271 t1 t0;
          y = fp2add1271 y y;
          x = fp2mul1271 x t0;
          y = fp2sub1271 y t0;
          x = fp2mul1271 x ctau1;
          y = fp2mul1271 y z;
          z = fp2mul1271 z t0
      in P\<lparr>px := x, py := y, pz := z\<rparr>)"

definition ecc_tau_dual :: "point_extproj \<Rightarrow> point_extproj" where
  "ecc_tau_dual P =
     (let t0 = fp2sqr1271 (px P);
          ta = fp2sqr1271 (pz P);
          t1 = fp2sqr1271 (py P);
          z = fp2add1271 ta ta;
          ta = fp2sub1271 t1 t0;
          t0 = fp2add1271 t0 t1;
          x = fp2mul1271 (px P) (py P);
          z = fp2sub1271 z ta;
          tb = fp2mul1271 x ctaudual1;
          y = fp2mul1271 z ta;
          x = fp2mul1271 tb t0;
          z = fp2mul1271 z t0
      in \<lparr>px = x, py = y, pz = z, pta = ta, ptb = tb\<rparr>)"

definition fpconj :: "f2elm_t \<Rightarrow> f2elm_t" where
  "fpconj a = (fst a, fpneg1271 (snd a))"

definition ecc_delphidel :: "point_extproj \<Rightarrow> point_extproj" where
  "ecc_delphidel P =
     (let t4 = fp2sqr1271 (pz P);
          t3 = fp2mul1271 (py P) (pz P);
          t0 = fp2mul1271 t4 cphi4;
          t2 = fp2sqr1271 (py P);
          t0 = fp2add1271 t0 t2;
          t1 = fp2mul1271 t3 cphi3;
          t5 = fp2sub1271 t0 t1;
          t0 = fp2add1271 t0 t1;
          t0 = fp2mul1271 t0 (pz P);
          t1 = fp2mul1271 t3 cphi1;
          t0 = fp2mul1271 t0 t5;
          t5 = fp2mul1271 t4 cphi2;
          t5 = fp2add1271 t2 t5;
          t6 = fp2sub1271 t1 t5;
          t1 = fp2add1271 t1 t5;
          t6 = fp2mul1271 t6 t1;
          t6 = fp2mul1271 t6 cphi0;
          x = fp2mul1271 (px P) t6;
          t6 = fp2sqr1271 t2;
          t2 = fp2sqr1271 t3;
          t3 = fp2sqr1271 t4;
          t1 = fp2mul1271 t2 cphi8;
          t5 = fp2mul1271 t3 cphi9;
          t1 = fp2add1271 t1 t6;
          t2 = fp2mul1271 t2 cphi6;
          t3 = fp2mul1271 t3 cphi7;
          t1 = fp2add1271 t1 t5;
          t2 = fp2add1271 t2 t3;
          t1 = fp2mul1271 t1 (py P);
          y = fp2add1271 t6 t2;
          x = fp2mul1271 x t1;
          y = fp2mul1271 y cphi5;
          x = fpconj x;
          y = fp2mul1271 y (pz P);
          z = fp2mul1271 t0 t1;
          y = fp2mul1271 y t0;
          z = fpconj z;
          y = fpconj y
      in P\<lparr>px := x, py := y, pz := z\<rparr>)"

definition ecc_delpsidel :: "point_extproj \<Rightarrow> point_extproj" where
  "ecc_delpsidel P =
     (let x = fpconj (px P);
          z = fpconj (pz P);
          y = fpconj (py P);
          t2 = fp2sqr1271 z;
          t0 = fp2sqr1271 x;
          x = fp2mul1271 x t2;
          z = fp2mul1271 t2 cpsi2;
          t1 = fp2mul1271 t2 cpsi3;
          t2 = fp2mul1271 t2 cpsi4;
          z = fp2add1271 t0 z;
          t2 = fp2add1271 t0 t2;
          t1 = fp2add1271 t0 t1;
          t2 = fp2neg1271 t2;
          z = fp2mul1271 z y;
          x = fp2mul1271 x t2;
          y = fp2mul1271 t1 z;
          x = fp2mul1271 x cpsi1;
          z = fp2mul1271 z t2
      in P\<lparr>px := x, py := y, pz := z\<rparr>)"

definition ecc_psi :: "point_extproj \<Rightarrow> point_extproj" where
  "ecc_psi P = ecc_tau_dual (ecc_delpsidel (ecc_tau P))"

definition ecc_phi :: "point_extproj \<Rightarrow> point_extproj" where
  "ecc_phi P = ecc_tau_dual (ecc_delphidel (ecc_tau P))"

definition eccneg_extproj_precomp :: "point_extproj_precomp \<Rightarrow> point_extproj_precomp" where
  "eccneg_extproj_precomp P = \<lparr>rxy = ryx P, ryx = rxy P, rz2 = rz2 P, rt2 = fp2neg1271 (rt2 P)\<rparr>"

definition eccneg_precomp :: "point_precomp \<Rightarrow> point_precomp" where
  "eccneg_precomp P = \<lparr>sxy = syx P, syx = sxy P, st2 = fp2neg1271 (st2 P)\<rparr>"

text \<open>The tables of precomputed points, each with the point the code leaves in its argument.\<close>

definition ecc_precomp_double :: "point_extproj \<Rightarrow> point_extproj_precomp list \<times> point_extproj" where
  "ecc_precomp_double P =
     (let T0 = R1_to_R2 P;
          P = eccdouble P;
          PP = R1_to_R3 P;
          T1 = R1_to_R2 (eccadd_core T0 PP);
          T2 = R1_to_R2 (eccadd_core T1 PP);
          T3 = R1_to_R2 (eccadd_core T2 PP)
      in ([T0, T1, T2, T3], P))"

definition ecc_precomp :: "point_extproj \<Rightarrow> point_extproj_precomp list \<times> point_extproj" where
  "ecc_precomp P =
     (let PP = ecc_phi P;
          Q = R1_to_R3 PP;
          PP = ecc_psi PP;
          S = R1_to_R3 PP;
          T0 = R1_to_R2 P;
          P = ecc_psi P;
          R = R1_to_R3 P;
          T1 = R1_to_R2 (eccadd_core T0 Q);
          T2 = R1_to_R2 (eccadd_core T0 R);
          T3 = R1_to_R2 (eccadd_core T1 R);
          T4 = R1_to_R2 (eccadd_core T0 S);
          T5 = R1_to_R2 (eccadd_core T1 S);
          T6 = R1_to_R2 (eccadd_core T2 S);
          T7 = R1_to_R2 (eccadd_core T3 S)
      in ([T0, T1, T2, T3, T4, T5, T6, T7], P))"

definition cofactor_clearing :: "point_extproj \<Rightarrow> point_extproj" where
  "cofactor_clearing R =
     (let Q = R1_to_R2 R;
          R = eccdouble R;
          R = eccadd Q R;
          R = eccdouble R;
          R = eccdouble R;
          R = eccdouble R;
          R = eccdouble R;
          R = eccadd Q R;
          R = eccdouble R;
          R = eccdouble R
      in eccdouble R)"

section \<open>The affine law\<close>

definition curve_d :: gf2 where
  "curve_d = fp2 PARAMETER_d"

definition on_curve :: "gf2 \<times> gf2 \<Rightarrow> bool" where
  "on_curve P \<longleftrightarrow> (case P of (x, y) \<Rightarrow> y * y - x * x = 1 + curve_d * (x * x) * (y * y))"

text \<open>
  The addition law of the twisted Edwards curve with \<open>a = -1\<close>, without division: the third point
  solves the two equations.
\<close>

definition edwards_sum :: "gf2 \<times> gf2 \<Rightarrow> gf2 \<times> gf2 \<Rightarrow> gf2 \<times> gf2 \<Rightarrow> bool" where
  "edwards_sum P Q R \<longleftrightarrow> (case (P, Q, R) of ((x1, y1), (x2, y2), (x3, y3)) \<Rightarrow>
     x3 * (1 + curve_d * (x1 * x2) * (y1 * y2)) = x1 * y2 + y1 * x2 \<and>
     y3 * (1 - curve_d * (x1 * x2) * (y1 * y2)) = y1 * y2 + x1 * x2)"

text \<open>What the four representations stand for.\<close>

definition stands_for :: "point_extproj \<Rightarrow> gf2 \<times> gf2 \<Rightarrow> bool" where
  "stands_for P a \<longleftrightarrow> reduced2 (px P) \<and> reduced2 (py P) \<and> reduced2 (pz P) \<and> reduced2 (pta P) \<and> reduced2 (ptb P) \<and>
     fp2 (px P) = fst a * fp2 (pz P) \<and> fp2 (py P) = snd a * fp2 (pz P) \<and>
     fp2 (pta P) * fp2 (ptb P) = fst a * snd a * fp2 (pz P)"

definition stands_for_R2 :: "point_extproj_precomp \<Rightarrow> gf2 \<times> gf2 \<Rightarrow> gf2 \<Rightarrow> bool" where
  "stands_for_R2 Q a z \<longleftrightarrow> reduced2 (rxy Q) \<and> reduced2 (ryx Q) \<and> reduced2 (rz2 Q) \<and> reduced2 (rt2 Q) \<and>
     fp2 (rxy Q) = (fst a + snd a) * z \<and> fp2 (ryx Q) = (snd a - fst a) * z \<and> fp2 (rz2 Q) = z + z \<and>
     fp2 (rt2 Q) = curve_d * (fst a * snd a) * (z + z)"

definition stands_for_R3 :: "point_extproj_precomp \<Rightarrow> gf2 \<times> gf2 \<Rightarrow> gf2 \<Rightarrow> bool" where
  "stands_for_R3 Q a z \<longleftrightarrow> reduced2 (rxy Q) \<and> reduced2 (ryx Q) \<and> reduced2 (rz2 Q) \<and> reduced2 (rt2 Q) \<and>
     fp2 (rxy Q) = (fst a + snd a) * z \<and> fp2 (ryx Q) = (snd a - fst a) * z \<and> fp2 (rz2 Q) = z \<and>
     fp2 (rt2 Q) = fst a * snd a * z"

definition stands_for_precomp :: "point_precomp \<Rightarrow> gf2 \<times> gf2 \<Rightarrow> bool" where
  "stands_for_precomp Q a \<longleftrightarrow> reduced2 (sxy Q) \<and> reduced2 (syx Q) \<and> reduced2 (st2 Q) \<and>
     fp2 (sxy Q) = fst a + snd a \<and> fp2 (syx Q) = snd a - fst a \<and>
     fp2 (st2 Q) = curve_d * (fst a * snd a) + curve_d * (fst a * snd a)"

lemma reduced2_d: "reduced2 PARAMETER_d" and reduced2_one: "reduced2 ONE2" and fp2_one: "fp2 ONE2 = 1"
  by (simp_all add: PARAMETER_d_def ONE2_def reduced2_def reduced_def fval_def fp2_def fp_def one_gf2_def)

lemma R1_to_R2_stands:
  assumes "stands_for P a"
  shows "stands_for_R2 (R1_to_R2 P) a (fp2 (pz P))"
proof -
  have "fp2 (pta P) * fp2 (ptb P) = fst a * snd a * fp2 (pz P)" using assms by (simp add: stands_for_def)
  then have "(fp2 (pta P) + fp2 (pta P)) * fp2 (ptb P) * curve_d = curve_d * (fst a * snd a) * (fp2 (pz P) + fp2 (pz P))"
    by (simp only: distrib_right distrib_left) (simp add: algebra_simps)
  with assms show ?thesis
    by (simp add: stands_for_def stands_for_R2_def R1_to_R2_def Let_def fp2_ops power2_eq_square reduced2_d curve_d_def [symmetric] algebra_simps)
qed

lemma R1_to_R3_stands: "stands_for P a \<Longrightarrow> stands_for_R3 (R1_to_R3 P) a (fp2 (pz P))"
  by (simp add: stands_for_def stands_for_R3_def R1_to_R3_def fp2_ops algebra_simps)

text \<open>The shared last step of both additions, and of doubling, in the ring.\<close>

lemma projective_result:
  fixes alpha beta theta omega :: gf2
  assumes "beta = x * alpha" and "omega = y * theta"
  shows "beta * theta = x * (alpha * theta)" "omega * alpha = y * (alpha * theta)" "omega * beta = x * y * (alpha * theta)"
  using assms by (simp_all add: algebra_simps)

lemma sum_numerators:
  assumes "edwards_sum (x1, y1) (x2, y2) (x3, y3)"
  shows "(x1 + y1) * (x2 + y2) * z - (y1 - x1) * (y2 - x2) * z = x3 * (z + z + curve_d * (x1 * x2) * (y1 * y2) * (z + z))"
    and "(x1 + y1) * (x2 + y2) * z + (y1 - x1) * (y2 - x2) * z = y3 * (z + z - curve_d * (x1 * x2) * (y1 * y2) * (z + z))"
proof -
  let ?k = "curve_d * (x1 * x2) * (y1 * y2)"
  have x3: "x3 * (1 + ?k) = x1 * y2 + y1 * x2" and y3: "y3 * (1 - ?k) = y1 * y2 + x1 * x2"
    using assms by (simp_all add: edwards_sum_def)
  have "(x1 + y1) * (x2 + y2) * z - (y1 - x1) * (y2 - x2) * z = (x1 * y2 + y1 * x2) * (z + z)"
    by (simp add: algebra_simps)
  also have "\<dots> = x3 * (z + z + ?k * (z + z))" unfolding x3 [symmetric] by (simp add: algebra_simps)
  finally show "(x1 + y1) * (x2 + y2) * z - (y1 - x1) * (y2 - x2) * z = x3 * (z + z + ?k * (z + z))" .
  have "(x1 + y1) * (x2 + y2) * z + (y1 - x1) * (y2 - x2) * z = (y1 * y2 + x1 * x2) * (z + z)"
    by (simp add: algebra_simps)
  also have "\<dots> = y3 * (z + z - ?k * (z + z))" unfolding y3 [symmetric] by (simp add: algebra_simps)
  finally show "(x1 + y1) * (x2 + y2) * z + (y1 - x1) * (y2 - x2) * z = y3 * (z + z - ?k * (z + z))" .
qed

lemma projective_stands:
  assumes red: "reduced2 al" "reduced2 be" "reduced2 th" "reduced2 om"
    and beta: "fp2 be = fst a * fp2 al" and omega: "fp2 om = snd a * fp2 th"
    and P: "P = \<lparr>px = fp2mul1271 be th, py = fp2mul1271 om al, pz = fp2mul1271 al th, pta = om, ptb = be\<rparr>"
  shows "stands_for P a"
proof -
  note R = projective_result [OF beta omega]
  show ?thesis unfolding P stands_for_def by (simp add: fp2_ops power2_eq_square red R)
qed

lemma eccadd_core_stands:
  assumes P: "stands_for_R2 P a z" and Q: "stands_for_R3 Q b w" and sum: "edwards_sum a b c"
  shows "stands_for (eccadd_core P Q) c"
proof -
  obtain x1 y1 x2 y2 x3 y3 where abc: "a = (x1, y1)" "b = (x2, y2)" "c = (x3, y3)" by fastforce
  note S = sum_numerators [OF sum [unfolded abc], of "z * w"]
  have red: "reduced2 (rxy P)" "reduced2 (ryx P)" "reduced2 (rz2 P)" "reduced2 (rt2 P)"
    "reduced2 (rxy Q)" "reduced2 (ryx Q)" "reduced2 (rz2 Q)" "reduced2 (rt2 Q)"
    using P Q by (simp_all add: stands_for_R2_def stands_for_R3_def)
  have v: "fp2 (rxy P) = (x1 + y1) * z" "fp2 (ryx P) = (y1 - x1) * z" "fp2 (rz2 P) = z + z"
    "fp2 (rt2 P) = curve_d * (x1 * y1) * (z + z)"
    "fp2 (rxy Q) = (x2 + y2) * w" "fp2 (ryx Q) = (y2 - x2) * w" "fp2 (rz2 Q) = w" "fp2 (rt2 Q) = x2 * y2 * w"
    using P Q by (simp_all add: stands_for_R2_def stands_for_R3_def abc)
  let ?t1 = "fp2mul1271 (rz2 P) (rz2 Q)" and ?zz = "fp2mul1271 (rt2 P) (rt2 Q)"
    and ?x = "fp2mul1271 (rxy P) (rxy Q)" and ?y = "fp2mul1271 (ryx P) (ryx Q)"
  show ?thesis
  proof (rule projective_stands)
    show "fp2 (fp2sub1271 ?x ?y) = fst c * fp2 (fp2add1271 ?t1 ?zz)"
      using S(1) by (simp add: fp2_ops power2_eq_square red v abc algebra_simps)
    show "fp2 (fp2add1271 ?x ?y) = snd c * fp2 (fp2sub1271 ?t1 ?zz)"
      using S(2) by (simp add: fp2_ops power2_eq_square red v abc algebra_simps)
    show "eccadd_core P Q = \<lparr>px = fp2mul1271 (fp2sub1271 ?x ?y) (fp2sub1271 ?t1 ?zz),
        py = fp2mul1271 (fp2add1271 ?x ?y) (fp2add1271 ?t1 ?zz), pz = fp2mul1271 (fp2add1271 ?t1 ?zz) (fp2sub1271 ?t1 ?zz),
        pta = fp2add1271 ?x ?y, ptb = fp2sub1271 ?x ?y\<rparr>" by (simp add: eccadd_core_def Let_def)
  qed (simp_all add: fp2_ops power2_eq_square red)
qed

lemma eccadd_stands:
  assumes "stands_for_R2 Q a z" and "stands_for P b" and "edwards_sum a b c"
  shows "stands_for (eccadd Q P) c"
  unfolding eccadd_def by (rule eccadd_core_stands [OF assms(1) R1_to_R3_stands [OF assms(2)] assms(3)])

lemma eccmadd_stands:
  assumes Q: "stands_for_precomp Q a" and P: "stands_for P b" and sum: "edwards_sum a b c"
  shows "stands_for (eccmadd Q P) c"
proof -
  obtain x1 y1 x2 y2 x3 y3 where abc: "a = (x1, y1)" "b = (x2, y2)" "c = (x3, y3)" by fastforce
  define w where "w = fp2 (pz P)"
  note S = sum_numerators [OF sum [unfolded abc], of w]
  have red: "reduced2 (px P)" "reduced2 (py P)" "reduced2 (pz P)" "reduced2 (pta P)" "reduced2 (ptb P)"
    "reduced2 (sxy Q)" "reduced2 (syx Q)" "reduced2 (st2 Q)"
    using P Q by (simp_all add: stands_for_def stands_for_precomp_def)
  have v: "fp2 (px P) = x2 * w" "fp2 (py P) = y2 * w" "fp2 (pta P) * fp2 (ptb P) = x2 * y2 * w" "fp2 (pz P) = w"
    "fp2 (sxy Q) = x1 + y1" "fp2 (syx Q) = y1 - x1" "fp2 (st2 Q) = curve_d * (x1 * y1) + curve_d * (x1 * y1)"
    using P Q by (simp_all add: stands_for_def stands_for_precomp_def abc w_def)
  let ?t = "fp2mul1271 (fp2mul1271 (pta P) (ptb P)) (st2 Q)" and ?t1 = "fp2add1271 (pz P) (pz P)"
    and ?x = "fp2mul1271 (sxy Q) (fp2add1271 (px P) (py P))" and ?y = "fp2mul1271 (syx Q) (fp2sub1271 (py P) (px P))"
  show ?thesis
  proof (rule projective_stands)
    show "fp2 (fp2sub1271 ?x ?y) = fst c * fp2 (fp2add1271 ?t1 ?t)"
      using S(1) by (simp add: fp2_ops power2_eq_square red v abc algebra_simps)
    show "fp2 (fp2add1271 ?x ?y) = snd c * fp2 (fp2sub1271 ?t1 ?t)"
      using S(2) by (simp add: fp2_ops power2_eq_square red v abc algebra_simps)
    show "eccmadd Q P = \<lparr>px = fp2mul1271 (fp2sub1271 ?x ?y) (fp2sub1271 ?t1 ?t),
        py = fp2mul1271 (fp2add1271 ?x ?y) (fp2add1271 ?t1 ?t), pz = fp2mul1271 (fp2add1271 ?t1 ?t) (fp2sub1271 ?t1 ?t),
        pta = fp2add1271 ?x ?y, ptb = fp2sub1271 ?x ?y\<rparr>" by (simp add: eccmadd_def Let_def)
  qed (simp_all add: fp2_ops power2_eq_square red)
qed

text \<open>Doubling reads only the projective part of a point.\<close>

definition stands_proj :: "point_extproj \<Rightarrow> gf2 \<times> gf2 \<Rightarrow> bool" where
  "stands_proj P a \<longleftrightarrow> reduced2 (px P) \<and> reduced2 (py P) \<and> reduced2 (pz P) \<and>
     fp2 (px P) = fst a * fp2 (pz P) \<and> fp2 (py P) = snd a * fp2 (pz P)"

lemma stands_for_proj: "stands_for P a \<Longrightarrow> stands_proj P a"
  by (simp add: stands_for_def stands_proj_def)

lemma eccdouble_stands_proj:
  assumes P: "stands_proj P a" and curve: "on_curve a" and sum: "edwards_sum a a c"
  shows "stands_for (eccdouble P) c"
proof -
  obtain x y x3 y3 where ac: "a = (x, y)" "c = (x3, y3)" by fastforce
  define w where "w = fp2 (pz P)"
  let ?k = "curve_d * (x * x) * (y * y)"
  have c: "y * y - x * x = 1 + ?k" using curve by (simp add: on_curve_def ac)
  have x3: "x3 * (1 + ?k) = x * y + y * x" and y3: "y3 * (1 - ?k) = y * y + x * x"
    using sum by (simp_all add: edwards_sum_def ac)
  have red: "reduced2 (px P)" "reduced2 (py P)" "reduced2 (pz P)" using P by (simp_all add: stands_proj_def)
  have v: "fp2 (px P) = x * w" "fp2 (py P) = y * w" "fp2 (pz P) = w" using P by (simp_all add: stands_proj_def ac w_def)
  let ?t1 = "fp2sqr1271 (px P)" and ?t2 = "fp2sqr1271 (py P)"
  let ?al = "fp2sub1271 ?t2 ?t1" and ?om = "fp2add1271 ?t1 ?t2" and ?zz = "fp2sqr1271 (pz P)"
  let ?be = "fp2sub1271 (fp2sqr1271 (fp2add1271 (px P) (py P))) ?om" and ?th = "fp2sub1271 (fp2add1271 ?zz ?zz) ?al"
  have al: "fp2 ?al = (1 + ?k) * (w * w)" unfolding c [symmetric] by (simp add: fp2_ops power2_eq_square red v algebra_simps)
  have th: "fp2 ?th = (1 - ?k) * (w * w)"
  proof -
    have "fp2 ?th = w * w + w * w - fp2 ?al" by (simp add: fp2_ops power2_eq_square red v)
    then show ?thesis unfolding al by (simp add: algebra_simps)
  qed
  have "stands_for \<lparr>px = fp2mul1271 ?be ?th, py = fp2mul1271 ?om ?al, pz = fp2mul1271 ?al ?th, pta = ?om, ptb = ?be\<rparr> c"
  proof (rule projective_stands)
    have "fp2 ?be = (x * y + y * x) * (w * w)" by (simp add: fp2_ops power2_eq_square red v algebra_simps)
    then show "fp2 ?be = fst c * fp2 ?al" unfolding al x3 [symmetric] ac by (simp add: algebra_simps)
    have "fp2 ?om = (y * y + x * x) * (w * w)" by (simp add: fp2_ops power2_eq_square red v algebra_simps)
    then show "fp2 ?om = snd c * fp2 ?th" unfolding th y3 [symmetric] ac by (simp add: algebra_simps)
  qed (simp_all add: fp2_ops power2_eq_square red)
  then show ?thesis
    by (simp add: eccdouble_def Let_def fp2addsub1271_def stands_for_def fp2_ops power2_eq_square red mult.commute)
qed

lemmas eccdouble_stands = eccdouble_stands_proj [OF stands_for_proj]

lemma eccneg_stands:
  assumes "stands_for_R2 Q (x, y) z"
  shows "stands_for_R2 (eccneg_extproj_precomp Q) (- x, y) z"
  using assms by (simp add: stands_for_R2_def eccneg_extproj_precomp_def fp2_ops algebra_simps)

lemma eccneg_precomp_stands:
  assumes "stands_for_precomp Q (x, y)"
  shows "stands_for_precomp (eccneg_precomp Q) (- x, y)"
  using assms by (simp add: stands_for_precomp_def eccneg_precomp_def fp2_ops algebra_simps)

lemma point_setup_stands:
  assumes "reduced2 (ax P)" and "reduced2 (ay P)"
  shows "stands_for (point_setup P) (fp2 (ax P), fp2 (ay P))"
  using assms by (simp add: stands_for_def point_setup_def reduced2_one fp2_one)

section \<open>Multiples of a point\<close>

text \<open>A sequence of points that is additive for the law of the curve.\<close>

definition multiples :: "(nat \<Rightarrow> gf2 \<times> gf2) \<Rightarrow> bool" where
  "multiples m \<longleftrightarrow> (\<forall>n. on_curve (m n)) \<and> (\<forall>i j. edwards_sum (m i) (m j) (m (i + j)))"

lemma double_multiple: "multiples m \<Longrightarrow> stands_for P (m n) \<Longrightarrow> stands_for (eccdouble P) (m (2 * n))"
  using eccdouble_stands [of P "m n" "m (n + n)"] by (simp add: multiples_def mult_2)

lemma add_multiple:
  assumes "multiples m" and "stands_for_R2 Q (m i) z" and "stands_for P (m j)"
  shows "stands_for (eccadd Q P) (m (i + j))"
  using eccadd_stands [OF assms(2,3)] assms(1) by (simp add: multiples_def)

lemma cofactor_clearing_multiple:
  assumes m: "multiples m" and P: "stands_for P (m n)"
  shows "stands_for (cofactor_clearing P) (m (392 * n))"
proof -
  note D = double_multiple [OF m] and A = add_multiple [OF m R1_to_R2_stands [OF P]]
  have "stands_for (eccadd (R1_to_R2 P) (eccdouble P)) (m (3 * n))"
    using A [OF D [OF P]] by simp
  from A [OF D [OF D [OF D [OF D [OF this]]]]]
  have "stands_for (eccadd (R1_to_R2 P) (eccdouble (eccdouble (eccdouble (eccdouble (eccadd (R1_to_R2 P) (eccdouble P))))))) (m (49 * n))"
    by simp
  from D [OF D [OF D [OF this]]] show ?thesis by (simp add: cofactor_clearing_def Let_def)
qed

text \<open>The points of order dividing four, as a sequence.\<close>

definition imaginary :: gf2 where
  "imaginary = Gf2 0 1"

lemma imaginary_square [simp]: "imaginary * imaginary = - 1"
  by (rule gf2.expand) (simp add: imaginary_def)

definition quarterTurns :: "nat \<Rightarrow> gf2 \<times> gf2" where
  "quarterTurns n = (if n mod 4 = 0 then (0, 1) else if n mod 4 = 1 then (imaginary, 0)
     else if n mod 4 = 2 then (0, - 1) else (- imaginary, 0))"

lemma quarterTurns_multiples: "multiples quarterTurns"
proof -
  have on: "on_curve (quarterTurns n)" for n
    by (simp add: on_curve_def quarterTurns_def)
  have sum: "edwards_sum (quarterTurns i) (quarterTurns j) (quarterTurns (i + j))" for i j
  proof -
    have r: "i mod 4 \<in> {0, 1, 2, 3}" "j mod 4 \<in> {0, 1, 2, 3}" by auto
    have "quarterTurns (i + j) = quarterTurns (i mod 4 + j mod 4)" by (simp add: quarterTurns_def mod_add_eq)
    moreover have "quarterTurns i = quarterTurns (i mod 4)" "quarterTurns j = quarterTurns (j mod 4)"
      by (simp_all add: quarterTurns_def)
    ultimately show ?thesis using r
      by (elim insertE emptyE) (simp_all add: edwards_sum_def quarterTurns_def)
  qed
  from on sum show ?thesis by (simp add: multiples_def)
qed

section \<open>Validation\<close>

lemma limbs_vanish_iff:
  assumes "reduced t"
  shows "limbs_vanish t \<longleftrightarrow> fval t = 0"
proof -
  have "fst t OR snd t = 0 \<longleftrightarrow> fval t = 0" by (auto simp: fval_def unat_eq_0 or_eq_0_iff)
  moreover have "snd t + 1 \<noteq> 0"
  proof
    assume "snd t + 1 = 0"
    then have "snd t = - 1" by (simp add: eq_neg_iff_add_eq_0)
    then show False using limbs_less [OF assms] by (simp add: unsigned_minus_1_eq_mask mask_eq_exp_minus_1)
  qed
  ultimately show ?thesis by (auto simp: limbs_vanish_def or_eq_0_iff)
qed

lemma fp_zero_iff:
  assumes "reduced t"
  shows "fp t = 0 \<longleftrightarrow> fval t = 0 \<or> fval t = 2 ^ 127 - 1"
proof -
  have "fp t = 0 \<longleftrightarrow> fval t mod (2 ^ 127 - 1) = 0" using gf_eq_iff [of "fval t" 0] by (simp add: fp_def)
  also have "\<dots> \<longleftrightarrow> fval t = 0 \<or> fval t = 2 ^ 127 - 1"
  proof (cases "fval t < 2 ^ 127 - 1")
    case False
    then have "fval t = 2 ^ 127 - 1" using assms by (simp add: reduced_def)
    then show ?thesis by simp
  qed auto
  finally show ?thesis .
qed

text \<open>The residue that the validation computes.\<close>

definition curveResidue :: "point_extproj \<Rightarrow> f2elm_t" where
  "curveResidue P =
     (let t1 = fp2sqr1271 (py P); t2 = fp2sqr1271 (px P)
      in fp2sub1271 (fp2sub1271 t1 t2) (fp2add1271 (fp2mul1271 (fp2mul1271 t1 t2) PARAMETER_d) ONE2))"

lemma curveResidue_val:
  assumes "reduced2 (px P)" and "reduced2 (py P)"
  shows "reduced2 (curveResidue P)" and "fp2 (curveResidue P) = 0 \<longleftrightarrow> on_curve (fp2 (px P), fp2 (py P))"
proof -
  show "reduced2 (curveResidue P)" using assms by (simp add: curveResidue_def Let_def fp2_ops reduced2_d reduced2_one)
  have "fp2 (curveResidue P) = fp2 (py P) * fp2 (py P) - fp2 (px P) * fp2 (px P) -
      (1 + curve_d * (fp2 (px P) * fp2 (px P)) * (fp2 (py P) * fp2 (py P)))"
    using assms by (simp add: curveResidue_def Let_def fp2_ops power2_eq_square reduced2_d reduced2_one fp2_one
        curve_d_def [symmetric] algebra_simps)
  then show "fp2 (curveResidue P) = 0 \<longleftrightarrow> on_curve (fp2 (px P), fp2 (py P))" by (simp only: on_curve_def prod.case right_minus_eq)
qed

lemma validate_iff:
  assumes "reduced2 (px P)" and "reduced2 (py P)"
  shows "ecc_point_validate P \<longleftrightarrow> fval (fst (curveResidue P)) = 0 \<and> fval (snd (curveResidue P)) = 0"
proof -
  have "ecc_point_validate P \<longleftrightarrow> limbs_vanish (fst (curveResidue P)) \<and> limbs_vanish (snd (curveResidue P))"
    by (simp add: ecc_point_validate_def curveResidue_def Let_def)
  then show ?thesis using curveResidue_val(1) [OF assms] by (simp add: reduced2_def limbs_vanish_iff)
qed

section \<open>Properties\<close>

text \<open>
  Claim C34. The point formulas compute the addition law of the curve: when the operands stand for
  the affine points \<open>a\<close> and \<open>b\<close> and \<open>c\<close> is their sum under the affine law, the unified addition of a
  converted point, the mixed addition of a table entry, and, for a point of the curve with itself, the
  dedicated doubling return extended coordinates that stand for \<open>c\<close>.
\<close>

theorem point_formulas_follow_law:
  assumes "edwards_sum a b c" and "stands_for P b"
  shows "(stands_for Q a \<longrightarrow> stands_for (eccadd (R1_to_R2 Q) P) c) \<and>
    (stands_for_precomp S a \<longrightarrow> stands_for (eccmadd S P) c) \<and>
    (a = b \<and> on_curve b \<longrightarrow> stands_for (eccdouble P) c)"
  using eccadd_stands [OF R1_to_R2_stands assms(2,1)] eccmadd_stands [OF _ assms(2,1)] eccdouble_stands [OF assms(2)] assms(1)
  by blast

definition demoPoint :: "f2elm_t \<Rightarrow> f2elm_t \<Rightarrow> point_extproj" where
  "demoPoint x y = point_setup \<lparr>ax = x, ay = y\<rparr>"

lemma demoPoint_stands: "stands_for (demoPoint ((0, 0), (1, 0)) ((0, 0), (0, 0))) (imaginary, 0)"
proof -
  have "fp2 ((0, 0), (1, 0)) = imaginary" "fp2 ((0, 0), (0, 0)) = 0"
    by (simp_all add: fp2_def fp_def fval_def imaginary_def zero_gf2_def)
  then show ?thesis
    using point_setup_stands [of "\<lparr>ax = ((0, 0), (1, 0)), ay = ((0, 0), (0, 0))\<rparr>"]
    by (simp add: demoPoint_def reduced2_def reduced_def fval_def)
qed

theorem point_formulas_follow_law_witness:
  "stands_for (eccdouble (demoPoint ((0, 0), (1, 0)) ((0, 0), (0, 0)))) (0, - 1)"
proof -
  have "edwards_sum (quarterTurns 1) (quarterTurns 1) (quarterTurns (1 + 1))" "on_curve (quarterTurns 1)"
    using quarterTurns_multiples unfolding multiples_def by blast+
  then have "edwards_sum (imaginary, 0) (imaginary, 0) (0, - 1)" "on_curve (imaginary, 0)"
    by (simp_all add: quarterTurns_def)
  then show ?thesis using point_formulas_follow_law [OF _ demoPoint_stands] by blast
qed

text \<open>
  The validation of a point is sound and nearly complete: a point with reduced
  coordinates that it accepts lies on the curve, and a point of the curve that it rejects has left
  the field's second zero, \<open>2^127 - 1\<close>, in a component of the residue, which the test compares with
  all bits set.
\<close>

lemma ecc_point_validate_sound:
  assumes "reduced2 (px P)" and "reduced2 (py P)"
  shows "(ecc_point_validate P \<longrightarrow> on_curve (fp2 (px P), fp2 (py P))) \<and>
    (on_curve (fp2 (px P), fp2 (py P)) \<and> \<not> ecc_point_validate P \<longrightarrow>
       fval (fst (curveResidue P)) = 2 ^ 127 - 1 \<or> fval (snd (curveResidue P)) = 2 ^ 127 - 1)"
proof -
  have "fp2 (curveResidue P) = 0 \<longleftrightarrow> fp (fst (curveResidue P)) = 0 \<and> fp (snd (curveResidue P)) = 0"
    by (simp add: fp2_def zero_gf2_def)
  then have "on_curve (fp2 (px P), fp2 (py P)) \<longleftrightarrow>
      (fval (fst (curveResidue P)) = 0 \<or> fval (fst (curveResidue P)) = 2 ^ 127 - 1) \<and>
      (fval (snd (curveResidue P)) = 0 \<or> fval (snd (curveResidue P)) = 2 ^ 127 - 1)"
    using curveResidue_val [OF assms] by (simp only: reduced2_def fp_zero_iff)
  then show ?thesis using validate_iff [OF assms] by blast
qed

lemmas limb_code = fpadd1271_def fpsub1271_def fpmul1271_def fpreduce1271_def umul128_def add2_def sub2_def
  addcarry_u64_def subborrow_u64_def shiftleft128_def shiftright128_def

lemma limb_facts:
  "fpadd1271 (1, 0) (0xFFFFFFFFFFFFFFFF, 0x7FFFFFFFFFFFFFFF) = (1, 0)"
  "fpsub1271 (1, 0) (0xFFFFFFFFFFFFFFFF, 0x7FFFFFFFFFFFFFFF) = (1, 0)"
  "fpmul1271 (1, 0) (0xFFFFFFFFFFFFFFFF, 0x7FFFFFFFFFFFFFFF) = (0xFFFFFFFFFFFFFFFF, 0x7FFFFFFFFFFFFFFF)"
  "fpadd1271 (0xFFFFFFFFFFFFFFFF, 0x7FFFFFFFFFFFFFFF) (0xFFFFFFFFFFFFFFFF, 0x7FFFFFFFFFFFFFFF)
     = (0xFFFFFFFFFFFFFFFF, 0x7FFFFFFFFFFFFFFF)"
  "fpsub1271 (0xFFFFFFFFFFFFFFFF, 0x7FFFFFFFFFFFFFFF) (0, 0) = (0xFFFFFFFFFFFFFFFF, 0x7FFFFFFFFFFFFFFF)"
  "fpmul1271 (1, 0) (1, 0) = (1, 0)" "fpsub1271 (1, 0) (0, 0) = (1, 0)" "fpsub1271 (1, 0) (1, 0) = (0, 0)"
  "fpadd1271 (1, 0) (0, 0) = (1, 0)" "fpadd1271 (0, 0) (1, 0) = (1, 0)" "fpadd1271 (0, 0) (0, 0) = (0, 0)" "fpsub1271 (0, 0) (0, 0) = (0, 0)"
  by (simp_all add: limb_code)

lemma fpmul1271_zero: "fpmul1271 (0, 0) b = (0, 0)" "fpmul1271 a (0, 0) = (0, 0)"
  by (simp_all add: limb_code Let_def)

end
