(* ===== verification/Scalars.thy ===== *)
theory Scalars
  imports Field1271
begin

text \<open>
  The 256-bit scalar arithmetic of \<open>K12AndKeyUtil.h\<close>: the limb product, Montgomery multiplication
  modulo the order of the curve's large subgroup, the decomposition of a scalar and its width-w
  non-adjacent recoding. Where an expression of the source calls an intrinsic in both operands of one
  operator, the operands are taken from left to right.
\<close>

section \<open>The code\<close>

type_synonym limbs4 = "u64 \<times> u64 \<times> u64 \<times> u64"

definition curve_order :: limbs4 where
  "curve_order = (0x2FB2540EC7768CE7, 0xDFBD004DFE0F7999, 0xF05397829CBC14E5, 0x0029CBC14E5E0A72)"

definition Montgomery_small_rprime :: limbs4 where
  "Montgomery_small_rprime = (0xE12FE5F079BC3929, 0xD75E78B8D1FCDCF3, 0xBCE409ED76B5DB21, 0xF32702FDAFC1C074)"

definition Montgomery_Rprime :: limbs4 where
  "Montgomery_Rprime = (0xC81DB8795FF3D621, 0x173EA5AAEA6B387D, 0x3D01B7C72136F61C, 0x0006A5F16AC8F9D3)"

definition ONE :: limbs4 where
  "ONE = (1, 0, 0, 0)"

text \<open>The nested carry and borrow calls over four limbs.\<close>

fun add4 :: "bool \<Rightarrow> limbs4 \<Rightarrow> limbs4 \<Rightarrow> bool \<times> limbs4" where
  "add4 c (a0, a1, a2, a3) (b0, b1, b2, b3) =
     (let (c, s0) = addcarry_u64 c a0 b0;
          (c, s1) = addcarry_u64 c a1 b1;
          (c, s2) = addcarry_u64 c a2 b2;
          (c, s3) = addcarry_u64 c a3 b3
      in (c, (s0, s1, s2, s3)))"

fun sub4 :: "bool \<Rightarrow> limbs4 \<Rightarrow> limbs4 \<Rightarrow> bool \<times> limbs4" where
  "sub4 c (a0, a1, a2, a3) (b0, b1, b2, b3) =
     (let (c, s0) = subborrow_u64 c a0 b0;
          (c, s1) = subborrow_u64 c a1 b1;
          (c, s2) = subborrow_u64 c a2 b2;
          (c, s3) = subborrow_u64 c a3 b3
      in (c, (s0, s1, s2, s3)))"

text \<open>\<open>u = _addcarry_u64(c, _umul128(a, b, &uv), y, &s) + uv\<close>: the stored word and the new \<open>u\<close>.\<close>

definition macc :: "bool \<Rightarrow> u64 \<Rightarrow> u64 \<Rightarrow> u64 \<Rightarrow> u64 \<times> u64" where
  "macc c a b y =
     (let (lo, uv) = umul128 a b; (d, s) = addcarry_u64 c lo y in (s, of_bool d + uv))"

text \<open>The first row of the product, and a later row added to four limbs of the result.\<close>

fun firstRow :: "u64 \<Rightarrow> limbs4 \<Rightarrow> u64 \<times> u64 \<times> u64 \<times> u64 \<times> u64" where
  "firstRow a (b0, b1, b2, b3) =
     (let (c0, u) = umul128 a b0;
          (c1, u) = macc False a b1 u;
          (c2, u) = macc False a b2 u;
          (c3, c4) = macc False a b3 u
      in (c0, c1, c2, c3, c4))"

fun nextRow :: "u64 \<Rightarrow> limbs4 \<Rightarrow> limbs4 \<Rightarrow> u64 \<times> u64 \<times> u64 \<times> u64 \<times> u64" where
  "nextRow a (b0, b1, b2, b3) (c0, c1, c2, c3) =
     (let (c0, u) = macc False a b0 c0;
          (v, u) = macc False a b1 u;
          (d, c1) = addcarry_u64 False c1 v;
          (v, u) = macc d a b2 u;
          (d, c2) = addcarry_u64 False c2 v;
          (v, u) = macc d a b3 u;
          (d, c3) = addcarry_u64 False c3 v
      in (c0, c1, c2, c3, u + of_bool d))"

fun multiply :: "limbs4 \<Rightarrow> limbs4 \<Rightarrow> limbs4 \<times> limbs4" where
  "multiply (a0, a1, a2, a3) b =
     (let (c0, c1, c2, c3, c4) = firstRow a0 b;
          (c1, c2, c3, c4, c5) = nextRow a1 b (c1, c2, c3, c4);
          (c2, c3, c4, c5, c6) = nextRow a2 b (c2, c3, c4, c5);
          (c3, c4, c5, c6, c7) = nextRow a3 b (c3, c4, c5, c6)
      in ((c0, c1, c2, c3), (c4, c5, c6, c7)))"

text \<open>\<open>Q\<close>: the low four limbs of the product with the Montgomery constant.\<close>

fun lowProduct :: "limbs4 \<Rightarrow> limbs4 \<Rightarrow> limbs4" where
  "lowProduct (p0, p1, p2, p3) (r0, r1, r2, r3) =
     (let (q0, u) = umul128 p0 r0;
          (q1, u) = macc False p0 r1 u;
          (q2, u) = macc False p0 r2 u;
          (_, q3) = addcarry_u64 False (p0 * r3) u;
          (q1, u) = macc False p1 r0 q1;
          (v, u) = macc False p1 r1 u;
          (d, q2) = addcarry_u64 False q2 v;
          (_, v) = addcarry_u64 d (p1 * r2) u;
          (_, q3) = addcarry_u64 False q3 v;
          (q2, u) = macc False p2 r0 q2;
          (_, v) = addcarry_u64 False (p2 * r1) u;
          (_, q3) = addcarry_u64 False q3 v;
          (_, q3) = addcarry_u64 False q3 (p3 * r0)
      in (q0, q1, q2, q3))"

definition Montgomery_multiply_mod_order :: "limbs4 \<Rightarrow> limbs4 \<Rightarrow> limbs4" where
  "Montgomery_multiply_mod_order ma mb =
     (let (plo, phi) = (if mb = ONE then (ma, (0, 0, 0, 0)) else multiply ma mb);
          Q = lowProduct plo Montgomery_small_rprime;
          (tlo, thi) = multiply Q curve_order;
          (c, _) = add4 False plo tlo;
          (c, thi) = add4 c phi thi;
          (b, mc) = sub4 False thi curve_order
      in if c \<noteq> b then snd (add4 False mc curve_order) else mc)"

text \<open>Limb 4 of the product: every partial product is added at its place and the carries out of limb 4 are dropped.\<close>

fun mul_truncate :: "limbs4 \<Rightarrow> limbs4 \<Rightarrow> u64" where
  "mul_truncate (s0, s1, s2, s3) (k0, k1, k2, k3) =
     (let (_, high00) = umul128 s0 k0;
          (low10, high10) = umul128 s1 k0;
          (c, t0) = addcarry_u64 False high00 low10;
          (_, t1) = addcarry_u64 c high10 0;
          (low01, high01) = umul128 s0 k1;
          (c, t0) = addcarry_u64 False t0 low01;
          (t2, t3) = addcarry_u64 c t1 high01;
          (low20, high20) = umul128 s2 k0;
          (c, t4) = addcarry_u64 False t3 low20;
          (_, t5) = addcarry_u64 c (of_bool t2) high20;
          (low02, high02) = umul128 s0 k2;
          (c, t7) = addcarry_u64 False t4 low02;
          (t6, t8) = addcarry_u64 c t5 high02;
          (low11, high11) = umul128 s1 k1;
          (c, t0) = addcarry_u64 False t7 low11;
          (t9, t10) = addcarry_u64 c t8 high11;
          (low03, high03) = umul128 s0 k3;
          (c, t11) = addcarry_u64 False t10 low03;
          (_, t12) = addcarry_u64 c (of_bool t6 + of_bool t9) high03;
          (low30, high30) = umul128 s3 k0;
          (c, t13) = addcarry_u64 False t11 low30;
          (_, t14) = addcarry_u64 c t12 high30;
          (low12, high12) = umul128 s1 k2;
          (c, t15) = addcarry_u64 False t13 low12;
          (_, t16) = addcarry_u64 c t14 high12;
          (low21, high21) = umul128 s2 k1;
          (c, t0) = addcarry_u64 False t15 low21
      in of_bool c + t16 + high21 + s1 * k3 + s2 * k2 + s3 * k1)"

definition ell1 :: limbs4 where "ell1 = (0x259686E09D1A7D4F, 0xF75682ACE6A6BD66, 0xFC5BB5C5EA2BE5DF, 0x07)"
definition ell2 :: limbs4 where "ell2 = (0xD1BA1D84DD627AFB, 0x2BD235580F468D8D, 0x8FD4B04CAA6C0F8A, 0x03)"
definition ell3 :: limbs4 where "ell3 = (0x9B291A33678C203C, 0xC42BD6C965DCA902, 0xD038BF8D0BFFBAF6, 0x00)"
definition ell4 :: limbs4 where "ell4 = (0x12E5666B77E7FDC0, 0x81CBDC3714983D82, 0x1B073877A22D8410, 0x03)"

definition decompose :: "limbs4 \<Rightarrow> limbs4" where
  "decompose k =
     (let a1 = mul_truncate k ell1; a2 = mul_truncate k ell2; a3 = mul_truncate k ell3; a4 = mul_truncate k ell4;
          s0 = a1 * 0xF6F900D81F5F5E6A + a2 * 0xE2B6A4157B033D2C + a3 * 0xE85452E2DCE0FCFE + a4 * 0xEC91CBF56EF737C1
            + 0x72482C5251A4559C + fst k;
          s1 = a1 * 0x1363E862C22A2DA0 + a2 * 0x0000000000000001 + a3 * 0xFD3BDEE51C7725AF + a4 * 0xCEDD20D23C1F00CE
            + 0x59F95B0ADD276F6C;
          s2 = a1 * 0xF8BD9FCE1337FCF1 + a2 * 0xFFFFFFFFFFFFFFFF + a3 * 0x2E4D21C98927C49F + a4 * 0x068A49F02AA8A9B5
            + 0x7DD2D17C4625FA78;
          s3 = a1 * 0x084F739986B9E651 + a2 * 0xDA243A43722E9830 + a3 * 0xF56190BB3FD13269 + a4 * 0x18D5087896DE0AEA
            + 0x6BC57DEF56CE8877
      in if s0 AND 1 = 0
         then (s0 - 0xEC91CBF56EF737C1, s1 - 0xCEDD20D23C1F00CE, s2 - 0x068A49F02AA8A9B5, s3 - 0x18D5087896DE0AEA)
         else (s0, s1, s2, s3))"

text \<open>
  The recoding writes its digits one after another; the list holds those written so far. It does
  not end for every width, hence the option.
\<close>

partial_function (option) wNAF_loop :: "nat \<Rightarrow> u64 \<Rightarrow> int list \<Rightarrow> int list option" where
  "wNAF_loop w scalar digits =
     (if scalar = 0 then Some digits
      else if scalar AND 1 = 0 then wNAF_loop w (drop_bit 1 scalar) (digits @ [0])
      else let digit = int (unat (scalar AND (2 ^ w - 1)));
               scalar = drop_bit w scalar;
               digit = (if digit > 2 ^ (w - 1) - 1 then digit - 2 ^ w else digit);
               scalar = (if digit < 0 then scalar + 1 else scalar);
               digits = digits @ [digit]
           in wNAF_loop w scalar (if scalar \<noteq> 0 then digits @ replicate (w - 1) 0 else digits))"

text \<open>The array has 65 entries; writing past it is undefined behaviour.\<close>

definition wNAF_recode :: "u64 \<Rightarrow> nat \<Rightarrow> int list result option" where
  "wNAF_recode scalar w =
     map_option (\<lambda>ds. if length ds \<le> 65 then Inr (ds @ replicate (65 - length ds) 0) else Inl OutOfBounds)
       (wNAF_loop w scalar [])"

section \<open>Values\<close>

fun val4 :: "limbs4 \<Rightarrow> nat" where
  "val4 (a0, a1, a2, a3) = unat a0 + 2 ^ 64 * unat a1 + 2 ^ 128 * unat a2 + 2 ^ 192 * unat a3"

lemma val4_less: "val4 a < 2 ^ 256"
proof (cases a)
  case (fields a0 a1 a2 a3)
  then show ?thesis
    using unat_u64_less [of a0] unat_u64_less [of a1] unat_u64_less [of a2] unat_u64_less [of a3] by simp
qed

lemma add4_val:
  assumes "add4 c a b = (d, s)"
  shows "val4 s + 2 ^ 256 * of_bool d = val4 a + val4 b + of_bool c"
proof (cases a; cases b)
  fix a0 a1 a2 a3 b0 b1 b2 b3
  assume ab: "a = (a0, a1, a2, a3)" "b = (b0, b1, b2, b3)"
  obtain c0 s0 c1 s1 c2 s2 c3 s3 where e: "addcarry_u64 c a0 b0 = (c0, s0)" "addcarry_u64 c0 a1 b1 = (c1, s1)"
    "addcarry_u64 c1 a2 b2 = (c2, s2)" "addcarry_u64 c2 a3 b3 = (c3, s3)" by (meson surj_pair)
  then have "d = c3" "s = (s0, s1, s2, s3)" using assms by (simp_all add: ab)
  then show ?thesis using addcarry_val [OF e(1)] addcarry_val [OF e(2)] addcarry_val [OF e(3)] addcarry_val [OF e(4)]
    by (simp add: ab)
qed

lemma sub4_val:
  assumes "sub4 c a b = (d, s)"
  shows "val4 s + val4 b + of_bool c = val4 a + 2 ^ 256 * of_bool d"
proof (cases a; cases b)
  fix a0 a1 a2 a3 b0 b1 b2 b3
  assume ab: "a = (a0, a1, a2, a3)" "b = (b0, b1, b2, b3)"
  obtain c0 s0 c1 s1 c2 s2 c3 s3 where e: "subborrow_u64 c a0 b0 = (c0, s0)" "subborrow_u64 c0 a1 b1 = (c1, s1)"
    "subborrow_u64 c1 a2 b2 = (c2, s2)" "subborrow_u64 c2 a3 b3 = (c3, s3)" by (meson surj_pair)
  then have "d = c3" "s = (s0, s1, s2, s3)" using assms by (simp_all add: ab)
  then show ?thesis using subborrow_val [OF e(1)] subborrow_val [OF e(2)] subborrow_val [OF e(3)] subborrow_val [OF e(4)]
    by (simp add: ab)
qed

lemma word_product_bound: "unat (a :: u64) * unat (b :: u64) \<le> (2 ^ 64 - 1) * (2 ^ 64 - 1)"
  by (rule mult_le_mono) (use unat_u64_less [of a] unat_u64_less [of b] in auto)

lemma macc_val:
  assumes "macc c a b y = (s, u)"
  shows "unat s + 2 ^ 64 * unat u = unat a * unat b + unat y + of_bool c"
proof -
  obtain lo hi where m: "umul128 a b = (lo, hi)" by fastforce
  obtain d where d: "addcarry_u64 c lo y = (d, s)" and u: "u = of_bool d + hi"
    using assms by (auto simp: macc_def m split: prod.splits)
  have prod: "unat lo + 2 ^ 64 * unat hi = unat a * unat b" using umul128_val [of a b] by (simp add: m fval_def)
  then have eq: "unat s + 2 ^ 64 * (of_bool d + unat hi) = unat a * unat b + unat y + of_bool c"
    using addcarry_val [OF d] by simp
  moreover have "unat a * unat b + unat y + of_bool c < 2 ^ 64 * 2 ^ 64"
    using word_product_bound [of a b] unat_u64_less [of y] by (cases c) auto
  ultimately have "of_bool d + unat hi < 2 ^ 64" by simp
  then have "unat u = of_bool d + unat hi" by (simp add: u unat_word_ariths)
  with eq show ?thesis by simp
qed

lemma firstRow_val:
  assumes "firstRow a b = (c0, c1, c2, c3, c4)"
  shows "val4 (c0, c1, c2, c3) + 2 ^ 256 * unat c4 = unat a * val4 b"
proof (cases b)
  case (fields b0 b1 b2 b3)
  obtain d0 u0 d1 u1 d2 u2 d3 u3 where e: "umul128 a b0 = (d0, u0)" "macc False a b1 u0 = (d1, u1)"
    "macc False a b2 u1 = (d2, u2)" "macc False a b3 u2 = (d3, u3)" by (meson surj_pair)
  have "unat d0 + 2 ^ 64 * unat u0 = unat a * unat b0" using umul128_val [of a b0] by (simp add: e fval_def)
  moreover have "c0 = d0 \<and> c1 = d1 \<and> c2 = d2 \<and> c3 = d3 \<and> c4 = u3" using assms by (simp add: fields e)
  ultimately show ?thesis using macc_val [OF e(2)] macc_val [OF e(3)] macc_val [OF e(4)]
    by (simp add: fields distrib_left)
qed

lemma row_bound: "unat (a :: u64) * val4 b + val4 c < 2 ^ 64 * 2 ^ 256"
proof -
  have "unat a * val4 b \<le> (2 ^ 64 - 1) * (2 ^ 256 - 1)"
    by (rule mult_le_mono) (use unat_u64_less [of a] val4_less [of b] in auto)
  then show ?thesis using val4_less [of c] by simp
qed

lemma nextRow_val:
  assumes "nextRow a b c = (c0, c1, c2, c3, c4)"
  shows "val4 (c0, c1, c2, c3) + 2 ^ 256 * unat c4 = unat a * val4 b + val4 c"
proof (cases b; cases c)
  fix b0 b1 b2 b3 x0 x1 x2 x3
  assume bc: "b = (b0, b1, b2, b3)" "c = (x0, x1, x2, x3)"
  obtain s0 u0 v1 u1 where e1: "macc False a b0 x0 = (s0, u0)" "macc False a b1 u0 = (v1, u1)" by (meson surj_pair)
  obtain d1 s1 v2 u2 where e2: "addcarry_u64 False x1 v1 = (d1, s1)" "macc d1 a b2 u1 = (v2, u2)" by (meson surj_pair)
  obtain d2 s2 v3 u3 where e3: "addcarry_u64 False x2 v2 = (d2, s2)" "macc d2 a b3 u2 = (v3, u3)" by (meson surj_pair)
  obtain d3 s3 where e4: "addcarry_u64 False x3 v3 = (d3, s3)" by (meson surj_pair)
  have r: "c0 = s0" "c1 = s1" "c2 = s2" "c3 = s3" "c4 = u3 + of_bool d3"
    using assms by (simp_all add: bc e1 e2 e3 e4)
  have eq: "val4 (s0, s1, s2, s3) + 2 ^ 256 * (unat u3 + of_bool d3) = unat a * val4 b + val4 c"
    using macc_val [OF e1(1)] macc_val [OF e1(2)] addcarry_val [OF e2(1)] macc_val [OF e2(2)]
      addcarry_val [OF e3(1)] macc_val [OF e3(2)] addcarry_val [OF e4]
    by (simp add: bc distrib_left)
  then have "unat u3 + of_bool d3 < 2 ^ 64" using row_bound [of a b c] by simp
  then have "unat (u3 + of_bool d3) = unat u3 + of_bool d3" by (simp add: unat_word_ariths)
  with eq show ?thesis by (simp add: r)
qed

lemma multiply_val:
  assumes "multiply a b = (lo, hi)"
  shows "val4 lo + 2 ^ 256 * val4 hi = val4 a * val4 b"
proof (cases a)
  case (fields a0 a1 a2 a3)
  obtain c0 c1 c2 c3 c4 where r0: "firstRow a0 b = (c0, c1, c2, c3, c4)" by (metis prod_cases5)
  obtain d1 d2 d3 d4 d5 where r1: "nextRow a1 b (c1, c2, c3, c4) = (d1, d2, d3, d4, d5)" by (metis prod_cases5)
  obtain e2 e3 e4 e5 e6 where r2: "nextRow a2 b (d2, d3, d4, d5) = (e2, e3, e4, e5, e6)" by (metis prod_cases5)
  obtain f3 f4 f5 f6 f7 where r3: "nextRow a3 b (e3, e4, e5, e6) = (f3, f4, f5, f6, f7)" by (metis prod_cases5)
  have "lo = (c0, d1, e2, f3)" "hi = (f4, f5, f6, f7)" using assms by (simp_all add: fields r0 r1 r2 r3)
  then show ?thesis
    using firstRow_val [OF r0] nextRow_val [OF r1] nextRow_val [OF r2] nextRow_val [OF r3]
    by (simp add: fields distrib_right)
qed

lemma wrapped_product: "unat (a * b :: u64) + 2 ^ 64 * (unat a * unat b div 2 ^ 64) = unat a * unat b"
  using mod_mult_div_eq [of "unat a * unat b" "2 ^ 64"] by (simp add: unat_word_ariths)

lemma lowProduct_val: "val4 (lowProduct p r) = val4 p * val4 r mod 2 ^ 256"
proof (cases p; cases r)
  fix p0 p1 p2 p3 r0 r1 r2 r3
  assume pr: "p = (p0, p1, p2, p3)" "r = (r0, r1, r2, r3)"
  obtain q0 u0 q1 u1 q2 u2 x3 q3 where e1: "umul128 p0 r0 = (q0, u0)" "macc False p0 r1 u0 = (q1, u1)"
    "macc False p0 r2 u1 = (q2, u2)" "addcarry_u64 False (p0 * r3) u2 = (x3, q3)" by (meson surj_pair)
  obtain s1 w0 v1 w1 d s2 x4 v2 x5 s3 where e2: "macc False p1 r0 q1 = (s1, w0)" "macc False p1 r1 w0 = (v1, w1)"
    "addcarry_u64 False q2 v1 = (d, s2)" "addcarry_u64 d (p1 * r2) w1 = (x4, v2)" "addcarry_u64 False q3 v2 = (x5, s3)"
    by (meson surj_pair)
  obtain t2 y0 x6 v3 x7 t3 x8 z3 where e3: "macc False p2 r0 s2 = (t2, y0)" "addcarry_u64 False (p2 * r1) y0 = (x6, v3)"
    "addcarry_u64 False s3 v3 = (x7, t3)" "addcarry_u64 False t3 (p3 * r0) = (x8, z3)" by (meson surj_pair)
  have low: "unat q0 + 2 ^ 64 * unat u0 = unat p0 * unat r0" using umul128_val [of p0 r0] by (simp add: e1 fval_def)
  have res: "lowProduct p r = (q0, s1, t2, z3)" by (simp add: pr e1 e2 e3)
  let ?k = "of_bool x3 + of_bool x4 + of_bool x5 + of_bool x6 + of_bool x7 + of_bool x8 +
      unat p0 * unat r3 div 2 ^ 64 + unat p1 * unat r2 div 2 ^ 64 + unat p2 * unat r1 div 2 ^ 64 + unat p3 * unat r0 div 2 ^ 64 +
      unat p1 * unat r3 + unat p2 * unat r2 + unat p3 * unat r1 + 2 ^ 64 * (unat p2 * unat r3 + unat p3 * unat r2) +
      2 ^ 128 * (unat p3 * unat r3)"
  have "val4 (q0, s1, t2, z3) + 2 ^ 256 * ?k = val4 p * val4 r"
    using low macc_val [OF e1(2)] macc_val [OF e1(3)] addcarry_val [OF e1(4)]
      macc_val [OF e2(1)] macc_val [OF e2(2)] addcarry_val [OF e2(3)] addcarry_val [OF e2(4)] addcarry_val [OF e2(5)]
      macc_val [OF e3(1)] addcarry_val [OF e3(2)] addcarry_val [OF e3(3)] addcarry_val [OF e3(4)]
      wrapped_product [of p0 r3] wrapped_product [of p1 r2] wrapped_product [of p2 r1] wrapped_product [of p3 r0]
    unfolding pr val4.simps by (simp add: distrib_left distrib_right)
  then have "val4 p * val4 r mod 2 ^ 256 = val4 (q0, s1, t2, z3) mod 2 ^ 256" by (metis mod_mult_self2)
  then show ?thesis using val4_less [of "(q0, s1, t2, z3)"] by (simp add: res)
qed

definition order :: nat where
  "order = 0x0029CBC14E5E0A72F05397829CBC14E5DFBD004DFE0F79992FB2540EC7768CE7"

lemma val4_order: "val4 curve_order = order"
  by (simp add: curve_order_def order_def)

lemma rprime_inverse: "(val4 Montgomery_small_rprime * order + 1) mod 2 ^ 256 = 0"
  by (simp add: Montgomery_small_rprime_def order_def)

text \<open>The exact quotient of the Montgomery step.\<close>

lemma exact_quotient:
  fixes p q r r' M :: nat
  assumes "(r' * r + 1) mod M = 0" and "q = p mod M * r' mod M"
  shows "(p + q * r) mod M = 0"
proof -
  have "q * r mod M = p * r' * r mod M" unfolding assms(2) by (metis mod_mult_left_eq)
  then have "(p + q * r) mod M = (p + p * r' * r) mod M" by (metis mod_add_right_eq)
  also have "\<dots> = p * (r' * r + 1) mod M" by (simp add: algebra_simps)
  also have "\<dots> = 0" using assms(1) by (metis mod_mult_right_eq mult_zero_right mod_0)
  finally show ?thesis .
qed

lemmas montgomery_quotient = exact_quotient [OF rprime_inverse]

lemma montgomery_val:
  assumes "val4 mb < order"
  shows "val4 (Montgomery_multiply_mod_order ma mb) < order"
    and "(val4 (Montgomery_multiply_mod_order ma mb) * 2 ^ 256) mod order = val4 ma * val4 mb mod order"
proof -
  obtain plo phi where P: "(if mb = ONE then (ma, (0, 0, 0, 0)) else multiply ma mb) = (plo, phi)"
    by (metis surj_pair)
  define p where "p = val4 ma * val4 mb"
  have p: "val4 plo + 2 ^ 256 * val4 phi = p"
    using P multiply_val [of ma mb plo phi] by (auto simp: p_def ONE_def split: if_splits)
  define Q where "Q = lowProduct plo Montgomery_small_rprime"
  obtain tlo thi where T: "multiply Q curve_order = (tlo, thi)" by (metis surj_pair)
  obtain c0 s where C0: "add4 False plo tlo = (c0, s)" by (metis surj_pair)
  obtain c hi where C: "add4 c0 phi thi = (c, hi)" by (metis surj_pair)
  obtain b mc where B: "sub4 False hi curve_order = (b, mc)" by (metis surj_pair)
  obtain d md where D: "add4 False mc curve_order = (d, md)" by (metis surj_pair)
  have code: "Montgomery_multiply_mod_order ma mb = (if c \<noteq> b then md else mc)"
    by (simp add: Montgomery_multiply_mod_order_def P Q_def [symmetric] T C0 C B D)
  have total: "val4 s + 2 ^ 256 * (val4 hi + 2 ^ 256 * of_bool c) = p + val4 Q * order"
    using add4_val [OF C0] add4_val [OF C] multiply_val [OF T] p by (simp add: val4_order)
  have "val4 plo = p mod 2 ^ 256" using p val4_less [of plo] by (metis mod_less mod_mult_self2)
  then have "(p + val4 Q * order) mod 2 ^ 256 = 0" by (intro montgomery_quotient) (simp add: Q_def lowProduct_val)
  then have "val4 s = 0" using total val4_less [of s] by (metis mod_less mod_mult_self2)
  then have exact: "2 ^ 256 * (val4 hi + 2 ^ 256 * of_bool c) = p + val4 Q * order" using total by simp
  have "p \<le> 2 ^ 256 * val4 mb" unfolding p_def using val4_less [of ma] by (intro mult_le_mono1) simp
  moreover have "val4 Q * order < 2 ^ 256 * order" using val4_less [of Q] by (intro mult_strict_right_mono) (simp_all add: order_def)
  ultimately have "2 ^ 256 * (val4 hi + 2 ^ 256 * of_bool c) < 2 ^ 256 * (val4 mb + order)"
    unfolding exact by (simp only: distrib_left)
  then have small: "val4 hi + 2 ^ 256 * of_bool c < 2 * order" using assms by simp
  then have c: "\<not> c" by (cases c) (simp_all add: order_def)
  have res: "val4 (if c \<noteq> b then md else mc) = (if val4 hi < order then val4 hi else val4 hi - order)"
    using c sub4_val [OF B] add4_val [OF D] val4_less [of hi] val4_less [of mc] val4_less [of md] small
    by (cases b; cases d) (auto simp: val4_order order_def)
  show "val4 (Montgomery_multiply_mod_order ma mb) < order" unfolding code res using small c by auto
  have "val4 (if c \<noteq> b then md else mc) mod order = val4 hi mod order" unfolding res by (simp add: le_mod_geq)
  then have "val4 (if c \<noteq> b then md else mc) * 2 ^ 256 mod order = val4 hi * 2 ^ 256 mod order" by (metis mod_mult_left_eq)
  also have "val4 hi * 2 ^ 256 = p + val4 Q * order" using exact c by simp
  finally show "val4 (Montgomery_multiply_mod_order ma mb) * 2 ^ 256 mod order = val4 ma * val4 mb mod order"
    unfolding code p_def by simp
qed

section \<open>Truncated product\<close>

lemma umul128_eq: "umul128 a b = (lo, hi) \<Longrightarrow> unat lo + 2 ^ 64 * unat hi = unat a * unat b"
  using umul128_val [of a b] by (simp add: fval_def)

lemma mul_truncate_val: "unat (mul_truncate s k) = val4 s * val4 k div 2 ^ 256 mod 2 ^ 64"
proof (cases s; cases k)
  fix s0 s1 s2 s3 k0 k1 k2 k3
  assume sk: "s = (s0, s1, s2, s3)" "k = (k0, k1, k2, k3)"
  obtain l00 h00 l10 h10 c1 a0 x1 t1 where e1: "umul128 s0 k0 = (l00, h00)" "umul128 s1 k0 = (l10, h10)"
    "addcarry_u64 False h00 l10 = (c1, a0)" "addcarry_u64 c1 h10 0 = (x1, t1)" by (meson surj_pair)
  obtain l01 h01 c2 b0 t2 t3 where e2: "umul128 s0 k1 = (l01, h01)" "addcarry_u64 False a0 l01 = (c2, b0)"
    "addcarry_u64 c2 t1 h01 = (t2, t3)" by (meson surj_pair)
  obtain l20 h20 c3 t4 x2 t5 where e3: "umul128 s2 k0 = (l20, h20)" "addcarry_u64 False t3 l20 = (c3, t4)"
    "addcarry_u64 c3 (of_bool t2) h20 = (x2, t5)" by (meson surj_pair)
  obtain l02 h02 c4 t7 t6 t8 where e4: "umul128 s0 k2 = (l02, h02)" "addcarry_u64 False t4 l02 = (c4, t7)"
    "addcarry_u64 c4 t5 h02 = (t6, t8)" by (meson surj_pair)
  obtain l11 h11 c5 d0 t9 t10 where e5: "umul128 s1 k1 = (l11, h11)" "addcarry_u64 False t7 l11 = (c5, d0)"
    "addcarry_u64 c5 t8 h11 = (t9, t10)" by (meson surj_pair)
  obtain l03 h03 c6 t11 x3 t12 where e6: "umul128 s0 k3 = (l03, h03)" "addcarry_u64 False t10 l03 = (c6, t11)"
    "addcarry_u64 c6 (of_bool t6 + of_bool t9) h03 = (x3, t12)" by (meson surj_pair)
  obtain l30 h30 c7 t13 x4 t14 where e7: "umul128 s3 k0 = (l30, h30)" "addcarry_u64 False t11 l30 = (c7, t13)"
    "addcarry_u64 c7 t12 h30 = (x4, t14)" by (meson surj_pair)
  obtain l12 h12 c8 t15 x5 t16 where e8: "umul128 s1 k2 = (l12, h12)" "addcarry_u64 False t13 l12 = (c8, t15)"
    "addcarry_u64 c8 t14 h12 = (x5, t16)" by (meson surj_pair)
  obtain l21 h21 c9 f0 where e9: "umul128 s2 k1 = (l21, h21)" "addcarry_u64 False t15 l21 = (c9, f0)" by (meson surj_pair)
  note A = addcarry_val [OF e1(3)] addcarry_val [OF e1(4)] addcarry_val [OF e2(2)] addcarry_val [OF e2(3)]
    addcarry_val [OF e3(2)] addcarry_val [OF e3(3)]
  note M = umul128_eq [OF e1(1)] umul128_eq [OF e1(2)] umul128_eq [OF e2(1)] umul128_eq [OF e3(1)]
  have x1: "\<not> x1" using A(2) M(2) word_product_bound [of s1 k0] by (cases x1; cases c1) auto
  have "unat b0 + 2 ^ 64 * (unat t3 + 2 ^ 64 * of_bool t2) = unat h00 + unat s1 * unat k0 + unat s0 * unat k1"
    using A(1-4) M(2,3) x1 by simp
  then have "unat t3 + 2 ^ 64 * of_bool t2 + unat s2 * unat k0 < 2 ^ 128"
    using word_product_bound [of s1 k0] word_product_bound [of s0 k1] word_product_bound [of s2 k0] unat_u64_less [of h00]
    by simp
  then have x2: "\<not> x2" using A(5,6) M(4) by (cases x2) auto
  define S where "S = of_bool c9 + unat t16 + unat h21 + unat s1 * unat k3 + unat s2 * unat k2 + unat s3 * unat k1"
  have two: "unat (of_bool t6 + of_bool t9 :: u64) = of_bool t6 + of_bool t9" by (cases t6; cases t9) simp_all
  let ?L = "val4 (l00, b0, d0, f0)"
  have "val4 s * val4 k = ?L + 2 ^ 256 * (S + 2 ^ 64 * (of_bool x3 + of_bool x4 + of_bool x5 +
      unat s2 * unat k3 + unat s3 * unat k2 + 2 ^ 64 * (unat s3 * unat k3)))"
    using A M x1 x2 addcarry_val [OF e4(2)] addcarry_val [OF e4(3)] addcarry_val [OF e5(2)] addcarry_val [OF e5(3)]
      addcarry_val [OF e6(2)] addcarry_val [OF e6(3), unfolded two] addcarry_val [OF e7(2)] addcarry_val [OF e7(3)]
      addcarry_val [OF e8(2)] addcarry_val [OF e8(3)] addcarry_val [OF e9(2)]
      umul128_eq [OF e4(1)] umul128_eq [OF e5(1)] umul128_eq [OF e6(1)] umul128_eq [OF e7(1)] umul128_eq [OF e8(1)] umul128_eq [OF e9(1)]
    unfolding sk val4.simps S_def by (simp add: distrib_left distrib_right)
  then have "val4 s * val4 k div 2 ^ 256 = S + 2 ^ 64 * (of_bool x3 + of_bool x4 + of_bool x5 +
      unat s2 * unat k3 + unat s3 * unat k2 + 2 ^ 64 * (unat s3 * unat k3))"
    using val4_less [of "(l00, b0, d0, f0)"] by (rule divmod_parts(2))
  then have "val4 s * val4 k div 2 ^ 256 mod 2 ^ 64 = S mod 2 ^ 64" by (simp only: mod_mult_self2)
  moreover have "mul_truncate s k = of_bool c9 + t16 + h21 + s1 * k3 + s2 * k2 + s3 * k1"
    by (simp add: sk e1 e2 e3 e4 e5 e6 e7 e8 e9)
  then have "unat (mul_truncate s k) = S mod 2 ^ 64" by (simp add: S_def unat_word_ariths mod_simps)
  ultimately show ?thesis by simp
qed

section \<open>Recoding\<close>

primrec digits_val :: "int list \<Rightarrow> int" where
  "digits_val [] = 0"
| "digits_val (d # ds) = d + 2 * digits_val ds"

text \<open>Every digit is zero or odd and below half the window, and a non-zero digit is followed by zeros up to the window.\<close>

primrec non_adjacent :: "nat \<Rightarrow> int list \<Rightarrow> bool" where
  "non_adjacent w [] \<longleftrightarrow> True"
| "non_adjacent w (d # ds) \<longleftrightarrow>
     (d = 0 \<or> odd d \<and> \<bar>d\<bar> < 2 ^ (w - 1) \<and> (\<forall>e\<in>set (take (w - 1) ds). e = 0)) \<and> non_adjacent w ds"

lemma digits_val_append: "digits_val (xs @ ys) = digits_val xs + 2 ^ length xs * digits_val ys"
  by (induction xs) (simp_all add: algebra_simps)

lemma digits_val_zeros [simp]: "digits_val (replicate n 0) = 0"
  by (induction n) simp_all

lemma non_adjacent_zeros: "non_adjacent w (replicate n 0 @ ds) \<longleftrightarrow> non_adjacent w ds"
  by (induction n) simp_all

lemma non_adjacent_pad: "non_adjacent w ds \<Longrightarrow> non_adjacent w (ds @ replicate n 0)"
proof (induction ds)
  case Nil
  then show ?case using non_adjacent_zeros [of w n "[]"] by simp
next
  case (Cons d ds)
  then show ?case by (auto dest: in_set_takeD)
qed

definition recoded :: "nat \<Rightarrow> nat \<Rightarrow> nat \<Rightarrow> int list \<Rightarrow> bool" where
  "recoded w k n ds \<longleftrightarrow> digits_val ds = int n \<and> length ds \<le> k + 1 \<and> non_adjacent w ds"

lemma recoded_0: "recoded w k 0 []"
  by (simp add: recoded_def)

lemma recoded_even:
  assumes "recoded w k n ds"
  shows "recoded w (k + 1) (2 * n) (0 # ds)"
  using assms by (simp add: recoded_def)

lemma recoded_odd:
  assumes "recoded w k n ds" and "0 < w" and "odd d" and "\<bar>d\<bar> < 2 ^ (w - 1)" and "int m = d + 2 ^ w * int n"
  shows "recoded w (k + w) m (d # replicate (w - 1) 0 @ ds)"
proof -
  have "(2::int) * 2 ^ (w - 1) = 2 ^ w" using assms(2) by (simp flip: power_Suc)
  then have "digits_val (d # replicate (w - 1) 0 @ ds) = int m"
    using assms(1,5) by (simp add: recoded_def digits_val_append mult.assoc [symmetric])
  then show ?thesis using assms by (simp add: recoded_def non_adjacent_zeros)
qed

lemma low_bits: "unat (s AND (2 ^ w - 1) :: u64) = unat s mod 2 ^ w" if "w \<le> 32"
proof -
  have "(2 ^ w - 1 :: u64) = mask w" by (simp add: mask_eq_exp_minus_1)
  then have "unat (s AND (2 ^ w - 1)) = unat (take_bit w s)" by (simp add: take_bit_eq_mask)
  also have "\<dots> = unat s mod 2 ^ w" unfolding unsigned_take_bit_eq using that by (simp add: take_bit_eq_mod min_def)
  finally show ?thesis .
qed

lemma signed_digit:
  fixes n q r h :: nat and d :: int
  assumes n: "n = r + 2 * h * q" "odd n" "r < 2 * h" "even h" "2 \<le> h"
    and d: "d = (if int r > int h - 1 then int r - 2 * int h else int r)" and t: "t = (if d < 0 then q + 1 else q)"
  shows "odd d" and "\<bar>d\<bar> < int h" and "int n = d + 2 * int h * int t" and "t < n" and "0 < t \<Longrightarrow> h < n"
proof -
  have r: "odd r" using n(1,2) by simp
  then have "r \<noteq> h" using n(4) by auto
  then show "odd d" "\<bar>d\<bar> < int h" "int n = d + 2 * int h * int t"
    using n r by (auto simp: d t algebra_simps)
  show "h < n" if "0 < t"
  proof (cases "q = 0")
    case False
    then have "2 * h * 1 \<le> 2 * h * q" by (intro mult_le_mono2) simp
    then show ?thesis using n(1,5) by linarith
  qed (use that \<open>r \<noteq> h\<close> n in \<open>auto simp: d t split: if_splits\<close>)
  have "4 * q \<le> 2 * h * q" using n(5) by simp
  then have "4 * q \<le> n" using n(1) by linarith
  moreover have "3 \<le> n" if "d < 0" using that \<open>r \<noteq> h\<close> n by (auto simp: d split: if_splits)
  moreover have "0 < n" using n(2) by (cases n) auto
  ultimately show "t < n" by (cases "d < 0") (auto simp: t)
qed

lemma odd_part:
  fixes s t :: u64
  assumes w: "2 \<le> w" "w \<le> 32" and s: "odd (unat s)" "unat s \<le> 2 ^ k"
    and digit: "d = (if int (unat (s AND (2 ^ w - 1))) > 2 ^ (w - 1) - 1
      then int (unat (s AND (2 ^ w - 1))) - 2 ^ w else int (unat (s AND (2 ^ w - 1))))"
    and rest: "t = (if d < 0 then drop_bit w s + 1 else drop_bit w s)"
  shows "odd d" and "\<bar>d\<bar> < 2 ^ (w - 1)" and "int (unat s) = d + 2 ^ w * int (unat t)" and "unat t < unat s"
    and "t \<noteq> 0 \<Longrightarrow> w \<le> k \<and> unat t \<le> 2 ^ (k - w)"
proof -
  let ?h = "2 ^ (w - 1) :: nat" and ?q = "unat s div 2 ^ w"
  have h: "2 * ?h = 2 ^ w" using w by (simp flip: power_Suc)
  then have hi: "2 * int ?h = 2 ^ w" by (metis of_nat_mult of_nat_numeral of_nat_power)
  have "?q \<le> unat s div 4" using w(1) power_increasing [of 2 w "2::nat"] by (intro div_le_mono2) auto
  then have q: "?q + 1 < 2 ^ 64" using unat_u64_less [of s] by simp
  have t: "unat t = (if d < 0 then ?q + 1 else ?q)" using q by (auto simp: rest unat_drop unat_word_ariths)
  have n: "unat s = unat s mod 2 ^ w + 2 * ?h * ?q" unfolding h by simp
  have "unat s mod 2 ^ w < 2 * ?h" "even ?h" "2 \<le> ?h"
    using h w(1) power_increasing [of 1 "w - 1" "2::nat"] by auto
  moreover have "d = (if int (unat s mod 2 ^ w) > int ?h - 1 then int (unat s mod 2 ^ w) - 2 * int ?h else int (unat s mod 2 ^ w))"
    unfolding digit low_bits [OF w(2)] hi by simp
  ultimately have S: "odd d" "\<bar>d\<bar> < int ?h" "int (unat s) = d + 2 * int ?h * int (unat t)" "unat t < unat s"
    "0 < unat t \<Longrightarrow> ?h < unat s"
    using signed_digit [OF n s(1) _ _ _ _ t] by blast+
  show "odd d" "unat t < unat s" by (rule S)+
  show "\<bar>d\<bar> < 2 ^ (w - 1)" using S(2) by simp
  show "int (unat s) = d + 2 ^ w * int (unat t)" using S(3) unfolding hi .
  assume "t \<noteq> 0"
  then have "?h < unat s" by (intro S(5)) (simp add: unat_gt_0)
  then have "?h < 2 ^ k" using s(2) by (rule less_le_trans)
  then have "w - 1 < k" by (rule power_less_imp_less_exp [rotated]) simp
  then have k: "w \<le> k" by simp
  have "even ((2::nat) ^ k)" using k w(1) by simp
  then have "unat s \<noteq> 2 ^ k" using s(1) by metis
  then have "unat s < 2 ^ w * 2 ^ (k - w)" using s(2) k by (simp flip: power_add)
  then have "?q < 2 ^ (k - w)" by (rule less_mult_imp_div_less [of _ "2 ^ (k - w)" "2 ^ w", simplified mult.commute])
  then show "w \<le> k \<and> unat t \<le> 2 ^ (k - w)" using k t by auto
qed

lemma wNAF_loop_recodes:
  assumes w: "2 \<le> w" "w \<le> 32" and "unat s \<le> 2 ^ k"
  shows "\<exists>ds. wNAF_loop w s acc = Some (acc @ ds) \<and> recoded w k (unat s) ds"
  using assms(3)
proof (induction "unat s" arbitrary: s acc k rule: less_induct)
  case less
  have parity: "s AND 1 = 0 \<longleftrightarrow> even (unat s)"
    using low_bit [of s] by (auto simp: and.commute)
  consider "s = 0" | "s \<noteq> 0" "even (unat s)" | "odd (unat s)" by blast
  then show ?case
  proof cases
    case 1
    then show ?thesis using recoded_0 by (subst wNAF_loop.simps) auto
  next
    case 2
    have half: "unat (drop_bit 1 s) = unat s div 2" by (simp add: unat_drop)
    have pos: "0 < unat s" using 2 by (simp add: unat_gt_0)
    then obtain j where j: "k = j + 1" using less.prems 2(2) by (cases k) auto
    have "unat (drop_bit 1 s) < unat s" "unat (drop_bit 1 s) \<le> 2 ^ j" using pos less.prems j half by auto
    from less.hyps [OF this, of "acc @ [0]"] obtain ds where
      ds: "wNAF_loop w (drop_bit 1 s) (acc @ [0]) = Some ((acc @ [0]) @ ds)" "recoded w j (unat s div 2) ds"
      unfolding half by blast
    have "wNAF_loop w s acc = Some (acc @ 0 # ds)" using 2 parity ds(1) by (subst wNAF_loop.simps) simp
    moreover have "recoded w k (unat s) (0 # ds)" using recoded_even [OF ds(2)] 2(2) j by simp
    ultimately show ?thesis by blast
  next
    case 3
    define d where "d = (if int (unat (s AND (2 ^ w - 1))) > 2 ^ (w - 1) - 1
      then int (unat (s AND (2 ^ w - 1))) - 2 ^ w else int (unat (s AND (2 ^ w - 1))))"
    define t where "t = (if d < 0 then drop_bit w s + 1 else drop_bit w s)"
    note O = odd_part [OF w 3 less.prems d_def t_def]
    let ?acc = "if t \<noteq> 0 then (acc @ [d]) @ replicate (w - 1) 0 else acc @ [d]"
    have "s \<noteq> 0" using 3 by auto
    then have step: "wNAF_loop w s acc = wNAF_loop w t ?acc"
      using 3 parity by (subst wNAF_loop.simps) (simp only: Let_def d_def [symmetric] t_def [symmetric] if_False)
    show ?thesis
    proof (cases "t = 0")
      case True
      then have "wNAF_loop w s acc = Some (acc @ [d])" using step by (simp add: wNAF_loop.simps [of w 0])
      moreover have "recoded w k (unat s) [d]" using O True by (simp add: recoded_def)
      ultimately show ?thesis by blast
    next
      case False
      then have k: "w \<le> k" "unat t \<le> 2 ^ (k - w)" using O(5) by blast+
      from less.hyps [OF O(4) k(2), of ?acc] False obtain ds where
        ds: "wNAF_loop w t ?acc = Some (?acc @ ds)" "recoded w (k - w) (unat t) ds" by blast
      have "recoded w k (unat s) (d # replicate (w - 1) 0 @ ds)"
        using recoded_odd [OF ds(2) _ O(1,2,3)] w k(1) by simp
      then show ?thesis using step ds(1) False by auto
    qed
  qed
qed

lemma wNAF_recode_exact:
  assumes "2 \<le> w" and "w \<le> 32"
  shows "\<exists>ds. wNAF_recode scalar w = Some (Inr ds) \<and> length ds = 65 \<and>
    digits_val ds = int (unat scalar) \<and> non_adjacent w ds"
proof -
  have "unat scalar \<le> 2 ^ 64" using unat_u64_less [of scalar] by simp
  from wNAF_loop_recodes [OF assms this, of "[]"] obtain ds where
    "wNAF_loop w scalar [] = Some ds" "recoded w 64 (unat scalar) ds" by auto
  then show ?thesis
    by (auto simp: wNAF_recode_def recoded_def digits_val_append non_adjacent_pad)
qed

text \<open>The inverse of \<open>2^512\<close> modulo the order.\<close>

definition rinverse :: nat where
  "rinverse = 0x2624492be10fe5fd337441973479a03eb7111bcbf043ba8169d7c311d50560"

lemma cancel_unit:
  fixes a b c i n :: nat
  assumes "a * c mod n = b * c mod n" and "c * i mod n = 1"
  shows "a mod n = b mod n"
proof -
  have "x * c * i mod n = x mod n" for x using assms(2) by (metis mod_mult_right_eq mult.assoc mult.right_neutral)
  then show ?thesis using assms(1) by (metis mod_mult_left_eq)
qed

section \<open>Properties\<close>

text \<open>Two Montgomery steps reduce a 256-bit number modulo the order exactly.\<close>

lemma montgomery_reduces:
  "val4 (Montgomery_multiply_mod_order (Montgomery_multiply_mod_order k Montgomery_Rprime) ONE) = val4 k mod order"
proof -
  define x where "x = val4 (Montgomery_multiply_mod_order k Montgomery_Rprime)"
  define y where "y = val4 (Montgomery_multiply_mod_order (Montgomery_multiply_mod_order k Montgomery_Rprime) ONE)"
  have R: "val4 Montgomery_Rprime < order" "val4 ONE < order" "val4 ONE = 1"
    by (simp_all add: Montgomery_Rprime_def ONE_def order_def)
  have rp: "val4 Montgomery_Rprime mod order = 2 ^ 512 mod order" by (simp add: Montgomery_Rprime_def order_def)
  have y: "y < order" "y * 2 ^ 256 mod order = x mod order"
    using montgomery_val [OF R(2)] by (simp_all add: x_def y_def R(3))
  have "y * 2 ^ 512 mod order = y * 2 ^ 256 mod order * 2 ^ 256 mod order"
    by (simp only: mod_mult_left_eq mult.assoc power_add [symmetric]) simp
  also have "\<dots> = x * 2 ^ 256 mod order" unfolding y(2) by (rule mod_mult_left_eq)
  also have "\<dots> = val4 k * val4 Montgomery_Rprime mod order" unfolding x_def by (rule montgomery_val(2) [OF R(1)])
  also have "\<dots> = val4 k * 2 ^ 512 mod order" using rp by (metis mod_mult_right_eq)
  finally have "y * 2 ^ 512 mod order = val4 k * 2 ^ 512 mod order" .
  moreover have "2 ^ 512 * rinverse mod order = 1" by (simp add: order_def rinverse_def)
  ultimately have "y mod order = val4 k mod order" by (rule cancel_unit)
  then show ?thesis using y(1) by (simp add: y_def)
qed


text \<open>
  The width-w recoding ends and is right for every 64-bit scalar and every width from 2:
  it fills the 65 entries of the array and never writes past them, the digits represent the scalar, each is
  zero or odd and below \<open>2^(w-1)\<close> in absolute value, and among any w digits in a row at most one is not zero.
\<close>

lemma wNAF_recode_correct:
  assumes "2 \<le> w" and "w \<le> 32"
  shows "\<exists>ds. wNAF_recode scalar w = Some (Inr ds) \<and> length ds = 65 \<and>
    digits_val ds = int (unat scalar) \<and> non_adjacent w ds"
  using assms by (rule wNAF_recode_exact)

end
