(* ===== verification/FixedBase.thy ===== *)
theory FixedBase
  imports CurveTables Scalars
begin

text \<open>
  Fixed-base scalar multiplication of \<open>K12AndKeyUtil.h\<close>: \<open>ecc_mul_fixed\<close> reduces the scalar modulo the
  order, makes it odd, recodes it into a row of 50 signs and four rows of 50 bits, and runs through
  a table of 80 multiples of the generator with nine doublings. The unrolled additions are
  written as the loops they unroll: passes \<open>t\<close> from 9 down, and in each the blocks \<open>j\<close> from 4 down.
\<close>

section \<open>The code\<close>

definition table_lookup_fixed_base :: "u64 list \<Rightarrow> nat \<Rightarrow> u32 \<Rightarrow> point_precomp" where
  "table_lookup_fixed_base table digit sign =
     (let E = entryOf table digit
      in if sign \<noteq> 0
         then \<lparr>sxy = syx E, syx = sxy E,
               st2 = ((NOT (fst (fst (st2 E))), 0x7FFFFFFFFFFFFFFF - snd (fst (st2 E))),
                      (NOT (fst (snd (st2 E))), 0x7FFFFFFFFFFFFFFF - snd (snd (st2 E))))\<rparr>
         else E)"

fun shiftScalar :: "limbs4 \<Rightarrow> limbs4" where
  "shiftScalar (s0, s1, s2, s3) = (shiftright128 s0 s1 1, shiftright128 s1 s2 1, shiftright128 s2 s3 1, drop_bit 1 s3)"

text \<open>The sign row: all bits set stands for minus one, zero for plus one.\<close>

primrec recodeSigns :: "nat \<Rightarrow> limbs4 \<Rightarrow> u32 list \<times> limbs4" where
  "recodeSigns 0 s = ([], s)"
| "recodeSigns (Suc n) s =
     (let digit = ucast ((fst s AND 1) - 1);
          (ds, s') = recodeSigns n (shiftScalar s)
      in (digit # ds, s'))"

text \<open>\<open>floor(scalar/2) + temp\<close> with the carry that runs only through limbs that became zero.\<close>

fun addTemp :: "u64 \<Rightarrow> limbs4 \<Rightarrow> limbs4" where
  "addTemp temp (s0, s1, s2, s3) =
     (let s0 = s0 + temp;
          carry = (if s0 \<noteq> 0 then 0 else temp AND 1);
          s1 = s1 + carry;
          carry = (if s1 \<noteq> 0 then 0 else carry AND 1);
          s2 = s2 + carry;
          s3 = s3 + (if s2 \<noteq> 0 then 0 else carry AND 1)
      in (s0, s1, s2, s3))"

text \<open>The remaining rows, from index \<open>i\<close> on.\<close>

primrec recodeBits :: "u32 list \<Rightarrow> nat \<Rightarrow> nat \<Rightarrow> limbs4 \<Rightarrow> u32 list \<times> limbs4" where
  "recodeBits signs i 0 s = ([], s)"
| "recodeBits signs i (Suc n) s =
     (let digit = ucast (fst s AND 1);
          s = shiftScalar s;
          temp = ucast ((0 - signs ! (i - (i div 50) * 50)) AND digit);
          (ds, s') = recodeBits signs (Suc i) n (addTemp temp s)
      in (digit # ds, s'))"

definition oddScalar :: "limbs4 \<Rightarrow> limbs4" where
  "oddScalar k =
     (let scalar = Montgomery_multiply_mod_order (Montgomery_multiply_mod_order k Montgomery_Rprime) ONE
      in if fst scalar AND 1 = 0 then snd (add4 False scalar curve_order) else scalar)"

definition recodeFixed :: "limbs4 \<Rightarrow> u32 list" where
  "recodeFixed scalar =
     (let (signs, s) = recodeSigns 49 (shiftScalar scalar);
          signs = signs @ [0];
          (bits, _) = recodeBits signs 50 200 s
      in signs @ bits)"

definition combIndex :: "u32 list \<Rightarrow> nat \<Rightarrow> nat \<Rightarrow> nat" where
  "combIndex digits j t =
     16 * j + unat (push_bit 1 (push_bit 1 (push_bit 1 (digits ! (200 + 10 * j + t)) + digits ! (150 + 10 * j + t)) +
       digits ! (100 + 10 * j + t)) + digits ! (50 + 10 * j + t))"

definition combAdd :: "u64 list \<Rightarrow> u32 list \<Rightarrow> nat \<Rightarrow> nat \<Rightarrow> point_extproj \<Rightarrow> point_extproj" where
  "combAdd table digits t j R = eccmadd (table_lookup_fixed_base table (combIndex digits j t) (digits ! (10 * j + t))) R"

text \<open>The first entry, converted to extended coordinates.\<close>

definition combFirst :: "u64 list \<Rightarrow> u32 list \<Rightarrow> point_extproj" where
  "combFirst table digits =
     (let S = table_lookup_fixed_base table (combIndex digits 4 9) 0;
          x = fp2div1271 (fp2sub1271 (sxy S) (syx S));
          y = fp2div1271 (fp2add1271 (sxy S) (syx S))
      in \<lparr>px = x, py = y, pz = ((1, 0), (0, 0)), pta = x, ptb = y\<rparr>)"

definition combPass :: "u64 list \<Rightarrow> u32 list \<Rightarrow> nat \<Rightarrow> point_extproj \<Rightarrow> point_extproj" where
  "combPass table digits t R = fold (combAdd table digits t) [4, 3, 2, 1, 0] (eccdouble R)"

definition mulFixed :: "u64 list \<Rightarrow> limbs4 \<Rightarrow> point_extproj" where
  "mulFixed table k =
     (let digits = recodeFixed (oddScalar k);
          R = fold (combAdd table digits 9) [3, 2, 1, 0] (combFirst table digits)
      in fold (combPass table digits) [8, 7, 6, 5, 4, 3, 2, 1, 0] R)"

definition ecc_mul_fixed :: "limbs4 \<Rightarrow> point_affine" where
  "ecc_mul_fixed k = eccnorm (mulFixed FIXED_BASE_TABLE k)"

section \<open>The recoding\<close>

lemma halves: "2 ^ 63 * (x mod 2) + 2 ^ 64 * (x div 2) = 2 ^ 63 * (x :: nat)"
proof -
  have "2 ^ 63 * x = 2 ^ 63 * (x mod 2 + 2 * (x div 2))" by simp
  then show ?thesis by (simp only: distrib_left mult.assoc [symmetric]) simp
qed

lemma half_sum: "(a + 2 * b) div 2 = a div 2 + (b :: nat)"
  by simp

lemma shiftright_one:
  "unat (shiftright128 low high 1) = unat low div 2 + 2 ^ 63 * (unat high mod 2)"
proof -
  have "unat (shiftright128 low high 1) + 2 ^ 64 * (unat high div 2) = (unat low + 2 * (2 ^ 63 * unat high)) div 2"
    using shifted_right_one [of "(low, high)"] unfolding fval_def fst_conv snd_conv unat_drop by simp
  then show ?thesis unfolding half_sum using halves [of "unat high"] by linarith
qed

lemma shiftScalar_val: "val4 (shiftScalar s) = val4 s div 2"
proof (cases s)
  case (fields s0 s1 s2 s3)
  have d: "unat (drop_bit 1 s3) = unat s3 div 2" unfolding unat_drop by simp
  have "val4 s = unat s0 + 2 * (2 ^ 63 * unat s1 + 2 ^ 64 * (2 ^ 63 * unat s2) + 2 ^ 128 * (2 ^ 63 * unat s3))"
    by (simp add: fields)
  then have "val4 s div 2 = unat s0 div 2 + (2 ^ 63 * unat s1 + 2 ^ 64 * (2 ^ 63 * unat s2) + 2 ^ 128 * (2 ^ 63 * unat s3))"
    by (simp only: half_sum)
  then show ?thesis unfolding fields shiftScalar.simps val4.simps shiftright_one d
    using halves [of "unat s1"] halves [of "unat s2"] halves [of "unat s3"] by simp
qed

lemma parity_val4: "fst s AND 1 = of_bool (odd (val4 s))"
proof (cases s)
  case (fields s0 s1 s2 s3)
  have "s0 AND 1 = of_bool (odd (unat s0))" using low_bit [of s0] by (simp add: and.commute)
  then show ?thesis by (simp add: fields)
qed

lemma limb_step:
  fixes a c :: u64
  assumes "c = 0 \<or> c = 1"
  shows "unat (a + c) + 2 ^ 64 * unat (if a + c \<noteq> 0 then 0 else c AND 1) = unat a + unat c"
proof (cases "c = 1 \<and> a = - 1")
  case True
  have "unat (- 1 :: u64) = 18446744073709551615" unfolding minus_one_u64 by simp
  then show ?thesis using True by simp
next
  case False
  then consider "c = 0" | "c = 1" "a \<noteq> - 1" using assms by blast
  then show ?thesis
  proof cases
    case 2
    then have ne: "a + 1 \<noteq> 0" by (metis add.commute add_eq_0_iff)
    then have "unat (a + 1) = unat a + 1" using unatSuc [of a] by (simp only: add.commute [of a]) simp
    then show ?thesis using 2 ne by simp
  qed simp
qed

lemma addTemp_val:
  assumes temp: "temp = 0 \<or> temp = 1" and room: "val4 s + 1 < 2 ^ 256"
  shows "val4 (addTemp temp s) = val4 s + unat temp"
proof (cases s)
  case (fields s0 s1 s2 s3)
  define c1 where "c1 = (if s0 + temp \<noteq> 0 then 0 else temp AND 1)"
  define c2 where "c2 = (if s1 + c1 \<noteq> 0 then 0 else c1 AND 1)"
  define c3 where "c3 = (if s2 + c2 \<noteq> 0 then 0 else c2 AND 1)"
  define c4 where "c4 = (if s3 + c3 \<noteq> 0 then 0 else c3 AND 1)"
  have c: "c1 = 0 \<or> c1 = 1" "c2 = 0 \<or> c2 = 1" "c3 = 0 \<or> c3 = 1" using temp by (auto simp: c1_def c2_def c3_def)
  note L = limb_step [OF temp, of s0, folded c1_def] limb_step [OF c(1), of s1, folded c2_def]
    limb_step [OF c(2), of s2, folded c3_def] limb_step [OF c(3), of s3, folded c4_def]
  have "addTemp temp s = (s0 + temp, s1 + c1, s2 + c2, s3 + c3)" by (simp add: fields c1_def c2_def c3_def Let_def)
  then have sum: "val4 (addTemp temp s) + 2 ^ 256 * unat c4 = val4 s + unat temp" using L by (simp add: fields)
  have "unat temp \<le> 1" using temp by auto
  then have "unat c4 = 0" using sum room by (cases "unat c4") auto
  then show ?thesis using sum by simp
qed

definition signOf :: "u32 \<Rightarrow> int" where
  "signOf d = (if d = 0 then 1 else - 1)"

primrec signSum :: "u32 list \<Rightarrow> int" where
  "signSum [] = 0"
| "signSum (d # ds) = signOf d + 2 * signSum ds"

primrec bitSum :: "u32 list \<Rightarrow> nat \<Rightarrow> u32 list \<Rightarrow> int" where
  "bitSum signs i [] = 0"
| "bitSum signs i (d # ds) = signOf (signs ! (i mod 50)) * int (unat d) + 2 * bitSum signs (Suc i) ds"

lemma recodeSigns_val:
  "recodeSigns n s = (ds, s') \<Longrightarrow> length ds = n \<and> val4 s' = val4 s div 2 ^ n \<and> set ds \<subseteq> {0, - 1} \<and>
     signSum ds = 2 * int (val4 s mod 2 ^ n) - (2 ^ n - 1)"
proof (induction n arbitrary: s ds s')
  case (Suc n)
  obtain es where es: "recodeSigns n (shiftScalar s) = (es, s')" and ds: "ds = ucast ((fst s AND 1) - 1) # es"
    using Suc.prems by (auto simp: Let_def split: prod.splits)
  note IH = Suc.IH [OF es]
  have m: "val4 s mod 2 ^ Suc n = 2 * (val4 s div 2 mod 2 ^ n) + val4 s mod 2" by (simp add: mod_mult2_eq)
  have "ucast (- 1 :: u64) = (- 1 :: u32)" unfolding minus_one_u64 by simp
  then have digit: "ucast ((fst s AND 1) - 1) = (if odd (val4 s) then 0 else - 1 :: u32)" by (simp add: parity_val4)
  have "signSum ds = 2 * int (val4 s mod 2 ^ Suc n) - (2 ^ Suc n - 1)"
    using IH unfolding ds digit m
    by (cases "odd (val4 s)") (simp_all add: signOf_def shiftScalar_val odd_iff_mod_2_eq_one even_iff_mod_2_eq_zero)
  then show ?case using IH ds digit by (auto simp: shiftScalar_val div_mult2_eq)
qed simp

text \<open>One step of the bit rows: \<open>s = \<plusminus>digit + 2 s'\<close> with the sign of its column.\<close>

definition bitStep :: "u32 \<Rightarrow> limbs4 \<Rightarrow> limbs4" where
  "bitStep sg s = addTemp (ucast ((0 - sg) AND (ucast (fst s AND 1) :: u32))) (shiftScalar s)"

lemma recodeBits_Suc:
  "recodeBits signs i (Suc n) s =
     (let (ds, s') = recodeBits signs (Suc i) n (bitStep (signs ! (i mod 50)) s) in (ucast (fst s AND 1) # ds, s'))"
proof -
  have "i - i div 50 * 50 = i mod 50" by (simp add: minus_div_mult_eq_mod)
  then show ?thesis by (simp only: recodeBits.simps bitStep_def Let_def)
qed

lemma bitStep_val:
  assumes sg: "sg = 0 \<or> sg = - 1" and room: "val4 s < 2 ^ 255"
  shows "int (val4 s) = signOf sg * int (val4 s mod 2) + 2 * int (val4 (bitStep sg s))"
proof -
  have temp: "ucast ((0 - sg) AND (ucast (fst s AND 1) :: u32)) = (of_bool (sg \<noteq> 0 \<and> odd (val4 s)) :: u64)"
    using sg by (auto simp: parity_val4)
  have "val4 (shiftScalar s) + 1 < 2 ^ 256" using room by (simp add: shiftScalar_val)
  then have v: "val4 (bitStep sg s) = val4 s div 2 + of_bool (sg \<noteq> 0 \<and> odd (val4 s))"
    unfolding bitStep_def temp by (subst addTemp_val) (auto simp: shiftScalar_val)
  have "val4 s = 2 * (val4 s div 2) + val4 s mod 2" by simp
  then have "int (val4 s) = 2 * int (val4 s div 2) + int (val4 s mod 2)" by linarith
  then show ?thesis unfolding v using sg by (cases "odd (val4 s)") (auto simp: signOf_def odd_iff_mod_2_eq_one even_iff_mod_2_eq_zero)
qed

lemma bitStep_bound:
  assumes sg: "sg = 0 \<or> sg = - 1" and bound: "val4 s \<le> 2 ^ b" and b: "b < 255"
  shows "val4 (bitStep sg s) \<le> 2 ^ (b - 1)"
proof -
  have "(2 :: nat) ^ b < 2 ^ 255" using b by (rule power_strict_increasing) simp
  then have "int (val4 s) = signOf sg * int (val4 s mod 2) + 2 * int (val4 (bitStep sg s))" using bitStep_val [OF sg] bound by simp
  moreover have "signOf sg * int (val4 s mod 2) \<ge> - 1" by (auto simp: signOf_def)
  ultimately have "2 * val4 (bitStep sg s) \<le> val4 s + 1" by linarith
  then show ?thesis using bound by (cases b) auto
qed

lemma recodeBits_val:
  assumes signs: "\<forall>i < 50. signs ! i = 0 \<or> signs ! i = - 1"
  shows "recodeBits signs i n s = (ds, s') \<Longrightarrow> val4 s \<le> 2 ^ b \<Longrightarrow> b < 255 \<Longrightarrow>
    length ds = n \<and> set ds \<subseteq> {0, 1} \<and> int (val4 s) = bitSum signs i ds + 2 ^ n * int (val4 s') \<and> val4 s' \<le> 2 ^ (b - n)"
proof (induction n arbitrary: i s ds b)
  case (Suc n)
  have sg: "signs ! (i mod 50) = 0 \<or> signs ! (i mod 50) = - 1" using signs by simp
  obtain es where es: "recodeBits signs (Suc i) n (bitStep (signs ! (i mod 50)) s) = (es, s')" and ds: "ds = ucast (fst s AND 1) # es"
    using Suc.prems(1) by (auto simp: recodeBits_Suc simp del: recodeBits.simps(2) split: prod.splits)
  have digit: "ucast (fst s AND 1) = (of_bool (odd (val4 s)) :: u32)" by (simp add: parity_val4)
  have "(2 :: nat) ^ b < 2 ^ 255" using Suc.prems(3) by (rule power_strict_increasing) simp
  then have v: "int (val4 s) = signOf (signs ! (i mod 50)) * int (val4 s mod 2) + 2 * int (val4 (bitStep (signs ! (i mod 50)) s))"
    using bitStep_val [OF sg] Suc.prems(2) by simp
  note IH = Suc.IH [OF es bitStep_bound [OF sg Suc.prems(2,3)]]
  have "unat (of_bool (odd (val4 s)) :: u32) = val4 s mod 2" by (simp add: odd_iff_mod_2_eq_one)
  then have "int (val4 s) = bitSum signs i ds + 2 ^ Suc n * int (val4 s')" using IH Suc.prems(3) v by (simp add: ds digit)
  then show ?case using IH Suc.prems(3) by (auto simp: ds digit)
qed simp

lemma recodeBits_append:
  "recodeBits signs i (n + m) s =
     (let (ds, s1) = recodeBits signs i n s; (es, s2) = recodeBits signs (i + n) m s1 in (ds @ es, s2))"
  by (induction n arbitrary: i s) (simp_all add: recodeBits_Suc split_beta Let_def del: recodeBits.simps(2))

lemma signSum_append: "signSum (xs @ ys) = signSum xs + 2 ^ length xs * signSum ys"
  by (induction xs) (simp_all add: algebra_simps)

lemma signSum_eq: "signSum ds = (\<Sum>n < length ds. 2 ^ n * signOf (ds ! n))"
  by (induction ds) (simp_all add: sum.lessThan_Suc_shift sum_distrib_left mult.assoc del: sum.lessThan_Suc)

lemma bitSum_eq: "bitSum signs i ds = (\<Sum>m < length ds. 2 ^ m * (signOf (signs ! ((i + m) mod 50)) * int (unat (ds ! m))))"
  by (induction ds arbitrary: i) (simp_all add: sum.lessThan_Suc_shift sum_distrib_left mult.assoc del: sum.lessThan_Suc)

text \<open>The digit of column \<open>n\<close>: its sign times one plus the bits of the column.\<close>

definition columnDigit :: "u32 list \<Rightarrow> nat \<Rightarrow> int" where
  "columnDigit digits n = signOf (digits ! n) *
     (1 + 2 ^ 50 * int (unat (digits ! (50 + n))) + 2 ^ 100 * int (unat (digits ! (100 + n))) +
      2 ^ 150 * int (unat (digits ! (150 + n))) + 2 ^ 200 * int (unat (digits ! (200 + n))))"

lemma rows_sum:
  fixes f :: "nat \<Rightarrow> int"
  shows "(\<Sum>m < 200. f m) = (\<Sum>n < 50. f n + f (50 + n) + f (100 + n) + f (150 + n))"
proof -
  have "(\<Sum>m < 200. f m) = (\<Sum>m \<in> {0..<50}. f m) + (\<Sum>m \<in> {50..<100}. f m) + (\<Sum>m \<in> {100..<150}. f m) + (\<Sum>m \<in> {150..<200}. f m)"
    by (simp add: lessThan_atLeast0 sum.atLeastLessThan_concat)
  moreover have "(\<Sum>m \<in> {k..<k + 50}. f m) = (\<Sum>n < 50. f (k + n))" for k
    using sum.shift_bounds_nat_ivl [of f 0 k 50] by (simp add: lessThan_atLeast0 add.commute)
  note this [of 0] this [of 50] this [of 100] this [of 150]
  ultimately show ?thesis by (simp add: sum.distrib)
qed

lemma recodeFixed_val:
  assumes odd: "odd (val4 s)" and small: "val4 s < 2 ^ 248"
  shows "length (recodeFixed s) = 250" and "\<forall>n < 50. recodeFixed s ! n = 0 \<or> recodeFixed s ! n = - 1"
    and "\<forall>n. 50 \<le> n \<and> n < 250 \<longrightarrow> recodeFixed s ! n = 0 \<or> recodeFixed s ! n = 1" and "recodeFixed s ! 49 = 0"
    and "int (val4 s) = (\<Sum>n < 50. 2 ^ n * columnDigit (recodeFixed s) n)"
proof -
  obtain sg s1 where sg: "recodeSigns 49 (shiftScalar s) = (sg, s1)" by (meson surj_pair)
  note S = recodeSigns_val [OF sg]
  define signs where "signs = sg @ [0]"
  obtain bits s2 where bits: "recodeBits signs 50 200 s1 = (bits, s2)" by (meson surj_pair)
  have len: "length signs = 50" and last: "signs ! 49 = 0" using S by (simp_all add: signs_def nth_append)
  have "set signs \<subseteq> {0, - 1}" using S by (simp add: signs_def)
  then have signs_ok: "\<forall>i < 50. signs ! i = 0 \<or> signs ! i = - 1" using len nth_mem [of _ signs] by fastforce
  have s1: "val4 s1 = val4 s div 2 ^ 50" using S by (simp add: shiftScalar_val div_mult2_eq [symmetric])
  then have b1: "val4 s1 \<le> 2 ^ 198" using small by (simp add: less_mult_imp_div_less less_imp_le)
  have B: "length bits = 200" "set bits \<subseteq> {0, 1}" "int (val4 s1) = bitSum signs 50 bits + 2 ^ 200 * int (val4 s2)"
    using recodeBits_val [OF signs_ok bits b1] by simp_all
  have s2: "val4 s2 = 0"
  proof -
    obtain es s3 e s4 where es: "recodeBits signs 50 199 s1 = (es, s3)" and e: "recodeBits signs 249 1 s3 = (e, s4)" by (meson surj_pair)
    have s4: "s4 = s2" using bits recodeBits_append [of signs 50 199 1 s1] es e by simp
    have b3: "val4 s3 \<le> 2 ^ 0" using recodeBits_val [OF signs_ok es b1] by simp
    note E = recodeBits_val [OF signs_ok e b3]
    obtain d where d: "e = [d]" using E by (auto simp: length_Suc_conv)
    then show ?thesis using E b3 last by (auto simp: s4 signOf_def)
  qed
  have digits: "recodeFixed s = signs @ bits" by (simp add: recodeFixed_def sg signs_def [symmetric] bits)
  show "length (recodeFixed s) = 250" using B len by (simp add: digits)
  show "\<forall>n < 50. recodeFixed s ! n = 0 \<or> recodeFixed s ! n = - 1" using signs_ok len by (simp add: digits nth_append)
  show "\<forall>n. 50 \<le> n \<and> n < 250 \<longrightarrow> recodeFixed s ! n = 0 \<or> recodeFixed s ! n = 1"
  proof (intro allI impI)
    fix n :: nat
    assume n: "50 \<le> n \<and> n < 250"
    then have "bits ! (n - 50) \<in> set bits" using B(1) by (intro nth_mem) linarith
    then show "recodeFixed s ! n = 0 \<or> recodeFixed s ! n = 1" using B(2) n len by (auto simp: digits nth_append)
  qed
  show "recodeFixed s ! 49 = 0" using last len by (simp add: digits nth_append)
  have low: "signSum signs = int (val4 s mod 2 ^ 50)"
  proof -
    have "val4 s mod 2 ^ 50 = 2 * (val4 s div 2 mod 2 ^ 49) + val4 s mod 2" using mod_mult2_eq [of "val4 s" 2 "2 ^ 49"] by simp
    then have "int (val4 s mod 2 ^ 50) = 2 * int (val4 s div 2 mod 2 ^ 49) + 1" using odd by (simp add: odd_iff_mod_2_eq_one)
    moreover have "signSum signs = 2 * int (val4 s div 2 mod 2 ^ 49) - (2 ^ 49 - 1) + 2 ^ 49"
      using S by (simp add: signs_def signSum_append signOf_def shiftScalar_val)
    ultimately show ?thesis by simp
  qed
  have "val4 s mod 2 ^ 50 + 2 ^ 50 * val4 s1 = val4 s" unfolding s1 by simp
  then have "int (val4 s mod 2 ^ 50 + 2 ^ 50 * val4 s1) = int (val4 s)" by (rule arg_cong)
  then have "int (val4 s) = int (val4 s mod 2 ^ 50) + 2 ^ 50 * int (val4 s1)"
    by (simp only: of_nat_add of_nat_mult of_nat_power of_nat_numeral)
  then have "int (val4 s) = signSum signs + 2 ^ 50 * bitSum signs 50 bits" using B s2 low by simp
  also have "\<dots> = (\<Sum>n < 50. 2 ^ n * columnDigit (recodeFixed s) n)"
  proof -
    define f where "f m = 2 ^ m * (signOf (signs ! ((50 + m) mod 50)) * int (unat (bits ! m)))" for m
    have "bitSum signs 50 bits = (\<Sum>m < 200. f m)" using B by (simp add: bitSum_eq f_def)
    then have "signSum signs + 2 ^ 50 * bitSum signs 50 bits =
        (\<Sum>n < 50. 2 ^ n * signOf (signs ! n) + 2 ^ 50 * (f n + f (50 + n) + f (100 + n) + f (150 + n)))"
      by (simp add: signSum_eq len rows_sum sum.distrib sum_distrib_left)
    also have "\<dots> = (\<Sum>n < 50. 2 ^ n * columnDigit (recodeFixed s) n)"
    proof (rule sum.cong)
      fix n :: nat
      assume "n \<in> {..<50}"
      then have n: "n < 50" by simp
      have shift: "(50 * k + n) mod 50 = n" for k :: nat using n by simp
      have m: "(50 + n) mod 50 = n" "(50 + (50 + n)) mod 50 = n" "(50 + (100 + n)) mod 50 = n" "(50 + (150 + n)) mod 50 = n"
        using shift [of 1] shift [of 2] shift [of 3] shift [of 4] by (simp_all only: add.assoc [symmetric]) simp_all
      have d: "recodeFixed s ! n = signs ! n" "recodeFixed s ! (50 + n) = bits ! n" "recodeFixed s ! (100 + n) = bits ! (50 + n)"
        "recodeFixed s ! (150 + n) = bits ! (100 + n)" "recodeFixed s ! (200 + n) = bits ! (150 + n)"
        using n len by (simp_all add: digits nth_append)
      show "2 ^ n * signOf (signs ! n) + 2 ^ 50 * (f n + f (50 + n) + f (100 + n) + f (150 + n)) = 2 ^ n * columnDigit (recodeFixed s) n"
        unfolding columnDigit_def d f_def m power_add by (simp add: algebra_simps)
    qed simp
    finally show ?thesis .
  qed
  finally show "int (val4 s) = (\<Sum>n < 50. 2 ^ n * columnDigit (recodeFixed s) n)" .
qed

lemma unat_odd_order: "odd order"
  by (simp add: order_def)

lemma oddScalar_val:
  shows "odd (val4 (oddScalar k))" and "val4 (oddScalar k) mod order = val4 k mod order" and "val4 (oddScalar k) < 2 ^ 248"
proof -
  define r where "r = Montgomery_multiply_mod_order (Montgomery_multiply_mod_order k Montgomery_Rprime) ONE"
  have r: "val4 r = val4 k mod order" unfolding r_def by (rule montgomery_reduces)
  then have less: "val4 r < order" by (simp add: order_def)
  have small: "2 * order < 2 ^ 248" by (simp add: order_def)
  obtain c s where s: "add4 False r curve_order = (c, s)" by (meson surj_pair)
  have "val4 s + 2 ^ 256 * of_bool c = val4 r + order" using add4_val [OF s] by (simp add: val4_order)
  moreover have "val4 r + order < 2 ^ 256" using less small by simp
  ultimately have vs: "val4 s = val4 r + order" by (cases c) auto
  have o: "oddScalar k = (if odd (val4 r) then r else s)"
    by (simp add: oddScalar_def r_def [symmetric] s parity_val4)
  show "odd (val4 (oddScalar k))" using unat_odd_order by (simp add: o vs)
  show "val4 (oddScalar k) mod order = val4 k mod order" by (simp add: o vs r)
  show "val4 (oddScalar k) < 2 ^ 248" using less small by (simp add: o vs)
qed

section \<open>Multiples by integers\<close>

text \<open>
  A family of points indexed by the integers that is additive for the law of the curve, with the
  denominators of the law invertible, and with the mirrored point at the negative index.
\<close>

definition curve_k :: "gf2 \<times> gf2 \<Rightarrow> gf2 \<times> gf2 \<Rightarrow> gf2" where
  "curve_k P Q = curve_d * (fst P * fst Q) * (snd P * snd Q)"

definition intMultiples :: "(int \<Rightarrow> gf2 \<times> gf2) \<Rightarrow> bool" where
  "intMultiples m \<longleftrightarrow> (\<forall>n. on_curve (m n)) \<and> (\<forall>n. m (- n) = (- fst (m n), snd (m n))) \<and>
     (\<forall>i j. edwards_sum (m i) (m j) (m (i + j)) \<and>
       (1 + curve_k (m i) (m j)) dvd 1 \<and> (1 - curve_k (m i) (m j)) dvd 1)"

text \<open>A point that stands for an affine point with an invertible \<open>Z\<close>.\<close>

definition represents :: "point_extproj \<Rightarrow> gf2 \<times> gf2 \<Rightarrow> bool" where
  "represents P a \<longleftrightarrow> stands_for P a \<and> fp2 (pz P) dvd 1"

lemma unit_mult: "a dvd 1 \<Longrightarrow> b dvd 1 \<Longrightarrow> a * b dvd (1 :: 'a::comm_semiring_1)"
  using mult_dvd_mono [of a 1 b 1] by simp

lemma unit_double: "w dvd (1 :: gf2) \<Longrightarrow> w + w dvd 1"
proof -
  assume w: "w dvd 1"
  have "fp2 (fp2div1271 ONE2) + fp2 (fp2div1271 ONE2) = 1"
    using reduced2_one fp2_one by (simp add: fp2div1271_def fp2_def reduced2_def fphalf1271_ring plus_gf2_def)
  then have "(2 :: gf2) * fp2 (fp2div1271 ONE2) = 1" by simp
  then have "(2 :: gf2) dvd 1" by (metis dvd_triv_left)
  then show ?thesis using unit_mult [OF _ w] by (metis mult_2)
qed

lemma eccmadd_represents:
  assumes Q: "stands_for_precomp Q a" and P: "represents P b" and sum: "edwards_sum a b c"
    and units: "1 + curve_k a b dvd 1" "1 - curve_k a b dvd 1"
  shows "represents (eccmadd Q P) c"
proof -
  define w where "w = fp2 (pz P)"
  have red: "reduced2 (px P)" "reduced2 (py P)" "reduced2 (pz P)" "reduced2 (pta P)" "reduced2 (ptb P)"
    "reduced2 (sxy Q)" "reduced2 (syx Q)" "reduced2 (st2 Q)"
    using P Q by (simp_all add: represents_def stands_for_def stands_for_precomp_def)
  have w: "w dvd 1" using P by (simp add: represents_def w_def)
  have t: "fp2 (pta P) * fp2 (ptb P) * fp2 (st2 Q) = curve_k a b * (w + w)"
    using P Q by (simp add: represents_def stands_for_def stands_for_precomp_def curve_k_def w_def algebra_simps)
  have "fp2 (pz (eccmadd Q P)) = (w + w + curve_k a b * (w + w)) * (w + w - curve_k a b * (w + w))"
    by (simp add: eccmadd_def Let_def fp2_ops red t) (simp add: w_def)
  also have "\<dots> = (1 + curve_k a b) * (1 - curve_k a b) * ((w + w) * (w + w))" by (simp add: algebra_simps)
  also have "\<dots> dvd 1" by (intro unit_mult unit_double w units)
  finally show ?thesis using eccmadd_stands [OF Q _ sum] P by (simp add: represents_def)
qed

definition represents_proj :: "point_extproj \<Rightarrow> gf2 \<times> gf2 \<Rightarrow> bool" where
  "represents_proj P a \<longleftrightarrow> stands_proj P a \<and> fp2 (pz P) dvd 1"

lemma represents_imp_proj: "represents P a \<Longrightarrow> represents_proj P a"
  by (simp add: represents_def represents_proj_def stands_for_proj)

lemma eccdouble_represents:
  assumes P: "represents_proj P a" and curve: "on_curve a" and sum: "edwards_sum a a c"
    and units: "1 + curve_k a a dvd 1" "1 - curve_k a a dvd 1"
  shows "represents (eccdouble P) c"
proof -
  define w where "w = fp2 (pz P)"
  have red: "reduced2 (px P)" "reduced2 (py P)" "reduced2 (pz P)" using P by (simp_all add: represents_proj_def stands_proj_def)
  have w: "w dvd 1" using P by (simp add: represents_proj_def w_def)
  have v: "fp2 (px P) = fst a * w" "fp2 (py P) = snd a * w" "fp2 (pz P) = w"
    using P by (simp_all add: represents_proj_def stands_proj_def w_def)
  have "snd a * w * (snd a * w) - fst a * w * (fst a * w) = (snd a * snd a - fst a * fst a) * (w * w)" by (simp add: algebra_simps)
  also have "\<dots> = (1 + curve_k a a) * (w * w)"
    using curve by (cases a) (simp add: on_curve_def curve_k_def)
  finally have al: "snd a * w * (snd a * w) - fst a * w * (fst a * w) = (1 + curve_k a a) * (w * w)" .
  have "fp2 (pz (eccdouble P)) = (1 + curve_k a a) * (w * w) * (w * w + w * w - (1 + curve_k a a) * (w * w))"
    by (simp add: eccdouble_def Let_def fp2addsub1271_def fp2_ops power2_eq_square red v al)
  also have "\<dots> = (1 + curve_k a a) * (1 - curve_k a a) * ((w * w) * (w * w))" by (simp add: algebra_simps)
  also have "\<dots> dvd 1" by (intro unit_mult w units)
  finally show ?thesis using eccdouble_stands_proj [OF _ curve sum] P by (simp add: represents_def represents_proj_def)
qed

lemma double_proj_int: "intMultiples m \<Longrightarrow> represents_proj P (m n) \<Longrightarrow> represents (eccdouble P) (m (2 * n))"
  using eccdouble_represents [of P "m n" "m (n + n)"] unfolding intMultiples_def mult_2 by blast

lemmas double_int = double_proj_int [OF _ represents_imp_proj]

lemma madd_int:
  assumes "intMultiples m" and "stands_for_precomp Q (m i)" and "represents P (m j)"
  shows "represents (eccmadd Q P) (m (i + j))"
  using eccmadd_represents [OF assms(2,3)] assms(1) unfolding intMultiples_def by blast

section \<open>The comb\<close>

text \<open>What a fixed-base table holds: entry \<open>16 j + u\<close> is the multiple with the bits of \<open>u\<close> spread over the four rows.\<close>

definition combMultiple :: "nat \<Rightarrow> nat \<Rightarrow> int" where
  "combMultiple j u = 2 ^ (10 * j) * (1 + 2 ^ 50 * int (u mod 2) + 2 ^ 100 * int (u div 2 mod 2) +
     2 ^ 150 * int (u div 4 mod 2) + 2 ^ 200 * int (u div 8 mod 2))"

definition fixed_table_ok :: "u64 list \<Rightarrow> (int \<Rightarrow> gf2 \<times> gf2) \<Rightarrow> bool" where
  "fixed_table_ok table m \<longleftrightarrow> (\<forall>j < 5. \<forall>u < 16. stands_for_precomp (entryOf table (16 * j + u)) (m (combMultiple j u)))"

lemma lookup_negates:
  "table_lookup_fixed_base table digit sign = (if sign = 0 then entryOf table digit else eccneg_precomp (entryOf table digit))"
  by (simp add: table_lookup_fixed_base_def eccneg_precomp_def fp2neg1271_def fpneg1271_def Let_def)

lemma lookup_stands:
  assumes m: "intMultiples m" and E: "stands_for_precomp (entryOf table i) (m n)"
  shows "stands_for_precomp (table_lookup_fixed_base table i sign) (m (signOf sign * n))"
proof -
  obtain x y where xy: "m n = (x, y)" by fastforce
  then have "m (- n) = (- x, y)" using m by (simp add: intMultiples_def)
  then show ?thesis using E eccneg_precomp_stands [of "entryOf table i" x y] by (simp add: lookup_negates signOf_def xy)
qed

text \<open>Digits as the recoding produces them.\<close>

definition digits_ok :: "u32 list \<Rightarrow> bool" where
  "digits_ok digits \<longleftrightarrow> (\<forall>n. 50 \<le> n \<and> n < 250 \<longrightarrow> digits ! n = 0 \<or> digits ! n = 1)"

lemma comb_entry:
  assumes digits: "digits_ok digits" and j: "j < 5" and t: "t < 10"
  obtains u where "u < 16" and "combIndex digits j t = 16 * j + u"
    and "signOf (digits ! (10 * j + t)) * combMultiple j u = 2 ^ (10 * j) * columnDigit digits (10 * j + t)"
proof -
  let ?n = "10 * j + t"
  obtain b0 b1 b2 b3 where b: "digits ! (50 + ?n) = b0" "digits ! (100 + ?n) = b1" "digits ! (150 + ?n) = b2" "digits ! (200 + ?n) = b3"
    by blast
  have c: "b0 = 0 \<or> b0 = 1" "b1 = 0 \<or> b1 = 1" "b2 = 0 \<or> b2 = 1" "b3 = 0 \<or> b3 = 1"
    using digits j t unfolding b [symmetric] digits_ok_def by auto
  let ?w = "push_bit 1 (push_bit 1 (push_bit 1 b3 + b2) + b1) + b0"
  have u: "unat ?w < 16" and u0: "unat ?w mod 2 = unat b0" and u1: "unat ?w div 2 mod 2 = unat b1"
    and u2: "unat ?w div 4 mod 2 = unat b2" and u3: "unat ?w div 8 mod 2 = unat b3"
    using c by (elim disjE; simp)+
  show ?thesis
  proof
    show "unat ?w < 16" by (rule u)
    show "combIndex digits j t = 16 * j + unat ?w" unfolding combIndex_def add.assoc b ..
    show "signOf (digits ! ?n) * combMultiple j (unat ?w) = 2 ^ (10 * j) * columnDigit digits ?n"
      unfolding combMultiple_def u0 u1 u2 u3 columnDigit_def b by (simp add: algebra_simps)
  qed
qed

lemma combAdd_multiple:
  assumes m: "intMultiples m" and table: "fixed_table_ok table m" and digits: "digits_ok digits"
    and j: "j < 5" and t: "t < 10" and R: "represents R (m n)"
  shows "represents (combAdd table digits t j R) (m (2 ^ (10 * j) * columnDigit digits (10 * j + t) + n))"
proof -
  obtain u where u: "u < 16" "combIndex digits j t = 16 * j + u"
    "signOf (digits ! (10 * j + t)) * combMultiple j u = 2 ^ (10 * j) * columnDigit digits (10 * j + t)"
    using comb_entry [OF digits j t] .
  have "stands_for_precomp (entryOf table (16 * j + u)) (m (combMultiple j u))"
    using table j u(1) by (simp add: fixed_table_ok_def)
  from madd_int [OF m lookup_stands [OF m this] R] show ?thesis unfolding combAdd_def u(2) u(3) [symmetric] .
qed

text \<open>What the pass \<open>t\<close> adds.\<close>

definition passSum :: "u32 list \<Rightarrow> nat \<Rightarrow> int" where
  "passSum digits t = (\<Sum>j < 5. 2 ^ (10 * j) * columnDigit digits (10 * j + t))"

lemma combPass_multiple:
  assumes m: "intMultiples m" and table: "fixed_table_ok table m" and digits: "digits_ok digits"
    and t: "t < 10" and R: "represents R (m n)"
  shows "represents (combPass table digits t R) (m (passSum digits t + 2 * n))"
proof -
  note A = combAdd_multiple [OF m table digits _ t]
  from A [of 0, OF _ A [of 1, OF _ A [of 2, OF _ A [of 3, OF _ A [of 4, OF _ double_int [OF m R]]]]]]
  show ?thesis by (simp add: combPass_def passSum_def sum.lessThan_Suc eval_nat_numeral algebra_simps)
qed

lemma fp2div1271_ring:
  assumes "reduced2 a"
  shows "fp2 (fp2div1271 a) + fp2 (fp2div1271 a) = fp2 a" and "reduced2 (fp2div1271 a)"
  using assms by (simp_all add: fp2div1271_def fp2_def reduced2_def fphalf1271_ring plus_gf2_def)

lemma halves_cancel:
  fixes h x :: gf2
  assumes "h + h = x + x"
  shows "h = x"
proof -
  have "(1 :: gf2) + 1 dvd 1" by (rule unit_double) simp
  then obtain c :: gf2 where c: "1 = (1 + 1) * c" by (rule dvdE)
  have "h = (h + h) * c" using arg_cong [OF c, of "\<lambda>u. h * u"] by (simp add: algebra_simps)
  also have "\<dots> = x" unfolding assms using arg_cong [OF c, of "\<lambda>u. x * u"] by (simp add: algebra_simps)
  finally show ?thesis .
qed

lemma combFirst_multiple:
  assumes table: "fixed_table_ok table m" and digits: "digits_ok digits" and top: "digits ! 49 = 0"
  shows "represents (combFirst table digits) (m (2 ^ 40 * columnDigit digits 49))"
proof -
  obtain u where u: "u < 16" "combIndex digits 4 9 = 16 * 4 + u"
    "signOf (digits ! (10 * 4 + 9)) * combMultiple 4 u = 2 ^ (10 * 4) * columnDigit digits (10 * 4 + 9)"
    using comb_entry [OF digits, of 4 9] by auto
  define S where "S = entryOf table (16 * 4 + u)"
  define a where "a = m (2 ^ 40 * columnDigit digits 49)"
  have "combMultiple 4 u = 2 ^ 40 * columnDigit digits 49" using u(3) top by (simp add: signOf_def)
  then have S: "stands_for_precomp S a" using table [unfolded fixed_table_ok_def, rule_format, of 4 u] u(1) by (simp add: S_def a_def)
  then have red: "reduced2 (sxy S)" "reduced2 (syx S)" and v: "fp2 (sxy S) = fst a + snd a" "fp2 (syx S) = snd a - fst a"
    by (simp_all add: stands_for_precomp_def)
  have rx: "reduced2 (fp2sub1271 (sxy S) (syx S))" and ry: "reduced2 (fp2add1271 (sxy S) (syx S))" by (simp_all add: fp2_ops red)
  have x: "fp2 (fp2div1271 (fp2sub1271 (sxy S) (syx S))) = fst a"
    by (rule halves_cancel) (simp only: fp2div1271_ring [OF rx], simp add: fp2_ops red v)
  have y: "fp2 (fp2div1271 (fp2add1271 (sxy S) (syx S))) = snd a"
    by (rule halves_cancel) (simp only: fp2div1271_ring [OF ry], simp add: fp2_ops red v)
  have one: "fp2 ((1, 0), (0, 0)) = 1" "reduced2 ((1, 0), (0, 0))" using fp2_one reduced2_one by (simp_all add: ONE2_def)
  show ?thesis
    unfolding a_def [symmetric] combFirst_def u(2) lookup_negates S_def [symmetric] Let_def
    by (simp add: represents_def stands_for_def S_def [symmetric] x y one fp2div1271_ring [OF rx] fp2div1271_ring [OF ry])
qed

lemma passes_sum:
  "(\<Sum>t < 10. 2 ^ t * passSum digits t) = (\<Sum>n < 50. 2 ^ n * columnDigit digits n)"
proof -
  have block: "(\<Sum>n \<in> {j * 10..<j * 10 + 10}. f n) = (\<Sum>t < 10. f (10 * j + t))" for f :: "nat \<Rightarrow> int" and j
    using sum.shift_bounds_nat_ivl [of f 0 "j * 10" 10] by (simp add: lessThan_atLeast0 add.commute mult.commute)
  have "(\<Sum>n < 50. 2 ^ n * columnDigit digits n) = (\<Sum>j < 5. \<Sum>n \<in> {j * 10..<j * 10 + 10}. 2 ^ n * columnDigit digits n)"
    using sum.nat_group [of "\<lambda>n. 2 ^ n * columnDigit digits n" 10 5] by simp
  also have "\<dots> = (\<Sum>j < 5. \<Sum>t < 10. 2 ^ (10 * j + t) * columnDigit digits (10 * j + t))"
    unfolding block ..
  also have "\<dots> = (\<Sum>t < 10. \<Sum>j < 5. 2 ^ (10 * j + t) * columnDigit digits (10 * j + t))" by (rule sum.swap)
  finally show ?thesis by (simp add: passSum_def sum_distrib_left power_add algebra_simps)
qed

lemma mulFixed_multiple:
  assumes m: "intMultiples m" and table: "fixed_table_ok table m"
  shows "represents (mulFixed table k) (m (int (val4 (oddScalar k))))"
proof -
  define digits where "digits = recodeFixed (oddScalar k)"
  note V = recodeFixed_val [OF oddScalar_val(1,3), of k, folded digits_def]
  have digits: "digits_ok digits" using V(3) by (simp add: digits_ok_def)
  note A = combAdd_multiple [OF m table digits]
  let ?R = "fold (combAdd table digits 9) [3, 2, 1, 0] (combFirst table digits)"
  from A [of 0 9, OF _ _ A [of 1 9, OF _ _ A [of 2 9, OF _ _ A [of 3 9, OF _ _ combFirst_multiple [OF table digits V(4)]]]]]
  have R: "represents ?R (m (passSum digits 9))"
    by (simp add: passSum_def sum.lessThan_Suc eval_nat_numeral algebra_simps)
  note P = combPass_multiple [OF m table digits]
  from P [of 0, OF _ P [of 1, OF _ P [of 2, OF _ P [of 3, OF _ P [of 4, OF _ P [of 5, OF _ P [of 6, OF _ P [of 7, OF _ P [of 8, OF _ R]]]]]]]]]
  have "represents (mulFixed table k) (m (\<Sum>t < 10. 2 ^ t * passSum digits t))"
    by (simp add: mulFixed_def digits_def [symmetric] Let_def sum.lessThan_Suc eval_nat_numeral algebra_simps)
  then show ?thesis unfolding passes_sum V(5) .
qed

section \<open>A family of multiples and its table\<close>

definition turns :: "int \<Rightarrow> gf2 \<times> gf2" where
  "turns n = quarterTurns (nat (n mod 4))"

lemma turns_cases: "turns n = (0, 1) \<and> n mod 4 = 0 \<or> turns n = (imaginary, 0) \<and> n mod 4 = 1 \<or>
  turns n = (0, - 1) \<and> n mod 4 = 2 \<or> turns n = (- imaginary, 0) \<and> n mod 4 = 3"
proof -
  have "n mod 4 = 0 \<or> n mod 4 = 1 \<or> n mod 4 = 2 \<or> n mod 4 = 3" by presburger
  then show ?thesis by (auto simp: turns_def quarterTurns_def)
qed

lemma turns_add: "turns (i + j) = quarterTurns (nat (i mod 4) + nat (j mod 4))"
proof -
  have "int ((nat (i mod 4) + nat (j mod 4)) mod 4) = (i + j) mod 4" by (simp add: zmod_int mod_simps)
  from arg_cong [OF this, of nat] have "nat ((i + j) mod 4) = (nat (i mod 4) + nat (j mod 4)) mod 4" by (simp only: nat_int)
  moreover have "quarterTurns (n mod 4) = quarterTurns n" for n by (simp add: quarterTurns_def)
  ultimately show ?thesis by (simp only: turns_def)
qed

lemma turns_multiples: "intMultiples turns"
proof -
  have sum: "edwards_sum (turns i) (turns j) (turns (i + j))" and on: "on_curve (turns i)" for i j
    using quarterTurns_multiples unfolding turns_add by (simp_all add: turns_def multiples_def)
  have k: "curve_k (turns i) (turns j) = 0" for i j
    using turns_cases [of i] turns_cases [of j] by (elim disjE conjE) (simp_all add: curve_k_def)
  have neg: "turns (- n) = (- fst (turns n), snd (turns n))" for n
  proof -
    have "(- n) mod 4 = (if n mod 4 = 0 then 0 else 4 - n mod 4)" by (simp add: zmod_zminus1_eq_if)
    then show ?thesis using turns_cases [of n] turns_cases [of "- n"] by (elim disjE conjE) simp_all
  qed
  from sum on k neg show ?thesis by (simp add: intMultiples_def)
qed

definition turnsTable :: "u64 list" where
  "turnsTable = map (\<lambda>k. (if k < 192 then [0, 0, 1, 0, 0, 0, 0xFFFFFFFFFFFFFFFE, 0x7FFFFFFFFFFFFFFF, 0, 0, 0, 0]
     else [1, 0, 0, 0, 1, 0, 0, 0, 0, 0, 0, 0]) ! (k mod 12)) [0..<960]"

lemma turnsTable_entry:
  assumes "i < 80"
  shows "entryOf turnsTable i = (if i < 16
     then \<lparr>sxy = ((0, 0), (1, 0)), syx = ((0, 0), (0xFFFFFFFFFFFFFFFE, 0x7FFFFFFFFFFFFFFF)), st2 = ((0, 0), (0, 0))\<rparr>
     else \<lparr>sxy = ((1, 0), (0, 0)), syx = ((1, 0), (0, 0)), st2 = ((0, 0), (0, 0))\<rparr>)"
proof -
  have w: "turnsTable ! (12 * i + j) = (if i < 16 then [0, 0, 1, 0, 0, 0, 0xFFFFFFFFFFFFFFFE, 0x7FFFFFFFFFFFFFFF, 0, 0, 0, 0]
      else [1, 0, 0, 0, 1, 0, 0, 0, 0, 0, 0, 0]) ! j" if "j < 12" for j
    using assms that by (simp add: turnsTable_def del: upt_rec_numeral)
  show ?thesis using w [of 0] w [of 1] w [of 2] by (simp add: entryOf_def w)
qed

lemma turnsTable_ok: "fixed_table_ok turnsTable turns"
proof -
  have one: "(1 + 2 ^ 50 * a + 2 ^ 100 * b + 2 ^ 150 * c + 2 ^ 200 * d) mod 4 = 1" for a b c d :: int
  proof -
    have "1 + 2 ^ 50 * a + 2 ^ 100 * b + 2 ^ 150 * c + 2 ^ 200 * d = 1 + 4 * (2 ^ 48 * a + 2 ^ 98 * b + 2 ^ 148 * c + 2 ^ 198 * d)"
      by simp
    then show ?thesis by (simp only: mod_mult_self2) simp
  qed
  have m: "combMultiple j u mod 4 = (if j = 0 then 1 else 0)" for j u
    by (cases j) (simp_all only: combMultiple_def one mult_0_right power_0 mult_1, simp_all add: power_add mult.assoc)
  have t: "turns (combMultiple j u) = (if j = 0 then (imaginary, 0) else (0, 1))" for j u
    by (simp add: turns_def m quarterTurns_def)
  have "fp (0xFFFFFFFFFFFFFFFE, 0x7FFFFFFFFFFFFFFF) = - 1"
    using gf_diff [of "fval (0xFFFFFFFFFFFFFFFE, 0x7FFFFFFFFFFFFFFF)" 1 0] by (simp add: fp_def fval_def)
  then show ?thesis unfolding fixed_table_ok_def t
    by (auto simp: turnsTable_entry stands_for_precomp_def reduced2_def reduced_def fval_def fp2_def fp_def imaginary_def gf2.expand)
qed

section \<open>Properties\<close>

text \<open>
  Claim C29. Fixed-base multiplication computes a multiple of the generator: with a table that holds, for each of the
  five blocks and each pattern of four bits, the multiple the comb expects, the result represents (with an
  invertible \<open>Z\<close>) the multiple by the odd scalar that the code derives from \<open>k\<close>, and that scalar is
  congruent to \<open>k\<close> modulo the order. The recoding into signs and bits, the carries, the index computation,
  the negation in the lookup and the nine doublings all enter.
\<close>

theorem mulFixed_computes_multiple:
  assumes "intMultiples m" and "fixed_table_ok table m"
  shows "represents (mulFixed table k) (m (int (val4 (oddScalar k)))) \<and> val4 (oddScalar k) mod order = val4 k mod order"
  using mulFixed_multiple [OF assms] oddScalar_val(2) by blast

theorem mulFixed_computes_multiple_witness:
  "intMultiples turns \<and> fixed_table_ok turnsTable turns \<and>
   represents (mulFixed turnsTable (3, 0, 0, 0)) (turns (int (val4 (oddScalar (3, 0, 0, 0)))))"
  using mulFixed_computes_multiple [OF turns_multiples turnsTable_ok] turns_multiples turnsTable_ok by blast

end
