(* ===== verification/Decomposition.thy ===== *)
theory Decomposition
  imports Scalars
begin

text \<open>
  The four-dimensional scalar decomposition of \<open>K12AndKeyUtil.h\<close> (\<open>decompose\<close>, modelled in \<open>Scalars\<close>): the
  code subtracts from the scalar a lattice vector that it finds by truncated products, all in 64-bit
  words that wrap. The lemmas show that the four words are the exact integer coordinates, for every
  256-bit scalar.
\<close>

section \<open>The lattice\<close>

text \<open>The eigenvalues of the two endomorphisms modulo the order, and the coordinates as integers.\<close>

definition lambdaPhi :: int where
  "lambdaPhi = 0x6d9069dc876c883c18f03c13d737624874f0b5e4daa9bcdf0e63ce8997864"

definition lambdaPsi :: int where
  "lambdaPsi = 0x18c475353519268c4c2510ab53b51ecb3688ca09ef0e885dc7f2b7cdfd2a88"

definition latticeSum :: "int \<Rightarrow> int \<Rightarrow> int \<Rightarrow> int \<Rightarrow> int" where
  "latticeSum s0 s1 s2 s3 = s0 + lambdaPhi * s1 + lambdaPsi * s2 + lambdaPhi * lambdaPsi * s3"

lemma latticeSum_linear:
  "latticeSum (a * s0 + t0) (a * s1 + t1) (a * s2 + t2) (a * s3 + t3) = a * latticeSum s0 s1 s2 s3 + latticeSum t0 t1 t2 t3"
  by (simp add: latticeSum_def algebra_simps)

text \<open>The rows of the basis and the offset are in the lattice.\<close>

lemma basis_products:
  "latticeSum (- 650487742939046294) 1397215820276968864 (- 523086274270593807) 598824378691085905 = int order * (4293323042631020919828932679862702064713667430547469612241864498972498051723670541701339422)"
  "latticeSum (- 2110318963211420372) 1 (- 1) (- 2727991412926801872) = int order * (- 19558569774361361911816935515106360991082365904171058828734593994917896859807986982749401672)"
  "latticeSum (- 1705647224544756482) (- 199320682881407569) 3336360048424633503 (- 765171327772315031) = int order * (- 5485961844549660036079535077690478430827515521538059802125432498486450376154866595995363778)"
  "latticeSum (- 1400113754146392127) (- 3540637644719456050) 471270406870313397 1789345740969872106 = int order * (12828868653830555362064830952587700854747407163689097690961993468305017288912660472013853751)"
  "latticeSum 0x72482C5251A4559C 0x59F95B0ADD276F6C 0x7DD2D17C4625FA78 0x6BC57DEF56CE8877 = int order * (55677226030496718726716410437284967953434468628862919355372685542520098592750014181733209524)"
  by (simp_all add: latticeSum_def lambdaPhi_def lambdaPsi_def order_def)

lemma basis_in_lattice:
  "int order dvd latticeSum (- 650487742939046294) 1397215820276968864 (- 523086274270593807) 598824378691085905"
  "int order dvd latticeSum (- 2110318963211420372) 1 (- 1) (- 2727991412926801872)"
  "int order dvd latticeSum (- 1705647224544756482) (- 199320682881407569) 3336360048424633503 (- 765171327772315031)"
  "int order dvd latticeSum (- 1400113754146392127) (- 3540637644719456050) 471270406870313397 1789345740969872106"
  "int order dvd latticeSum 0x72482C5251A4559C 0x59F95B0ADD276F6C 0x7DD2D17C4625FA78 0x6BC57DEF56CE8877"
  unfolding basis_products by simp_all

section \<open>The coordinates as integers\<close>

text \<open>The coordinates before the words wrap; \<open>a1\<close> to \<open>a4\<close> are the exact quotients.\<close>

definition coord0 :: "int \<Rightarrow> int \<Rightarrow> int \<Rightarrow> int \<Rightarrow> int \<Rightarrow> int" where
  "coord0 k a1 a2 a3 a4 = - 650487742939046294 * a1 - 2110318963211420372 * a2 - 1705647224544756482 * a3 -
     1400113754146392127 * a4 + 0x72482C5251A4559C + k"

definition coord1 :: "int \<Rightarrow> int \<Rightarrow> int \<Rightarrow> int \<Rightarrow> int" where
  "coord1 a1 a2 a3 a4 = 1397215820276968864 * a1 + a2 - 199320682881407569 * a3 - 3540637644719456050 * a4 + 0x59F95B0ADD276F6C"

definition coord2 :: "int \<Rightarrow> int \<Rightarrow> int \<Rightarrow> int \<Rightarrow> int" where
  "coord2 a1 a2 a3 a4 = - 523086274270593807 * a1 - a2 + 3336360048424633503 * a3 + 471270406870313397 * a4 + 0x7DD2D17C4625FA78"

definition coord3 :: "int \<Rightarrow> int \<Rightarrow> int \<Rightarrow> int \<Rightarrow> int" where
  "coord3 a1 a2 a3 a4 = 598824378691085905 * a1 - 2727991412926801872 * a2 - 765171327772315031 * a3 + 1789345740969872106 * a4 +
     0x6BC57DEF56CE8877"

lemmas coords = coord0_def coord1_def coord2_def coord3_def

lemma coords_congruent:
  "int order dvd latticeSum (coord0 k a1 a2 a3 a4) (coord1 a1 a2 a3 a4) (coord2 a1 a2 a3 a4) (coord3 a1 a2 a3 a4) - k"
proof -
  have "latticeSum (coord0 k a1 a2 a3 a4) (coord1 a1 a2 a3 a4) (coord2 a1 a2 a3 a4) (coord3 a1 a2 a3 a4) - k =
      a1 * latticeSum (- 650487742939046294) 1397215820276968864 (- 523086274270593807) 598824378691085905 +
      a2 * latticeSum (- 2110318963211420372) 1 (- 1) (- 2727991412926801872) +
      a3 * latticeSum (- 1705647224544756482) (- 199320682881407569) 3336360048424633503 (- 765171327772315031) +
      a4 * latticeSum (- 1400113754146392127) (- 3540637644719456050) 471270406870313397 1789345740969872106 +
      latticeSum 0x72482C5251A4559C 0x59F95B0ADD276F6C 0x7DD2D17C4625FA78 0x6BC57DEF56CE8877"
    unfolding latticeSum_def coords by (simp add: algebra_simps)
  then show ?thesis using basis_in_lattice by (simp only: dvd_add dvd_mult)
qed

text \<open>The quotients miss the exact fractions by less than one, so the coordinates stay small.\<close>

lemma coords_bounded:
  fixes k a1 a2 a3 a4 r1 r2 r3 r4 :: int
  assumes k: "0 \<le> k" "k < 2 ^ 256"
    and r: "0 \<le> r1" "r1 < 2 ^ 256" "0 \<le> r2" "r2 < 2 ^ 256" "0 \<le> r3" "r3 < 2 ^ 256" "0 \<le> r4" "r4 < 2 ^ 256"
    and q: "k * int (val4 ell1) = 2 ^ 256 * a1 + r1" "k * int (val4 ell2) = 2 ^ 256 * a2 + r2"
      "k * int (val4 ell3) = 2 ^ 256 * a3 + r3" "k * int (val4 ell4) = 2 ^ 256 * a4 + r4"
  shows "0 \<le> coord0 k a1 a2 a3 a4 \<and> coord0 k a1 a2 a3 a4 + 1400113754146392127 < 2 ^ 64"
    and "0 \<le> coord1 a1 a2 a3 a4 \<and> coord1 a1 a2 a3 a4 + 3540637644719456050 < 2 ^ 64"
    and "0 \<le> coord2 a1 a2 a3 a4 - 471270406870313397 \<and> coord2 a1 a2 a3 a4 < 2 ^ 64"
    and "0 \<le> coord3 a1 a2 a3 a4 - 1789345740969872106 \<and> coord3 a1 a2 a3 a4 < 2 ^ 64"
  using k r q by (simp_all add: coords ell1_def ell2_def ell3_def ell4_def)

section \<open>The words\<close>

lemma mul_truncate_of_int: "mul_truncate s e = of_int (int (val4 s * val4 e div 2 ^ 256))"
  unfolding word_unat_eq_iff mul_truncate_val of_int_of_nat_eq by (simp add: unat_of_nat)

lemma low_limb_of_int: "fst s = of_int (int (val4 s))"
proof (cases s)
  case (fields s0 s1 s2 s3)
  have "val4 s = unat s0 + 2 ^ 64 * (unat s1 + 2 ^ 64 * unat s2 + 2 ^ 128 * unat s3)" by (simp add: fields)
  then have "val4 s mod 2 ^ 64 = unat s0" using unat_u64_less [of s0] by (simp only: mod_mult_self2) simp
  moreover have "unat (of_nat (val4 s) :: u64) = val4 s mod 2 ^ 64" unfolding unat_of_nat by simp
  ultimately show ?thesis unfolding word_unat_eq_iff of_int_of_nat_eq by (simp only: fields fst_conv)
qed

lemma unat_of_int_small: "0 \<le> n \<Longrightarrow> n < 2 ^ 64 \<Longrightarrow> int (unat (of_int n :: u64)) = n"
  by (simp add: unsigned_of_int take_bit_int_eq_self)

lemma basis_words:
  "0xF6F900D81F5F5E6A = (of_int (- 650487742939046294) :: u64)" "0xE2B6A4157B033D2C = (of_int (- 2110318963211420372) :: u64)"
  "0xE85452E2DCE0FCFE = (of_int (- 1705647224544756482) :: u64)" "0xEC91CBF56EF737C1 = (of_int (- 1400113754146392127) :: u64)"
  "0x72482C5251A4559C = (of_int 0x72482C5251A4559C :: u64)"
  "0x1363E862C22A2DA0 = (of_int 1397215820276968864 :: u64)" "0x0000000000000001 = (of_int 1 :: u64)"
  "0xFD3BDEE51C7725AF = (of_int (- 199320682881407569) :: u64)" "0xCEDD20D23C1F00CE = (of_int (- 3540637644719456050) :: u64)"
  "0x59F95B0ADD276F6C = (of_int 0x59F95B0ADD276F6C :: u64)"
  "0xF8BD9FCE1337FCF1 = (of_int (- 523086274270593807) :: u64)" "0xFFFFFFFFFFFFFFFF = (of_int (- 1) :: u64)"
  "0x2E4D21C98927C49F = (of_int 3336360048424633503 :: u64)" "0x068A49F02AA8A9B5 = (of_int 471270406870313397 :: u64)"
  "0x7DD2D17C4625FA78 = (of_int 0x7DD2D17C4625FA78 :: u64)"
  "0x084F739986B9E651 = (of_int 598824378691085905 :: u64)" "0xDA243A43722E9830 = (of_int (- 2727991412926801872) :: u64)"
  "0xF56190BB3FD13269 = (of_int (- 765171327772315031) :: u64)" "0x18D5087896DE0AEA = (of_int 1789345740969872106 :: u64)"
  "0x6BC57DEF56CE8877 = (of_int 0x6BC57DEF56CE8877 :: u64)"
  by simp_all

text \<open>The words of \<open>decompose\<close> before the parity is looked at.\<close>

lemma coord_words:
  fixes n a1 a2 a3 a4 :: int
  shows "of_int a1 * 0xF6F900D81F5F5E6A + of_int a2 * 0xE2B6A4157B033D2C + of_int a3 * 0xE85452E2DCE0FCFE +
      of_int a4 * 0xEC91CBF56EF737C1 + 0x72482C5251A4559C + of_int n = (of_int (coord0 n a1 a2 a3 a4) :: u64)"
    and "of_int a1 * 0x1363E862C22A2DA0 + of_int a2 * 0x0000000000000001 + of_int a3 * 0xFD3BDEE51C7725AF +
      of_int a4 * 0xCEDD20D23C1F00CE + 0x59F95B0ADD276F6C = (of_int (coord1 a1 a2 a3 a4) :: u64)"
    and "of_int a1 * 0xF8BD9FCE1337FCF1 + of_int a2 * 0xFFFFFFFFFFFFFFFF + of_int a3 * 0x2E4D21C98927C49F +
      of_int a4 * 0x068A49F02AA8A9B5 + 0x7DD2D17C4625FA78 = (of_int (coord2 a1 a2 a3 a4) :: u64)"
    and "of_int a1 * 0x084F739986B9E651 + of_int a2 * 0xDA243A43722E9830 + of_int a3 * 0xF56190BB3FD13269 +
      of_int a4 * 0x18D5087896DE0AEA + 0x6BC57DEF56CE8877 = (of_int (coord3 a1 a2 a3 a4) :: u64)"
  unfolding basis_words of_int_mult [symmetric] of_int_add [symmetric] coords
  by (rule arg_cong [where f = of_int], simp add: algebra_simps)+

lemma decompose_words:
  fixes k :: limbs4
  defines "n \<equiv> int (val4 k)"
  defines "a1 \<equiv> int (val4 k * val4 ell1 div 2 ^ 256)" and "a2 \<equiv> int (val4 k * val4 ell2 div 2 ^ 256)"
    and "a3 \<equiv> int (val4 k * val4 ell3 div 2 ^ 256)" and "a4 \<equiv> int (val4 k * val4 ell4 div 2 ^ 256)"
  shows "decompose k = (let s0 = of_int (coord0 n a1 a2 a3 a4); s1 = of_int (coord1 a1 a2 a3 a4);
      s2 = of_int (coord2 a1 a2 a3 a4); s3 = of_int (coord3 a1 a2 a3 a4)
    in if s0 AND 1 = 0
       then (s0 - 0xEC91CBF56EF737C1, s1 - 0xCEDD20D23C1F00CE, s2 - 0x068A49F02AA8A9B5, s3 - 0x18D5087896DE0AEA)
       else (s0, s1, s2, s3))"
  unfolding decompose_def mul_truncate_of_int low_limb_of_int
    a1_def [symmetric] a2_def [symmetric] a3_def [symmetric] a4_def [symmetric] n_def [symmetric] Let_def coord_words ..

lemma decompose_exact:
  assumes "decompose k = (s0, s1, s2, s3)"
  shows "odd (unat s0)" and "int order dvd latticeSum (int (unat s0)) (int (unat s1)) (int (unat s2)) (int (unat s3)) - int (val4 k)"
proof -
  define n where "n = int (val4 k)"
  define a where "a e = int (val4 k * val4 e div 2 ^ 256)" for e
  define r where "r e = int (val4 k * val4 e mod 2 ^ 256)" for e
  define c0 where "c0 = coord0 n (a ell1) (a ell2) (a ell3) (a ell4)"
  define c1 where "c1 = coord1 (a ell1) (a ell2) (a ell3) (a ell4)"
  define c2 where "c2 = coord2 (a ell1) (a ell2) (a ell3) (a ell4)"
  define c3 where "c3 = coord3 (a ell1) (a ell2) (a ell3) (a ell4)"
  note c_defs = c0_def [symmetric] c1_def [symmetric] c2_def [symmetric] c3_def [symmetric]
  have q: "n * int (val4 e) = 2 ^ 256 * a e + r e" for e
    unfolding n_def a_def r_def of_nat_mult [symmetric] using mult_div_mod_eq [of "2 ^ 256" "val4 k * val4 e"]
    by (metis of_nat_add of_nat_mult of_nat_numeral of_nat_power)
  have r: "0 \<le> r e" "r e < 2 ^ 256" for e unfolding r_def by simp_all
  have n: "0 \<le> n" "n < 2 ^ 256" using val4_less [of k] by (simp_all add: n_def)
  note B = coords_bounded [OF n r r r r q q q q, unfolded c_defs]
  note W = decompose_words [of k, folded a_def n_def, unfolded c_defs Let_def]
  have congruent: "int order dvd latticeSum c0 c1 c2 c3 - n" unfolding c0_def c1_def c2_def c3_def by (rule coords_congruent)
  have v0: "int (unat (of_int c0 :: u64)) = c0" using B(1) by (intro unat_of_int_small) linarith+
  have "even (unat (of_int c0 :: u64)) \<longleftrightarrow> even c0" by (metis v0 even_of_nat)
  then have parity: "of_int c0 AND 1 = (0 :: u64) \<longleftrightarrow> even c0" using low_bit [of "of_int c0"] by (simp add: and.commute)
  have D: "decompose k = (if even c0
      then (of_int c0 - 0xEC91CBF56EF737C1, of_int c1 - 0xCEDD20D23C1F00CE, of_int c2 - 0x068A49F02AA8A9B5, of_int c3 - 0x18D5087896DE0AEA)
      else (of_int c0, of_int c1, of_int c2, of_int c3))" using W parity by simp
  obtain t0 t1 t2 t3 where t: "int (unat s0) = t0" "int (unat s1) = t1" "int (unat s2) = t2" "int (unat s3) = t3"
    "odd t0" "int order dvd latticeSum t0 t1 t2 t3 - n"
  proof (cases "even c0")
    case True
    have "(s0, s1, s2, s3) = (of_int (c0 + 1400113754146392127), of_int (c1 + 3540637644719456050), of_int (c2 - 471270406870313397), of_int (c3 - 1789345740969872106))"
      using assms True unfolding D basis_words of_int_diff [symmetric] by (simp only: if_True diff_minus_eq_add)
    then have "int (unat s0) = c0 + 1400113754146392127" "int (unat s1) = c1 + 3540637644719456050"
      "int (unat s2) = c2 - 471270406870313397" "int (unat s3) = c3 - 1789345740969872106"
      using B by (simp_all only: prod.inject) (intro unat_of_int_small; linarith)+
    moreover have "odd (c0 + 1400113754146392127)" using True by simp
    moreover have "latticeSum (c0 + 1400113754146392127) (c1 + 3540637644719456050) (c2 - 471270406870313397) (c3 - 1789345740969872106) - n =
        latticeSum c0 c1 c2 c3 - n - latticeSum (- 1400113754146392127) (- 3540637644719456050) 471270406870313397 1789345740969872106"
      unfolding latticeSum_def by (simp add: algebra_simps)
    ultimately show ?thesis using that dvd_diff [OF congruent basis_in_lattice(4)] by metis
  next
    case False
    then have "(s0, s1, s2, s3) = (of_int c0, of_int c1, of_int c2, of_int c3)" using assms unfolding D by simp
    then have "int (unat s0) = c0" "int (unat s1) = c1" "int (unat s2) = c2" "int (unat s3) = c3"
      using B by (simp_all only: prod.inject) (intro unat_of_int_small; linarith)+
    then show ?thesis using that False congruent by blast
  qed
  show "odd (unat s0)" using t(1,5) by (metis even_of_nat)
  show "int order dvd latticeSum (int (unat s0)) (int (unat s1)) (int (unat s2)) (int (unat s3)) - int (val4 k)"
    using t by (simp only: n_def)
qed

section \<open>Properties\<close>

text \<open>
  The scalar decomposition is exact for every 256-bit scalar: although all its arithmetic wraps at 64 bits
  and its quotients are truncated, the four words combine, with the eigenvalues of the endomorphisms, to
  the scalar modulo the order, and the first word is odd, as the sign-aligned recoding needs.
\<close>

lemma decompose_exact_odd:
  "case decompose k of (s0, s1, s2, s3) \<Rightarrow> odd (unat s0) \<and>
     latticeSum (int (unat s0)) (int (unat s1)) (int (unat s2)) (int (unat s3)) mod int order = int (val4 k) mod int order"
  using decompose_exact [of k] by (auto simp: mod_eq_dvd_iff simp del: of_nat_mod split: prod.splits)

end
