(* ===== verification/ScalarMul.thy ===== *)
theory ScalarMul
  imports FixedBase Decomposition
begin

text \<open>
  Variable-base and double scalar multiplication of \<open>K12AndKeyUtil.h\<close>: \<open>ecc_mul\<close> with the sign-aligned recoding of
  the four sub-scalars and a table of eight points, and \<open>ecc_mul_double\<close> with the interleaved recodings of
  eight sub-scalars. The lemmas show what multiple each computes, given the table of the generator and the action of the
  endomorphisms, which are shown to fix the neutral point.
\<close>

section \<open>The code\<close>

text \<open>Recodings that all return within their arrays; \<open>None\<close> otherwise.\<close>

definition recodeAll :: "nat \<Rightarrow> u64 list \<Rightarrow> int list list option" where
  "recodeAll w ss = those (map (\<lambda>s. case wNAF_recode s w of Some (Inr ds) \<Rightarrow> Some ds | _ \<Rightarrow> None) ss)"

fun limbList :: "limbs4 \<Rightarrow> u64 list" where
  "limbList (a0, a1, a2, a3) = [a0, a1, a2, a3]"

definition addDigit :: "point_extproj_precomp list \<Rightarrow> int \<Rightarrow> point_extproj \<Rightarrow> point_extproj" where
  "addDigit table d T =
     (if d < 0 then eccadd (eccneg_extproj_precomp (table ! nat ((- d) div 2))) T
      else if d > 0 then eccadd (table ! nat (d div 2)) T
      else T)"

definition maddDigit :: "u64 list \<Rightarrow> nat \<Rightarrow> int \<Rightarrow> point_extproj \<Rightarrow> point_extproj" where
  "maddDigit table base d T =
     (if d < 0 then eccmadd (eccneg_precomp (entryOf table (base + nat ((- d) div 2)))) T
      else if d > 0 then eccmadd (entryOf table (base + nat (d div 2))) T
      else T)"

definition doubleStep :: "u64 list \<Rightarrow> int list list \<Rightarrow> int list list \<Rightarrow> point_extproj_precomp list list \<Rightarrow> nat \<Rightarrow> point_extproj \<Rightarrow> point_extproj" where
  "doubleStep gTable ks ls qTables i T =
     (let T = eccdouble T;
          T = addDigit (qTables ! 0) (ls ! 0 ! i) T;
          T = addDigit (qTables ! 1) (ls ! 1 ! i) T;
          T = addDigit (qTables ! 2) (ls ! 2 ! i) T;
          T = addDigit (qTables ! 3) (ls ! 3 ! i) T;
          T = maddDigit gTable 0 (ks ! 0 ! i) T;
          T = maddDigit gTable 64 (ks ! 1 ! i) T;
          T = maddDigit gTable (2 * 64) (ks ! 2 ! i) T
      in maddDigit gTable (3 * 64) (ks ! 3 ! i) T)"

text \<open>The neutral point; the code leaves \<open>ta\<close> and \<open>tb\<close> unset, which the first doubling does not read.\<close>

definition neutralPoint :: point_extproj where
  "neutralPoint = \<lparr>px = ((0, 0), (0, 0)), py = ((1, 0), (0, 0)), pz = ((1, 0), (0, 0)), pta = ((0, 0), (0, 0)), ptb = ((0, 0), (0, 0))\<rparr>"

text \<open>The loop over the digits of both scalars, for a point and its three images; \<open>None\<close> if a recoding failed.\<close>

definition mulDouble :: "u64 list \<Rightarrow> limbs4 \<Rightarrow> limbs4 \<Rightarrow> point_extproj list \<Rightarrow> point_extproj option" where
  "mulDouble gTable k l Qs =
     (case (recodeAll 8 (limbList (decompose k)), recodeAll 4 (limbList (decompose l))) of
        (Some ks, Some ls) \<Rightarrow>
          Some (fold (doubleStep gTable ks ls (map (\<lambda>P. fst (ecc_precomp_double P)) Qs)) (rev [0..<65]) neutralPoint)
      | _ \<Rightarrow> None)"

text \<open>\<open>None\<close> when the point is refused; the recodings always succeed, as is shown below.\<close>

definition ecc_mul_double :: "limbs4 \<Rightarrow> limbs4 \<Rightarrow> point_affine \<Rightarrow> point_affine option" where
  "ecc_mul_double k l Q =
     (let Q1 = point_setup Q
      in if \<not> ecc_point_validate Q1 then None
      else let Q2 = ecc_phi Q1; Q3 = ecc_psi Q1; Q4 = ecc_psi Q2
      in map_option eccnorm (mulDouble DOUBLE_SCALAR_TABLE k l [Q1, Q2, Q3, Q4]))"

text \<open>The sign-aligned recoding of the four sub-scalars, lowest digit first, with the carries left in the last three.\<close>

fun alignedRecode :: "nat \<Rightarrow> limbs4 \<Rightarrow> (bool \<times> nat) list \<times> limbs4" where
  "alignedRecode 0 s = ([], s)"
| "alignedRecode (Suc n) (s0, s1, s2, s3) =
     (let s0 = drop_bit 1 s0;
          bit0 = s0 AND 1;
          d1 = s1 AND 1;
          s1 = drop_bit 1 s1 + ((bit0 OR d1) XOR bit0);
          d2 = s2 AND 1;
          s2 = drop_bit 1 s2 + ((bit0 OR d2) XOR bit0);
          d3 = s3 AND 1;
          s3 = drop_bit 1 s3 + ((bit0 OR d3) XOR bit0);
          (ds, s) = alignedRecode n (s0, s1, s2, s3)
      in ((bit0 \<noteq> 0, unat (d1 + push_bit 1 d2 + push_bit 2 d3)) # ds, s))"

definition mulStep :: "point_extproj_precomp list \<Rightarrow> bool \<times> nat \<Rightarrow> point_extproj \<Rightarrow> point_extproj" where
  "mulStep table d R = (let R = eccdouble R in eccadd (if fst d then table ! snd d else eccneg_extproj_precomp (table ! snd d)) R)"

text \<open>The loop, for the table of eight points and the point that the precomputation leaves.\<close>

definition mulVariable :: "point_extproj_precomp list \<Rightarrow> limbs4 \<Rightarrow> point_extproj \<Rightarrow> point_extproj" where
  "mulVariable table k R =
     (let (digits, (_, s1, s2, s3)) = alignedRecode 64 (decompose k);
          R = R2_to_R4 (table ! unat (s1 + push_bit 1 s2 + push_bit 2 s3)) R
      in fold (mulStep table) (rev digits) R)"

definition ecc_mul :: "point_affine \<Rightarrow> limbs4 \<Rightarrow> point_affine option" where
  "ecc_mul P k =
     (let R = point_setup P
      in if \<not> ecc_point_validate R then None
      else let R = cofactor_clearing R;
               (table, R) = ecc_precomp R
           in Some (eccnorm (mulVariable table k R)))"

section \<open>Precomputed points\<close>

definition represents_R2 :: "point_extproj_precomp \<Rightarrow> gf2 \<times> gf2 \<Rightarrow> bool" where
  "represents_R2 Q a \<longleftrightarrow> (\<exists>z. stands_for_R2 Q a z \<and> z dvd 1)"

lemma eccadd_core_represents:
  assumes P: "stands_for_R2 P a z" "z dvd 1" and Q: "stands_for_R3 Q b w" "w dvd 1" and sum: "edwards_sum a b c"
    and units: "1 + curve_k a b dvd 1" "1 - curve_k a b dvd 1"
  shows "represents (eccadd_core P Q) c"
proof -
  have red: "reduced2 (rz2 P)" "reduced2 (rt2 P)" "reduced2 (rz2 Q)" "reduced2 (rt2 Q)"
    and v: "fp2 (rz2 P) = z + z" "fp2 (rt2 P) = curve_d * (fst a * snd a) * (z + z)" "fp2 (rz2 Q) = w" "fp2 (rt2 Q) = fst b * snd b * w"
    using P Q by (simp_all add: stands_for_R2_def stands_for_R3_def)
  have "fp2 (pz (eccadd_core P Q)) = ((z + z) * w + curve_d * (fst a * snd a) * (z + z) * (fst b * snd b * w)) *
      ((z + z) * w - curve_d * (fst a * snd a) * (z + z) * (fst b * snd b * w))"
    by (simp only: eccadd_core_def Let_def point_extproj.simps fp2_ops red v)
  also have "\<dots> = (1 + curve_k a b) * (1 - curve_k a b) * (((z + z) * w) * ((z + z) * w))"
    by (simp add: curve_k_def algebra_simps)
  also have "\<dots> dvd 1" by (intro unit_mult unit_double P Q units)
  finally show ?thesis using eccadd_core_stands [OF P(1) Q(1) sum] by (simp add: represents_def)
qed

lemma R1_to_R2_represents: "represents P a \<Longrightarrow> represents_R2 (R1_to_R2 P) a"
  unfolding represents_def represents_R2_def by (blast intro: R1_to_R2_stands)

lemma add_core_int:
  assumes m: "intMultiples m" and Q: "represents_R2 Q (m i)" and P: "represents P (m j)"
  shows "represents (eccadd_core Q (R1_to_R3 P)) (m (i + j))"
proof -
  obtain z where z: "stands_for_R2 Q (m i) z" "z dvd 1" using Q by (auto simp: represents_R2_def)
  have w: "stands_for_R3 (R1_to_R3 P) (m j) (fp2 (pz P))" "fp2 (pz P) dvd 1" using P R1_to_R3_stands by (auto simp: represents_def)
  have "edwards_sum (m i) (m j) (m (i + j))" "1 + curve_k (m i) (m j) dvd 1" "1 - curve_k (m i) (m j) dvd 1"
    using m by (simp_all add: intMultiples_def)
  then show ?thesis by (rule eccadd_core_represents [OF z w])
qed

lemma add_int:
  "intMultiples m \<Longrightarrow> represents_R2 Q (m i) \<Longrightarrow> represents P (m j) \<Longrightarrow> represents (eccadd Q P) (m (i + j))"
  unfolding eccadd_def by (rule add_core_int)

lemma neg_int:
  assumes m: "intMultiples m" and Q: "represents_R2 Q (m i)"
  shows "represents_R2 (eccneg_extproj_precomp Q) (m (- i))"
proof -
  obtain x y where xy: "m i = (x, y)" by fastforce
  then have "m (- i) = (- x, y)" using m by (simp add: intMultiples_def)
  then show ?thesis using Q eccneg_stands [of Q x y] by (auto simp: represents_R2_def xy)
qed

lemma neg_precomp_int:
  assumes m: "intMultiples m" and Q: "stands_for_precomp Q (m i)"
  shows "stands_for_precomp (eccneg_precomp Q) (m (- i))"
proof -
  obtain x y where xy: "m i = (x, y)" by fastforce
  then have "m (- i) = (- x, y)" using m by (simp add: intMultiples_def)
  then show ?thesis using Q eccneg_precomp_stands [of Q x y] unfolding xy by simp
qed

lemma neutral_int:
  assumes m: "intMultiples m"
  shows "m 0 = (0, 1)" and "represents neutralPoint (m 0)"
proof -
  obtain x y where xy: "m 0 = (x, y)" by fastforce
  have "m (- 0) = (- x, y)" using m xy unfolding intMultiples_def by (metis fst_conv snd_conv)
  then have "x = - x" using xy by simp
  then have "x + x = 0 + 0" by (metis add.right_neutral add.right_inverse)
  then have x: "x = 0" by (rule halves_cancel)
  have "on_curve (m 0)" and "edwards_sum (m 0) (m 0) (m (0 + 0))" using m unfolding intMultiples_def by blast+
  then have "y * y = 1" "y = y * y" by (simp_all add: xy x on_curve_def edwards_sum_def)
  then show zero: "m 0 = (0, 1)" using xy x by simp
  have "fp2 ((0, 0), (0, 0)) = 0" "reduced2 ((0, 0), (0, 0))" "fp2 ((1, 0), (0, 0)) = 1" "reduced2 ((1, 0), (0, 0))"
    using fp2_one reduced2_one by (simp_all add: ONE2_def fp2_def fp_def zero_gf2_def reduced2_def reduced_def fval_def)
  then show "represents neutralPoint (m 0)"
    unfolding zero by (simp add: represents_def stands_for_def neutralPoint_def)
qed

section \<open>The double multiplication\<close>

text \<open>Four points of a table that hold the odd multiples of a point.\<close>

lemma precomp_double_int:
  assumes m: "intMultiples m" and P: "represents P (m q)" and u: "u < 4"
  shows "represents_R2 (fst (ecc_precomp_double P) ! u) (m ((2 * int u + 1) * q))"
proof -
  note D = double_int [OF m P] and T0 = R1_to_R2_represents [OF P]
  note A = add_core_int [OF m _ D, THEN R1_to_R2_represents]
  note T1 = A [OF T0] note T2 = A [OF T1] note T3 = A [OF T2]
  have "u = 0 \<or> u = 1 \<or> u = 2 \<or> u = 3" using u by linarith
  then show ?thesis
  proof (elim disjE)
    assume "u = 1"
    then show ?thesis using T1 by (simp add: ecc_precomp_double_def Let_def algebra_simps)
  next
    assume "u = 2"
    then show ?thesis using T2 by (simp add: ecc_precomp_double_def Let_def algebra_simps)
  next
    assume "u = 3"
    then show ?thesis using T3 by (simp add: ecc_precomp_double_def Let_def algebra_simps)
  qed (use T0 in \<open>simp add: ecc_precomp_double_def Let_def\<close>)
qed

lemma odd_index:
  fixes d :: int
  assumes "odd d" and "0 < d" and "d < 2 * int n"
  shows "nat (d div 2) < n" and "2 * int (nat (d div 2)) + 1 = d"
proof -
  obtain e where e: "d = 2 * e + 1" using assms(1) by (rule oddE)
  then show "nat (d div 2) < n" "2 * int (nat (d div 2)) + 1 = d" using assms by simp_all
qed

lemma addDigit_int:
  assumes m: "intMultiples m" and d: "d = 0 \<or> odd d \<and> \<bar>d\<bar> < 8" and T: "represents T (m n)"
    and table: "\<And>u. u < 4 \<Longrightarrow> represents_R2 (table ! u) (m ((2 * int u + 1) * q))"
  shows "represents (addDigit table d T) (m (d * q + n))"
proof -
  consider "d = 0" | "d < 0" "odd (- d)" "- d < 2 * int 4" | "0 < d" "odd d" "d < 2 * int 4" using d by fastforce
  then show ?thesis
  proof cases
    case 2
    have pos: "0 < - d" using 2 by simp
    note I = odd_index [OF 2(2) pos 2(3)]
    have "represents_R2 (table ! nat ((- d) div 2)) (m (- d * q))" using table [OF I(1)] unfolding I(2) .
    from add_int [OF m neg_int [OF m this] T] show ?thesis using 2 by (simp add: addDigit_def)
  next
    case 3
    note I = odd_index [OF 3(2,1,3)]
    have "represents_R2 (table ! nat (d div 2)) (m (d * q))" using table [OF I(1)] unfolding I(2) .
    from add_int [OF m this T] show ?thesis using 3 by (simp add: addDigit_def)
  qed (use T in \<open>simp add: addDigit_def\<close>)
qed

lemma maddDigit_int:
  assumes m: "intMultiples m" and d: "d = 0 \<or> odd d \<and> \<bar>d\<bar> < 128" and T: "represents T (m n)"
    and table: "\<And>u. u < 64 \<Longrightarrow> stands_for_precomp (entryOf table (base + u)) (m ((2 * int u + 1) * g))"
  shows "represents (maddDigit table base d T) (m (d * g + n))"
proof -
  consider "d = 0" | "d < 0" "odd (- d)" "- d < 2 * int 64" | "0 < d" "odd d" "d < 2 * int 64" using d by fastforce
  then show ?thesis
  proof cases
    case 2
    have pos: "0 < - d" using 2 by simp
    note I = odd_index [OF 2(2) pos 2(3)]
    have "stands_for_precomp (entryOf table (base + nat ((- d) div 2))) (m (- d * g))" using table [OF I(1)] unfolding I(2) .
    from madd_int [OF m neg_precomp_int [OF m this] T] show ?thesis using 2 by (simp add: maddDigit_def)
  next
    case 3
    note I = odd_index [OF 3(2,1,3)]
    have "stands_for_precomp (entryOf table (base + nat (d div 2))) (m (d * g))" using table [OF I(1)] unfolding I(2) .
    from madd_int [OF m this T] show ?thesis using 3 by (simp add: maddDigit_def)
  qed (use T in \<open>simp add: maddDigit_def\<close>)
qed

text \<open>A loop that counts down keeps an invariant that mentions the index.\<close>

lemma fold_down:
  assumes "I n R" and "\<And>i R. i < n \<Longrightarrow> I (Suc i) R \<Longrightarrow> I i (f i R)"
  shows "I 0 (fold f (rev [0..<n]) R)"
  using assms by (induction n arbitrary: R) simp_all

lemma digits_val_drop: "i < length ds \<Longrightarrow> digits_val (drop i ds) = ds ! i + 2 * digits_val (drop (Suc i) ds)"
  by (simp add: Cons_nth_drop_Suc [symmetric])

lemma non_adjacent_digit: "non_adjacent w ds \<Longrightarrow> i < length ds \<Longrightarrow> ds ! i = 0 \<or> odd (ds ! i) \<and> \<bar>ds ! i\<bar> < 2 ^ (w - 1)"
proof (induction ds arbitrary: i)
  case (Cons d ds)
  then show ?case by (cases i) auto
qed simp

text \<open>The recodings of four words.\<close>

definition recodedAll :: "nat \<Rightarrow> u64 list \<Rightarrow> int list list \<Rightarrow> bool" where
  "recodedAll w ss dss \<longleftrightarrow> list_all2 (\<lambda>s ds. length ds = 65 \<and> digits_val ds = int (unat s) \<and> non_adjacent w ds) ss dss"

lemma recodeAll_ok:
  assumes w: "2 \<le> w" "w \<le> 32"
  obtains dss where "recodeAll w ss = Some dss" and "recodedAll w ss dss"
proof -
  have "\<exists>dss. recodeAll w ss = Some dss \<and> recodedAll w ss dss"
  proof (induction ss)
    case (Cons s ss)
    obtain ds where "wNAF_recode s w = Some (Inr ds)" "length ds = 65" "digits_val ds = int (unat s)" "non_adjacent w ds"
      using wNAF_recode_exact [OF w] by blast
    then show ?case using Cons by (auto simp: recodeAll_def recodedAll_def)
  qed (simp add: recodeAll_def recodedAll_def)
  then show thesis using that by blast
qed

text \<open>The factors of the four sub-scalars.\<close>

definition eigen :: "nat \<Rightarrow> int" where
  "eigen j = [1, lambdaPhi, lambdaPsi, lambdaPhi * lambdaPsi] ! j"

definition double_table_ok :: "u64 list \<Rightarrow> (int \<Rightarrow> gf2 \<times> gf2) \<Rightarrow> bool" where
  "double_table_ok table m \<longleftrightarrow>
     (\<forall>j < 4. \<forall>u < 64. stands_for_precomp (entryOf table (64 * j + u)) (m ((2 * int u + 1) * eigen j)))"

text \<open>What the digits from index \<open>i\<close> up add to.\<close>

definition suffixSum :: "(nat \<Rightarrow> int) \<Rightarrow> int list list \<Rightarrow> nat \<Rightarrow> int" where
  "suffixSum c dss i = (\<Sum>j < 4. digits_val (drop i (dss ! j)) * c j)"

lemma four_sum: "(\<Sum>j < (4 :: nat). f j) = f 0 + f 1 + f 2 + (f 3 :: int)"
  by (simp add: eval_nat_numeral)

definition digits_fit :: "nat \<Rightarrow> int list list \<Rightarrow> bool" where
  "digits_fit w dss \<longleftrightarrow> (\<forall>j < 4. length (dss ! j) = 65 \<and> non_adjacent w (dss ! j))"

lemma digits_fit_digit:
  assumes "digits_fit w dss" and "j < 4" and "i < 65"
  shows "dss ! j ! i = 0 \<or> odd (dss ! j ! i) \<and> \<bar>dss ! j ! i\<bar> < 2 ^ (w - 1)"
    and "digits_val (drop i (dss ! j)) = dss ! j ! i + 2 * digits_val (drop (Suc i) (dss ! j))"
  using assms non_adjacent_digit [of w "dss ! j" i] digits_val_drop [of i "dss ! j"] by (simp_all add: digits_fit_def)

lemma doubleStep_int:
  assumes m: "intMultiples m" and ks: "digits_fit 8 ks" and ls: "digits_fit 4 ls" and i: "i < 65"
    and g: "double_table_ok gTable m"
    and q: "\<And>j u. j < 4 \<Longrightarrow> u < 4 \<Longrightarrow> represents_R2 (qTables ! j ! u) (m ((2 * int u + 1) * q j))"
    and T: "represents T (m (suffixSum eigen ks (Suc i) + suffixSum q ls (Suc i)))"
  shows "represents (doubleStep gTable ks ls qTables i T) (m (suffixSum eigen ks i + suffixSum q ls i))"
proof -
  have A: "represents (addDigit (qTables ! j) (ls ! j ! i) R) (m (ls ! j ! i * q j + n))"
    if "j < 4" "represents R (m n)" for j R n
    by (rule addDigit_int [OF m _ that(2) q [OF that(1)]]) (use digits_fit_digit(1) [OF ls that(1) i] in simp)
  have M: "represents (maddDigit gTable (64 * j) (ks ! j ! i) R) (m (ks ! j ! i * eigen j + n))"
    if "j < 4" "represents R (m n)" for j R n
    by (rule maddDigit_int [OF m _ that(2)]) (use digits_fit_digit(1) [OF ks that(1) i] g that(1) in \<open>simp_all add: double_table_ok_def\<close>)
  have T7: "represents (doubleStep gTable ks ls qTables i T)
      (m (ks ! 3 ! i * eigen 3 + (ks ! 2 ! i * eigen 2 + (ks ! 1 ! i * eigen 1 + (ks ! 0 ! i * eigen 0 +
        (ls ! 3 ! i * q 3 + (ls ! 2 ! i * q 2 + (ls ! 1 ! i * q 1 + (ls ! 0 ! i * q 0 +
          2 * (suffixSum eigen ks (Suc i) + suffixSum q ls (Suc i)))))))))))"
    using M [of 3, OF _ M [of 2, OF _ M [of 1, OF _ M [of 0, OF _ A [of 3, OF _ A [of 2, OF _ A [of 1, OF _ A [of 0, OF _ double_int [OF m T]]]]]]]]]
    by (simp add: doubleStep_def Let_def)
  have S: "suffixSum c dss i = dss ! 0 ! i * c 0 + dss ! 1 ! i * c 1 + dss ! 2 ! i * c 2 + dss ! 3 ! i * c 3 + 2 * suffixSum c dss (Suc i)"
    if "digits_fit w dss" for c w dss
    using digits_fit_digit(2) [OF that _ i] by (simp add: suffixSum_def four_sum algebra_simps)
  have "suffixSum eigen ks i + suffixSum q ls i = ks ! 3 ! i * eigen 3 + (ks ! 2 ! i * eigen 2 + (ks ! 1 ! i * eigen 1 + (ks ! 0 ! i * eigen 0 +
        (ls ! 3 ! i * q 3 + (ls ! 2 ! i * q 2 + (ls ! 1 ! i * q 1 + (ls ! 0 ! i * q 0 +
          2 * (suffixSum eigen ks (Suc i) + suffixSum q ls (Suc i)))))))))"
    unfolding S [OF ks, of eigen] S [OF ls, of q] by (simp add: algebra_simps)
  then show ?thesis using T7 by simp
qed

lemma recoded_four:
  assumes "2 \<le> w" and "w \<le> 32"
  obtains dss where "recodeAll w (limbList (decompose k)) = Some dss" and "digits_fit w dss"
    and "\<And>q. suffixSum (\<lambda>j. eigen j * q) dss 0 mod int order = int (val4 k) * q mod int order"
proof -
  obtain s0 s1 s2 s3 where d: "decompose k = (s0, s1, s2, s3)" by (metis prod_cases4)
  obtain dss where r: "recodeAll w [s0, s1, s2, s3] = Some dss" "recodedAll w [s0, s1, s2, s3] dss"
    by (rule recodeAll_ok [OF assms])
  obtain d0 d1 d2 d3 where ds: "dss = [d0, d1, d2, d3]" using r(2) unfolding recodedAll_def by (auto simp: list_all2_Cons1)
  have v: "length d0 = 65" "length d1 = 65" "length d2 = 65" "length d3 = 65"
    "digits_val d0 = int (unat s0)" "digits_val d1 = int (unat s1)" "digits_val d2 = int (unat s2)" "digits_val d3 = int (unat s3)"
    "non_adjacent w d0" "non_adjacent w d1" "non_adjacent w d2" "non_adjacent w d3"
    using r(2) unfolding recodedAll_def ds by (simp_all only: list_all2_Cons)
  have fit: "digits_fit w dss"
    unfolding digits_fit_def
  proof (intro allI impI)
    fix j :: nat
    assume "j < 4"
    then have "j = 0 \<or> j = 1 \<or> j = 2 \<or> j = 3" by linarith
    then show "length (dss ! j) = 65 \<and> non_adjacent w (dss ! j)" using v by (auto simp: ds)
  qed
  have sum: "suffixSum (\<lambda>j. eigen j * q) dss 0 mod int order = int (val4 k) * q mod int order" for q
  proof -
    have "suffixSum (\<lambda>j. eigen j * q) dss 0 = latticeSum (int (unat s0)) (int (unat s1)) (int (unat s2)) (int (unat s3)) * q"
      unfolding suffixSum_def four_sum ds latticeSum_def by (simp only: eigen_def nth_Cons_0 nth_Cons_numeral drop_0 v) (simp add: v eigen_def algebra_simps)
    moreover have "int order dvd latticeSum (int (unat s0)) (int (unat s1)) (int (unat s2)) (int (unat s3)) - int (val4 k)"
      by (rule decompose_exact [OF d])
    ultimately show ?thesis unfolding mod_eq_dvd_iff by (metis dvd_mult2 left_diff_distrib)
  qed
  show thesis using that [of dss] r(1) fit sum by (simp add: d)
qed

lemma mulDouble_multiple:
  assumes m: "intMultiples m" and g: "double_table_ok gTable m"
    and Q: "length Qs = 4" "\<And>j. j < 4 \<Longrightarrow> represents (Qs ! j) (m (eigen j * q))"
  shows "\<exists>T n. mulDouble gTable k l Qs = Some T \<and> represents T (m n) \<and>
    n mod int order = (int (val4 k) + int (val4 l) * q) mod int order"
proof -
  obtain ks where ks: "recodeAll 8 (limbList (decompose k)) = Some ks" "digits_fit 8 ks"
    "\<And>q. suffixSum (\<lambda>j. eigen j * q) ks 0 mod int order = int (val4 k) * q mod int order"
    by (rule recoded_four [of 8 k]) simp_all
  obtain ls where ls: "recodeAll 4 (limbList (decompose l)) = Some ls" "digits_fit 4 ls"
    "\<And>q. suffixSum (\<lambda>j. eigen j * q) ls 0 mod int order = int (val4 l) * q mod int order"
    by (rule recoded_four [of 4 l]) simp_all
  let ?q = "\<lambda>j. eigen j * q" and ?qTables = "map (\<lambda>P. fst (ecc_precomp_double P)) Qs"
  have tables: "represents_R2 (?qTables ! j ! u) (m ((2 * int u + 1) * ?q j))" if "j < 4" "u < 4" for j u
    using precomp_double_int [OF m Q(2) [OF that(1)] that(2)] that(1) Q(1) by simp
  let ?T = "fold (doubleStep gTable ks ls ?qTables) (rev [0..<65]) neutralPoint"
  have end_sum: "suffixSum c dss 65 = 0" if "digits_fit w dss" for c w dss
    using that by (simp add: suffixSum_def digits_fit_def)
  have "represents ?T (m (suffixSum eigen ks 0 + suffixSum ?q ls 0))"
  proof (rule fold_down [where I = "\<lambda>i R. represents R (m (suffixSum eigen ks i + suffixSum ?q ls i))"])
    show "represents neutralPoint (m (suffixSum eigen ks 65 + suffixSum ?q ls 65))"
      using neutral_int(2) [OF m] end_sum [OF ks(2)] end_sum [OF ls(2)] by simp
    show "represents (doubleStep gTable ks ls ?qTables i R) (m (suffixSum eigen ks i + suffixSum ?q ls i))"
      if "i < 65" "represents R (m (suffixSum eigen ks (Suc i) + suffixSum ?q ls (Suc i)))" for i R
      by (rule doubleStep_int [OF m ks(2) ls(2) that(1) g tables that(2)])
  qed
  moreover have "(suffixSum eigen ks 0 + suffixSum ?q ls 0) mod int order = (int (val4 k) + int (val4 l) * q) mod int order"
    using mod_add_cong [OF ks(3) [of 1] ls(3) [of q]] by (simp only: mult_1_right)
  moreover have "mulDouble gTable k l Qs = Some ?T" by (simp only: mulDouble_def ks(1) ls(1) prod.case option.case)
  ultimately show ?thesis by blast
qed

section \<open>The variable-base multiplication\<close>

text \<open>The multiple that entry \<open>u\<close> of a table of eight holds, and the value of a list of aligned digits.\<close>

definition eightMultiple :: "nat \<Rightarrow> int" where
  "eightMultiple u = latticeSum 1 (int (u mod 2)) (int (u div 2 mod 2)) (int (u div 4 mod 2))"

definition eight_table_ok :: "point_extproj_precomp list \<Rightarrow> (int \<Rightarrow> gf2 \<times> gf2) \<Rightarrow> int \<Rightarrow> bool" where
  "eight_table_ok table m q \<longleftrightarrow> (\<forall>u < 8. represents_R2 (table ! u) (m (eightMultiple u * q)))"

primrec alignedSum :: "(nat \<Rightarrow> int) \<Rightarrow> (bool \<times> nat) list \<Rightarrow> int" where
  "alignedSum c [] = 0"
| "alignedSum c (d # ds) = (if fst d then 1 else - 1) * c (snd d) + 2 * alignedSum c ds"

lemma alignedSum_eight:
  "alignedSum eightMultiple ds = latticeSum (alignedSum (\<lambda>_. 1) ds) (alignedSum (\<lambda>u. int (u mod 2)) ds)
     (alignedSum (\<lambda>u. int (u div 2 mod 2)) ds) (alignedSum (\<lambda>u. int (u div 4 mod 2)) ds)"
  by (induction ds) (simp_all add: eightMultiple_def latticeSum_def algebra_simps)

lemma int_halves: "int n = 2 * int (n div 2) + of_bool (odd n)"
  by (cases "even n") (auto elim!: evenE oddE)

text \<open>One step of the recoding of a sub-scalar.\<close>

lemma aligned_step:
  fixes s b :: u64
  assumes b: "b = 0 \<or> b = 1" and s: "unat s \<le> 2 ^ n" and n: "n \<le> 64"
  defines "t \<equiv> drop_bit 1 s + ((b OR (s AND 1)) XOR b)"
  shows "int (unat s) = (if b \<noteq> 0 then 1 else - 1) * int (unat (s AND 1)) + 2 * int (unat t)"
    and "0 < n \<Longrightarrow> unat t \<le> 2 ^ (n - 1)"
proof -
  have bit: "s AND 1 = of_bool (odd (unat s))" using low_bit [of s] by (simp add: and.commute)
  have half: "unat (drop_bit 1 s) = unat s div 2" by (simp add: unat_drop)
  have t: "unat t = unat s div 2 + of_bool (odd (unat s) \<and> b = 0)"
  proof (cases "odd (unat s) \<and> b = 0")
    case True
    then have "t = drop_bit 1 s + 1" by (simp add: t_def bit)
    moreover have "unat (drop_bit 1 s + 1) = unat (drop_bit 1 s) + 1"
      using unat_u64_less [of s] half by (intro unat_add_lem [THEN iffD1, THEN trans]) simp_all
    ultimately have "unat t = unat s div 2 + 1" by (simp only: half)
    then show ?thesis using True by simp
  next
    case False
    then have "t = drop_bit 1 s" using b by (auto simp: t_def bit)
    then have "unat t = unat s div 2" by (simp only: half)
    then show ?thesis using False by simp
  qed
  show "int (unat s) = (if b \<noteq> 0 then 1 else - 1) * int (unat (s AND 1)) + 2 * int (unat t)"
    using int_halves [of "unat s"] unfolding t bit by auto
  assume "0 < n"
  then have "unat s \<le> 2 * 2 ^ (n - 1)" using s by (simp flip: power_Suc)
  then show "unat t \<le> 2 ^ (n - 1)" unfolding t by (cases "even (unat s)") (auto elim!: evenE oddE)
qed

lemma alignedRecode_val:
  assumes "alignedRecode n (s0, s1, s2, s3) = (ds, (t0, t1, t2, t3))" and "unat s1 \<le> 2 ^ n" and "unat s2 \<le> 2 ^ n" and "unat s3 \<le> 2 ^ n"
    and "n \<le> 64"
  shows "length ds = n \<and> (\<forall>d \<in> set ds. snd d < 8) \<and> unat t1 \<le> 1 \<and> unat t2 \<le> 1 \<and> unat t3 \<le> 1 \<and>
    alignedSum (\<lambda>_. 1) ds = 2 * int (unat s0 div 2 mod 2 ^ n) - (2 ^ n - 1) \<and>
    int (unat s1) = alignedSum (\<lambda>u. int (u mod 2)) ds + 2 ^ n * int (unat t1) \<and>
    int (unat s2) = alignedSum (\<lambda>u. int (u div 2 mod 2)) ds + 2 ^ n * int (unat t2) \<and>
    int (unat s3) = alignedSum (\<lambda>u. int (u div 4 mod 2)) ds + 2 ^ n * int (unat t3)"
  using assms
proof (induction n arbitrary: s0 s1 s2 s3 ds)
  case (Suc n)
  define b where "b = drop_bit 1 s0 AND 1"
  define r where "r s = drop_bit 1 s + ((b OR (s AND 1)) XOR b)" for s
  define u where "u = unat ((s1 AND 1) + push_bit 1 (s2 AND 1) + push_bit 2 (s3 AND 1))"
  have bit: "s AND 1 = of_bool (odd (unat s))" for s :: u64 using low_bit [of s] by (simp add: and.commute)
  have half: "unat (drop_bit 1 s0) = unat s0 div 2" by (simp add: unat_drop)
  have b: "b = 0 \<or> b = 1" and b_odd: "b \<noteq> 0 \<longleftrightarrow> odd (unat s0 div 2)" unfolding b_def bit half by auto
  have u: "u < 8" "int (u mod 2) = int (unat (s1 AND 1))" "int (u div 2 mod 2) = int (unat (s2 AND 1))" "int (u div 4 mod 2) = int (unat (s3 AND 1))"
    unfolding u_def bit by (cases "odd (unat s1)"; cases "odd (unat s2)"; cases "odd (unat s3)"; simp)+
  obtain es where es: "alignedRecode n (drop_bit 1 s0, r s1, r s2, r s3) = (es, (t0, t1, t2, t3))" and ds: "ds = (b \<noteq> 0, u) # es"
    using Suc.prems(1) unfolding alignedRecode.simps Let_def b_def [symmetric] r_def [symmetric] u_def [symmetric]
    by (auto split: prod.splits)
  note S = aligned_step [OF b _ Suc.prems(5), folded r_def]
  note S1 = S [OF Suc.prems(2)] and S2 = S [OF Suc.prems(3)] and S3 = S [OF Suc.prems(4)]
  have IH: "length es = n \<and> (\<forall>d \<in> set es. snd d < 8) \<and> unat t1 \<le> 1 \<and> unat t2 \<le> 1 \<and> unat t3 \<le> 1 \<and>
    alignedSum (\<lambda>_. 1) es = 2 * int (unat (drop_bit 1 s0) div 2 mod 2 ^ n) - (2 ^ n - 1) \<and>
    int (unat (r s1)) = alignedSum (\<lambda>u. int (u mod 2)) es + 2 ^ n * int (unat t1) \<and>
    int (unat (r s2)) = alignedSum (\<lambda>u. int (u div 2 mod 2)) es + 2 ^ n * int (unat t2) \<and>
    int (unat (r s3)) = alignedSum (\<lambda>u. int (u div 4 mod 2)) es + 2 ^ n * int (unat t3)"
    by (rule Suc.IH [OF es]) (use S1(2) S2(2) S3(2) Suc.prems(5) in simp_all)
  have "unat s0 div 2 mod 2 ^ Suc n = 2 * (unat s0 div 2 div 2 mod 2 ^ n) + unat s0 div 2 mod 2"
    by (simp add: mod_mult2_eq)
  moreover have "unat s0 div 2 mod 2 = of_bool (b \<noteq> 0)" unfolding b_odd by (simp add: mod2_eq_if)
  ultimately have "int (unat s0 div 2 mod 2 ^ Suc n) = 2 * int (unat s0 div 2 div 2 mod 2 ^ n) + of_bool (b \<noteq> 0)"
    by (simp only: of_nat_add of_nat_mult of_nat_numeral of_nat_of_bool)
  then have "alignedSum (\<lambda>_. 1) ds = 2 * int (unat s0 div 2 mod 2 ^ Suc n) - (2 ^ Suc n - 1)"
    using IH unfolding ds half by (cases "b = 0") simp_all
  moreover have "int (unat s1) = alignedSum (\<lambda>u. int (u mod 2)) ds + 2 ^ Suc n * int (unat t1)"
    "int (unat s2) = alignedSum (\<lambda>u. int (u div 2 mod 2)) ds + 2 ^ Suc n * int (unat t2)"
    "int (unat s3) = alignedSum (\<lambda>u. int (u div 4 mod 2)) ds + 2 ^ Suc n * int (unat t3)"
    using IH unfolding ds alignedSum.simps snd_conv fst_conv u S1(1) S2(1) S3(1) by (simp_all add: algebra_simps)
  ultimately show ?case using IH u(1) by (simp add: ds)
qed auto

lemma R2_to_R4_represents: "represents_R2 Q a \<Longrightarrow> represents_proj (R2_to_R4 Q P) a"
  unfolding represents_R2_def
proof (elim exE conjE)
  fix z
  assume Q: "stands_for_R2 Q a z" and z: "z dvd 1"
  have "(fst a + snd a) * z - (snd a - fst a) * z = fst a * (z + z)" "(fst a + snd a) * z + (snd a - fst a) * z = snd a * (z + z)"
    by (simp_all add: algebra_simps)
  then show "represents_proj (R2_to_R4 Q P) a"
    using Q unit_double [OF z] by (simp add: represents_proj_def stands_proj_def stands_for_R2_def R2_to_R4_def fp2_ops)
qed

lemma mulStep_int:
  assumes m: "intMultiples m" and table: "eight_table_ok table m q" and d: "snd d < 8" and R: "represents_proj R (m n)"
  shows "represents (mulStep table d R) (m ((if fst d then 1 else - 1) * eightMultiple (snd d) * q + 2 * n))"
proof -
  have T: "represents_R2 (table ! snd d) (m (eightMultiple (snd d) * q))" using table d by (simp add: eight_table_ok_def)
  note D = double_proj_int [OF m R]
  show ?thesis
    using add_int [OF m T D] add_int [OF m neg_int [OF m T] D] by (cases "fst d") (simp_all add: mulStep_def Let_def)
qed

lemma mulSteps_int:
  assumes m: "intMultiples m" and table: "eight_table_ok table m q" and R: "represents_proj R (m (n * q))"
  shows "\<forall>d \<in> set ds. snd d < 8 \<Longrightarrow> represents_proj (fold (mulStep table) (rev ds) R) (m ((alignedSum eightMultiple ds + 2 ^ length ds * n) * q))"
    and "\<forall>d \<in> set ds. snd d < 8 \<Longrightarrow> ds \<noteq> [] \<Longrightarrow> represents (fold (mulStep table) (rev ds) R) (m ((alignedSum eightMultiple ds + 2 ^ length ds * n) * q))"
proof (induction ds)
  case (Cons d ds)
  have step: "represents (fold (mulStep table) (rev (d # ds)) R) (m ((alignedSum eightMultiple (d # ds) + 2 ^ length (d # ds) * n) * q))"
    if "\<forall>d \<in> set (d # ds). snd d < 8"
  proof -
    have "(if fst d then 1 else - 1) * eightMultiple (snd d) * q + 2 * ((alignedSum eightMultiple ds + 2 ^ length ds * n) * q) =
        (alignedSum eightMultiple (d # ds) + 2 ^ length (d # ds) * n) * q" by (simp add: algebra_simps)
    then show ?thesis using mulStep_int [OF m table, of d, OF _ Cons.IH(1)] that by simp
  qed
  {
    case 1
    then show ?case using step represents_imp_proj by blast
  next
    case 2
    then show ?case using step by blast
  }
qed (use R in simp_all)

lemma mulVariable_multiple:
  assumes m: "intMultiples m" and table: "eight_table_ok table m q"
  shows "\<exists>n. represents (mulVariable table k R) (m n) \<and> n mod int order = int (val4 k) * q mod int order"
proof -
  obtain s0 s1 s2 s3 where s: "decompose k = (s0, s1, s2, s3)" by (metis prod_cases4)
  obtain ds t0 t1 t2 t3 where r: "alignedRecode 64 (s0, s1, s2, s3) = (ds, (t0, t1, t2, t3))" by (metis prod_cases4 surj_pair)
  note V = alignedRecode_val [OF r less_imp_le less_imp_le less_imp_le, OF unat_u64_less unat_u64_less unat_u64_less]
  define u where "u = unat (t1 + push_bit 1 t2 + push_bit 2 t3)"
  have small: "t = 0 \<or> t = 1" if "unat t \<le> 1" for t :: u64
    using that unfolding word_unat_eq_iff by (simp add: le_Suc_eq)
  then have "(t1 = 0 \<or> t1 = 1) \<and> (t2 = 0 \<or> t2 = 1) \<and> (t3 = 0 \<or> t3 = 1)" using V by simp
  then have u: "u < 8" "u mod 2 = unat t1" "u div 2 mod 2 = unat t2" "u div 4 mod 2 = unat t3" by (auto simp: u_def)
  have s0: "int (unat s0) = alignedSum (\<lambda>_. 1) ds + 2 ^ 64"
  proof -
    have "unat s0 div 2 mod 2 ^ 64 = unat s0 div 2" using unat_u64_less [of s0] by simp
    then show ?thesis using V int_halves [of "unat s0"] decompose_exact(1) [OF s] by simp
  qed
  have total: "alignedSum eightMultiple ds + 2 ^ 64 * eightMultiple u =
      latticeSum (int (unat s0)) (int (unat s1)) (int (unat s2)) (int (unat s3))"
  proof -
    have "int (unat s1) = alignedSum (\<lambda>u. int (u mod 2)) ds + 2 ^ 64 * int (unat t1)"
      "int (unat s2) = alignedSum (\<lambda>u. int (u div 2 mod 2)) ds + 2 ^ 64 * int (unat t2)"
      "int (unat s3) = alignedSum (\<lambda>u. int (u div 4 mod 2)) ds + 2 ^ 64 * int (unat t3)" using V by blast+
    then show ?thesis unfolding alignedSum_eight eightMultiple_def u s0 by (simp only: latticeSum_def) (simp add: algebra_simps)
  qed
  have "represents_proj (R2_to_R4 (table ! u) R) (m (eightMultiple u * q))"
    using R2_to_R4_represents table u(1) by (simp add: eight_table_ok_def)
  moreover have "length ds = 64" "\<forall>d \<in> set ds. snd d < 8" "ds \<noteq> []" using V by auto
  ultimately have "represents (fold (mulStep table) (rev ds) (R2_to_R4 (table ! u) R)) (m ((alignedSum eightMultiple ds + 2 ^ 64 * eightMultiple u) * q))"
    using mulSteps_int(2) [OF m table, of "R2_to_R4 (table ! u) R" "eightMultiple u" ds] by simp
  then have "represents (mulVariable table k R) (m (latticeSum (int (unat s0)) (int (unat s1)) (int (unat s2)) (int (unat s3)) * q))"
    unfolding total by (simp only: mulVariable_def s r Let_def u_def prod.case)
  moreover have "latticeSum (int (unat s0)) (int (unat s1)) (int (unat s2)) (int (unat s3)) * q mod int order = int (val4 k) * q mod int order"
    unfolding mod_eq_dvd_iff using decompose_exact(2) [OF s] by (metis dvd_mult2 left_diff_distrib)
  ultimately show ?thesis by blast
qed

text \<open>The table of \<open>ecc_precomp\<close>, where the endomorphisms multiply by their eigenvalues.\<close>

lemma ecc_precomp_int:
  assumes m: "intMultiples m" and P: "represents P (m q)" and phi: "represents (ecc_phi P) (m (lambdaPhi * q))"
    and psi: "represents (ecc_psi P) (m (lambdaPsi * q))" and both: "represents (ecc_psi (ecc_phi P)) (m (lambdaPhi * lambdaPsi * q))"
  shows "eight_table_ok (fst (ecc_precomp P)) m q"
  unfolding eight_table_ok_def
proof (intro allI impI)
  fix u :: nat
  assume "u < 8"
  then have u: "u = 0 \<or> u = 1 \<or> u = 2 \<or> u = 3 \<or> u = 4 \<or> u = 5 \<or> u = 6 \<or> u = 7" by linarith
  note A = add_core_int [OF m, THEN R1_to_R2_represents]
  note T0 = R1_to_R2_represents [OF P] note T1 = A [OF T0 phi] note T2 = A [OF T0 psi] note T3 = A [OF T1 psi]
  note T4 = A [OF T0 both] note T5 = A [OF T1 both] note T6 = A [OF T2 both] note T7 = A [OF T3 both]
  from u show "represents_R2 (fst (ecc_precomp P) ! u) (m (eightMultiple u * q))"
    using T0 T1 T2 T3 T4 T5 T6 T7
    by (elim disjE) (simp_all add: ecc_precomp_def Let_def eightMultiple_def latticeSum_def algebra_simps)
qed

lemma cofactor_clearing_int:
  assumes m: "intMultiples m" and P: "represents P (m q)"
  shows "represents (cofactor_clearing P) (m (392 * q))"
proof -
  note D = double_int [OF m] and A = add_int [OF m R1_to_R2_represents [OF P]]
  have "represents (eccadd (R1_to_R2 P) (eccdouble P)) (m (q + 2 * q))" by (rule A [OF D [OF P]])
  from A [OF D [OF D [OF D [OF D [OF this]]]]]
  have "represents (eccadd (R1_to_R2 P) (eccdouble (eccdouble (eccdouble (eccdouble (eccadd (R1_to_R2 P) (eccdouble P))))))) (m (49 * q))"
    by simp
  from D [OF D [OF D [OF this]]] show ?thesis by (simp add: cofactor_clearing_def Let_def)
qed

lemma point_setup_represents:
  "reduced2 (ax P) \<Longrightarrow> reduced2 (ay P) \<Longrightarrow> represents (point_setup P) (fp2 (ax P), fp2 (ay P))"
  using point_setup_stands [of P] fp2_one by (simp add: represents_def point_setup_def)

section \<open>The endomorphisms at the neutral point\<close>

definition gconj :: "gf2 \<Rightarrow> gf2" where
  "gconj x = Gf2 (re x) (- im x)"

lemma gconj_ring: "gconj (x * y) = gconj x * gconj y" "gconj 0 = 0" "gconj 1 = 1"
  by (simp_all add: gconj_def gf2.expand)

lemma gconj_unit: "x dvd 1 \<Longrightarrow> gconj x dvd 1"
  by (metis dvd_def gconj_ring(1,3))

lemma fpconj_val: "reduced2 a \<Longrightarrow> reduced2 (fpconj a)" "reduced2 a \<Longrightarrow> fp2 (fpconj a) = gconj (fp2 a)"
  by (simp_all add: fpconj_def reduced2_def fp2_def gconj_def field_ops)

lemmas endomorphism_constants = ctau1_def ctaudual1_def cphi0_def cphi1_def cphi2_def cphi3_def cphi4_def cphi5_def cphi6_def
  cphi7_def cphi8_def cphi9_def cpsi1_def cpsi2_def cpsi3_def cpsi4_def

lemma constants_reduced:
  "reduced2 ctau1" "reduced2 ctaudual1" "reduced2 cphi0" "reduced2 cphi1" "reduced2 cphi2" "reduced2 cphi3" "reduced2 cphi4"
  "reduced2 cphi5" "reduced2 cphi6" "reduced2 cphi7" "reduced2 cphi8" "reduced2 cphi9"
  "reduced2 cpsi1" "reduced2 cpsi2" "reduced2 cpsi3" "reduced2 cpsi4"
  by (simp_all add: endomorphism_constants reduced2_def reduced_def fval_def)

text \<open>Constants as pairs of integers, to compute with them.\<close>

definition gfPair :: "int \<Rightarrow> int \<Rightarrow> gf2" where
  "gfPair a b = Gf2 (of_int a) (of_int b)"

lemma gf_int_eq:
  fixes x y :: int
  assumes "(x - y) mod (2 ^ 127 - 1) = 0"
  shows "of_int x = (of_int y :: gf)"
proof -
  obtain k where k: "x = y + (2 ^ 127 - 1) * k" using assms by (metis mod_0_imp_dvd dvd_def add.commute diff_add_cancel)
  have "(of_nat (2 ^ 127 - 1) :: gf) = of_nat 0" unfolding gf_eq_iff by (simp only: mod_self mod_0)
  then have "(of_int (int (2 ^ 127 - 1)) :: gf) = 0" unfolding of_int_of_nat_eq using semiring_1_class.of_nat_0 [where ?'a = gf] by (rule trans)
  moreover have "int (2 ^ 127 - 1) = 2 ^ 127 - 1" by simp
  ultimately have "of_int (2 ^ 127 - 1) = (0 :: gf)" by (simp only:)
  then show ?thesis unfolding k by (simp only: of_int_add of_int_mult mult_zero_left add_0_right)
qed

lemma gfPair_ring:
  "gfPair a b * gfPair c d = gfPair (a * c - b * d) (a * d + b * c)" "gfPair a b + gfPair c d = gfPair (a + c) (b + d)"
  "gfPair a b - gfPair c d = gfPair (a - c) (b - d)" "- gfPair a b = gfPair (- a) (- b)" "1 = gfPair 1 0"
  by (simp_all add: gfPair_def gf2.expand)

lemma gfPair_eq: "(a - c) mod (2 ^ 127 - 1) = 0 \<Longrightarrow> (b - d) mod (2 ^ 127 - 1) = 0 \<Longrightarrow> gfPair a b = gfPair c d"
  by (simp only: gfPair_def gf2.inject gf_int_eq)

lemma fp2_pair: "fp2 ((a, b), (c, d)) = gfPair (uint a + 2 ^ 64 * uint b) (uint c + 2 ^ 64 * uint d)"
  by (simp add: fp2_def fp_def fval_def gfPair_def)

lemma phi_neutral_constants:
  "(1 + fp2 cphi6 + fp2 cphi7) * fp2 cphi5 = 1 + fp2 cphi8 + fp2 cphi9"
  "1 + fp2 cphi8 + fp2 cphi9 dvd 1" "1 + fp2 cphi4 + fp2 cphi3 dvd 1" "1 + fp2 cphi4 - fp2 cphi3 dvd 1"
proof -
  show "(1 + fp2 cphi6 + fp2 cphi7) * fp2 cphi5 = 1 + fp2 cphi8 + fp2 cphi9"
    unfolding endomorphism_constants fp2_pair gfPair_ring by (rule gfPair_eq) simp_all
  have "(1 + fp2 cphi8 + fp2 cphi9) * gfPair 170141183460469231501103002794514710553 123821425347060494905657982021225425872 = 1"
    unfolding endomorphism_constants fp2_pair gfPair_ring by (rule gfPair_eq) simp_all
  then show "1 + fp2 cphi8 + fp2 cphi9 dvd 1" by (metis dvd_triv_left)
  have "(1 + fp2 cphi4 + fp2 cphi3) * gfPair 85070591730234615865843651857942052864 33878984808339367052403057031803249246 = 1"
    unfolding endomorphism_constants fp2_pair gfPair_ring by (rule gfPair_eq) simp_all
  then show "1 + fp2 cphi4 + fp2 cphi3 dvd 1" by (metis dvd_triv_left)
  have "(1 + fp2 cphi4 - fp2 cphi3) * gfPair 85070591730234615884290395931651604481 116627361181471622466084991926980110509 = 1"
    unfolding endomorphism_constants fp2_pair gfPair_ring by (rule gfPair_eq) simp_all
  then show "1 + fp2 cphi4 - fp2 cphi3 dvd 1" by (metis dvd_triv_left)
qed

lemma psi_neutral_constants: "fp2 cpsi3 = - fp2 cpsi4" "fp2 cpsi2 dvd 1" "fp2 cpsi4 dvd 1"
proof -
  show "fp2 cpsi3 = - fp2 cpsi4" unfolding endomorphism_constants fp2_pair gfPair_ring by (rule gfPair_eq) simp_all
  have "fp2 cpsi2 * gfPair 170141183460469227525829654910106337602 137083759440177715049851009143131547129 = 1" unfolding endomorphism_constants fp2_pair gfPair_ring by (rule gfPair_eq) simp_all
  then show "fp2 cpsi2 dvd 1" by (metis dvd_triv_left)
  have "fp2 cpsi4 * gfPair 170141183460469231621006839273626796040 49615650983565284830950896420241471514 = 1" unfolding endomorphism_constants fp2_pair gfPair_ring by (rule gfPair_eq) simp_all
  then show "fp2 cpsi4 dvd 1" by (metis dvd_triv_left)
qed

text \<open>The endomorphisms fix the neutral point.\<close>

lemma tau_neutral: "represents_proj P (0, 1) \<Longrightarrow> represents_proj (ecc_tau P) (0, 1)"
  by (auto simp: represents_proj_def stands_proj_def ecc_tau_def Let_def fp2_ops power2_eq_square constants_reduced intro!: unit_mult)

lemma tau_dual_neutral: "represents_proj P (0, 1) \<Longrightarrow> represents (ecc_tau_dual P) (0, 1)"
  by (auto simp: represents_proj_def represents_def stands_for_def stands_proj_def ecc_tau_dual_def Let_def fp2_ops power2_eq_square
      constants_reduced intro!: unit_mult)

lemma delpsidel_neutral:
  assumes "represents_proj P (0, 1)"
  shows "represents_proj (ecc_delpsidel P) (0, 1)"
  using assms psi_neutral_constants
  by (auto simp: represents_proj_def stands_proj_def ecc_delpsidel_def Let_def fp2_ops power2_eq_square constants_reduced
      fpconj_val gconj_ring gconj_unit intro!: unit_mult)

lemma delphidel_neutral:
  assumes P: "represents_proj P (0, 1)"
  shows "represents_proj (ecc_delphidel P) (0, 1)"
proof -
  define w where "w = fp2 (pz P)"
  have v: "reduced2 (px P)" "reduced2 (py P)" "reduced2 (pz P)" "fp2 (px P) = 0" "fp2 (py P) = w" "fp2 (pz P) = w" "w dvd 1"
    using P by (simp_all add: represents_proj_def stands_proj_def w_def)
  define A B where "A = (1 + fp2 cphi4 + fp2 cphi3) * (1 + fp2 cphi4 - fp2 cphi3) * (w * w * (w * w) * w)"
    and "B = (1 + fp2 cphi8 + fp2 cphi9) * (w * w * (w * w) * w)"
  note ops = ecc_delphidel_def Let_def fp2_ops power2_eq_square constants_reduced fpconj_val v
  have z: "fp2 (pz (ecc_delphidel P)) = gconj (A * B)"
    by (simp add: ops) (simp add: A_def B_def algebra_simps)
  have "fp2 (py (ecc_delphidel P)) =
      gconj ((1 + fp2 cphi6 + fp2 cphi7) * fp2 cphi5 * (w * w * (w * w) * w) * A)"
    by (simp add: ops) (simp add: A_def algebra_simps)
  then have y: "fp2 (py (ecc_delphidel P)) = gconj (A * B)"
    unfolding phi_neutral_constants(1) B_def by (simp add: mult.commute)
  have x: "fp2 (px (ecc_delphidel P)) = 0" by (simp add: ops gconj_ring)
  have "A * B dvd 1" unfolding A_def B_def by (intro unit_mult phi_neutral_constants v)
  then have "gconj (A * B) dvd 1" by (rule gconj_unit)
  moreover have "reduced2 (px (ecc_delphidel P))" "reduced2 (py (ecc_delphidel P))" "reduced2 (pz (ecc_delphidel P))"
    by (simp_all add: ops)
  ultimately show ?thesis using x y z by (simp add: represents_proj_def stands_proj_def)
qed

lemma endomorphisms_fix_neutral:
  assumes "represents P (0, 1)"
  shows "represents (ecc_phi P) (0, 1)" and "represents (ecc_psi P) (0, 1)"
proof -
  note tau = tau_neutral [OF represents_imp_proj [OF assms]]
  show "represents (ecc_phi P) (0, 1)" unfolding ecc_phi_def by (rule tau_dual_neutral [OF delphidel_neutral [OF tau]])
  show "represents (ecc_psi P) (0, 1)" unfolding ecc_psi_def by (rule tau_dual_neutral [OF delpsidel_neutral [OF tau]])
qed

section \<open>Digits in plain chars\<close>

text \<open>
  The digits are kept in arrays of plain \<open>char\<close>. Where that type is unsigned, as on aarch64, a negative
  digit reads back as 256 more, so it is taken for a positive one and its index leaves the table.
\<close>

definition charRead :: "bool \<Rightarrow> int \<Rightarrow> int" where
  "charRead signedChar d = (if signedChar then d else d mod 256)"

lemma unsigned_char_leaves_table:
  "- 8 < d \<Longrightarrow> d < 0 \<Longrightarrow> 0 < charRead False d \<and> 4 \<le> nat (charRead False d div 2)"
  "- 128 < d \<Longrightarrow> d < 0 \<Longrightarrow> 0 < charRead False d \<and> 64 \<le> nat (charRead False d div 2)"
proof -
  have c: "charRead False d = d + 256" if "- 128 < d" "d < 0"
    using that mod_pos_pos_trivial [of "d + 256" 256] by (simp add: charRead_def)
  show "- 8 < d \<Longrightarrow> d < 0 \<Longrightarrow> 0 < charRead False d \<and> 4 \<le> nat (charRead False d div 2)"
    and "- 128 < d \<Longrightarrow> d < 0 \<Longrightarrow> 0 < charRead False d \<and> 64 \<le> nat (charRead False d div 2)"
    using c by linarith+
qed

section \<open>Tables for the points of order four\<close>

lemma eigen_mod_four: "eigen 0 mod 4 = 1" "eigen 1 mod 4 = 0" "eigen 2 mod 4 = 0" "eigen 3 mod 4 = 0"
  by (simp_all add: eigen_def lambdaPhi_def lambdaPsi_def)

lemma turns_mod: "turns (n mod 4) = turns n"
  by (simp add: turns_def)

lemma turns_values: "n mod 4 = 0 \<Longrightarrow> turns n = (0, 1)" "n mod 4 = 1 \<Longrightarrow> turns n = (imaginary, 0)" "n mod 4 = 3 \<Longrightarrow> turns n = (- imaginary, 0)"
  by (simp_all add: turns_def quarterTurns_def)

definition doubleTurnsTable :: "u64 list" where
  "doubleTurnsTable = map (\<lambda>k. (if 768 \<le> k then [1, 0, 0, 0, 1, 0, 0, 0, 0, 0, 0, 0]
     else if even (k div 12) then [0, 0, 1, 0, 0, 0, 0xFFFFFFFFFFFFFFFE, 0x7FFFFFFFFFFFFFFF, 0, 0, 0, 0]
     else [0, 0, 0xFFFFFFFFFFFFFFFE, 0x7FFFFFFFFFFFFFFF, 0, 0, 1, 0, 0, 0, 0, 0]) ! (k mod 12)) [0..<3072]"

lemma doubleTurnsTable_entry:
  assumes "i < 256"
  shows "entryOf doubleTurnsTable i = (if 64 \<le> i then \<lparr>sxy = ((1, 0), (0, 0)), syx = ((1, 0), (0, 0)), st2 = ((0, 0), (0, 0))\<rparr>
     else if even i then \<lparr>sxy = ((0, 0), (1, 0)), syx = ((0, 0), (0xFFFFFFFFFFFFFFFE, 0x7FFFFFFFFFFFFFFF)), st2 = ((0, 0), (0, 0))\<rparr>
     else \<lparr>sxy = ((0, 0), (0xFFFFFFFFFFFFFFFE, 0x7FFFFFFFFFFFFFFF)), syx = ((0, 0), (1, 0)), st2 = ((0, 0), (0, 0))\<rparr>)"
proof -
  have w: "doubleTurnsTable ! (12 * i + j) = (if 64 \<le> i then [1, 0, 0, 0, 1, 0, 0, 0, 0, 0, 0, 0]
      else if even i then [0, 0, 1, 0, 0, 0, 0xFFFFFFFFFFFFFFFE, 0x7FFFFFFFFFFFFFFF, 0, 0, 0, 0]
      else [0, 0, 0xFFFFFFFFFFFFFFFE, 0x7FFFFFFFFFFFFFFF, 0, 0, 1, 0, 0, 0, 0, 0]) ! j" if "j < 12" for j
    using assms that by (simp add: doubleTurnsTable_def del: upt_rec_numeral)
  show ?thesis using w [of 0] w [of 1] w [of 2] by (simp add: entryOf_def w)
qed

lemma minus_one_limbs: "fp (0xFFFFFFFFFFFFFFFE, 0x7FFFFFFFFFFFFFFF) = - 1"
  using gf_diff [of "fval (0xFFFFFFFFFFFFFFFE, 0x7FFFFFFFFFFFFFFF)" 1 0] by (simp add: fp_def fval_def)

lemma doubleTurnsTable_ok: "double_table_ok doubleTurnsTable turns"
  unfolding double_table_ok_def
proof (intro allI impI)
  fix j u :: nat
  assume j: "j < 4" and u: "u < 64"
  have v: "turns ((2 * int u + 1) * eigen j) = (if j \<noteq> 0 then (0, 1) else if even u then (imaginary, 0) else (- imaginary, 0))"
  proof (cases "j = 0")
    case True
    have "(2 * int u + 1) * eigen j mod 4 = (2 * int u + 1) mod 4" by (simp add: True eigen_def)
    also have "\<dots> = (if even u then 1 else 3)" by (cases "even u") (auto elim!: evenE oddE)
    finally show ?thesis using True turns_values by simp
  next
    case False
    then have "j = 1 \<or> j = 2 \<or> j = 3" using j by linarith
    then have "eigen j mod 4 = 0" using eigen_mod_four by auto
    then have "(2 * int u + 1) * eigen j mod 4 = 0" by (simp add: mod_eq_0_iff_dvd)
    then show ?thesis using False turns_values by simp
  qed
  have e: "even (64 * j + u) \<longleftrightarrow> even u" "64 \<le> 64 * j + u \<longleftrightarrow> j \<noteq> 0" using u by auto
  show "stands_for_precomp (entryOf doubleTurnsTable (64 * j + u)) (turns ((2 * int u + 1) * eigen j))"
    unfolding v using j u by (simp add: doubleTurnsTable_entry e)
      (auto simp: stands_for_precomp_def reduced2_def reduced_def fval_def fp2_def fp_def imaginary_def gf2.expand minus_one_limbs [unfolded fp_def fval_def, simplified])
qed

lemma demo_represents: "represents (demoPoint ((0, 0), (1, 0)) ((0, 0), (0, 0))) (turns 1)"
  using demoPoint_stands fp2_one by (simp add: represents_def turns_values demoPoint_def point_setup_def)

section \<open>Properties\<close>

text \<open>
  Claim C30. Double scalar multiplication is right: with a table that holds the odd multiples of the generator and of its
  three images, and for a point \<open>Q\<close> and its images under the endomorphisms, the loop over the eight recoded
  sub-scalars always returns a point, and it represents the multiple \<open>k + l q\<close> modulo the order when \<open>Q\<close>
  represents the multiple \<open>q\<close>.
\<close>

theorem mulDouble_computes_sum:
  assumes "intMultiples m" and "double_table_ok gTable m"
    and "length Qs = 4" and "\<forall>j < 4. represents (Qs ! j) (m (eigen j * q))"
  shows "\<exists>T n. mulDouble gTable k l Qs = Some T \<and> represents T (m n) \<and>
    n mod int order = (int (val4 k) + int (val4 l) * q) mod int order"
  using mulDouble_multiple [OF assms(1-3)] assms(4) by blast

theorem mulDouble_computes_sum_witness:
  "\<exists>T n. mulDouble doubleTurnsTable (5, 0, 0, 0) (7, 0, 0, 0) [demoPoint ((0, 0), (1, 0)) ((0, 0), (0, 0)), neutralPoint, neutralPoint, neutralPoint] = Some T \<and>
     represents T (turns n) \<and> n mod int order = (int (val4 (5, 0, 0, 0)) + int (val4 (7, 0, 0, 0)) * 1) mod int order"
proof (rule mulDouble_computes_sum [OF turns_multiples doubleTurnsTable_ok])
  have n: "represents neutralPoint (turns n)" if "n mod 4 = 0" for n
    using neutral_int(2) [OF turns_multiples] turns_values(1) [OF that] turns_values(1) [of 0] by simp
  show "\<forall>j < 4. represents ([demoPoint ((0, 0), (1, 0)) ((0, 0), (0, 0)), neutralPoint, neutralPoint, neutralPoint] ! j) (turns (eigen j * 1))"
  proof (intro allI impI)
    fix j :: nat
    assume "j < 4"
    then have "j = 0 \<or> j = 1 \<or> j = 2 \<or> j = 3" by linarith
    then show "represents ([demoPoint ((0, 0), (1, 0)) ((0, 0), (0, 0)), neutralPoint, neutralPoint, neutralPoint] ! j) (turns (eigen j * 1))"
      using n eigen_mod_four demo_represents by (elim disjE) (simp_all add: eigen_def)
  qed
qed simp

text \<open>
  Claim C31. Variable-base multiplication \<open>ecc_mul\<close> clears the cofactor first, so it computes the multiple of \<open>P\<close> by
  392 times \<open>k\<close>, modulo the order in \<open>k\<close>: a point that is not validated is refused; otherwise the point it normalises represents,
  with an invertible \<open>Z\<close>, a multiple \<open>n\<close> congruent to \<open>k * 392 q\<close> when \<open>P\<close> is the multiple \<open>q\<close>. Set-up, the clearing,
  the eight points of \<open>ecc_precomp\<close>, decomposition, recoding with its last carries and the loop enter. Assumed is
  that on the cleared point the two endomorphisms multiply by their eigenvalues.
\<close>

theorem ecc_mul_computes_multiple:
  assumes "intMultiples m" and "reduced2 (ax P)" and "reduced2 (ay P)" and "(fp2 (ax P), fp2 (ay P)) = m q"
    and "R = cofactor_clearing (point_setup P)"
    and "represents (ecc_phi R) (m (lambdaPhi * (392 * q)))" and "represents (ecc_psi R) (m (lambdaPsi * (392 * q)))"
    and "represents (ecc_psi (ecc_phi R)) (m (lambdaPhi * lambdaPsi * (392 * q)))"
  shows "if ecc_point_validate (point_setup P)
    then \<exists>T n. ecc_mul P k = Some (eccnorm T) \<and> represents T (m n) \<and> n mod int order = int (val4 k) * (392 * q) mod int order
    else ecc_mul P k = None"
proof -
  have R: "represents R (m (392 * q))"
    unfolding assms(5) using point_setup_represents [OF assms(2,3)] assms(4) by (intro cofactor_clearing_int [OF assms(1)]) simp
  obtain n where "represents (mulVariable (fst (ecc_precomp R)) k (snd (ecc_precomp R))) (m n)"
    "n mod int order = int (val4 k) * (392 * q) mod int order"
    using mulVariable_multiple [OF assms(1) ecc_precomp_int [OF assms(1) R assms(6-8)]] by blast
  then show ?thesis unfolding assms(5) by (auto simp: ecc_mul_def Let_def case_prod_unfold)
qed

theorem ecc_mul_computes_multiple_witness:
  "\<exists>T n. ecc_mul \<lparr>ax = ((0, 0), (1, 0)), ay = ((0, 0), (0, 0))\<rparr> (9, 0, 0, 1) = Some (eccnorm T) \<and> represents T (turns n) \<and>
     n mod int order = int (val4 (9, 0, 0, 1)) * (392 * 1) mod int order"
proof -
  let ?P = "\<lparr>ax = ((0, 0), (1, 0)), ay = ((0, 0), (0, 0))\<rparr> :: point_affine"
  have P: "reduced2 (ax ?P)" "reduced2 (ay ?P)" by (simp_all add: reduced2_def reduced_def fval_def)
  have pt: "(fp2 (ax ?P), fp2 (ay ?P)) = turns 1"
    using turns_values(2) [of 1] by (simp add: fp2_def fp_def fval_def imaginary_def zero_gf2_def)
  have zero: "turns n = (0, 1)" if "n mod 4 = 0" for n using turns_values(1) [OF that] .
  have R: "represents (cofactor_clearing (point_setup ?P)) (0, 1)"
    using cofactor_clearing_int [OF turns_multiples, of "point_setup ?P" 1] point_setup_represents [OF P] pt zero [of 392] by simp
  note fixed = endomorphisms_fix_neutral [OF R] endomorphisms_fix_neutral(2) [OF endomorphisms_fix_neutral(1) [OF R]]
  have limbs: "fpsub1271 (0, 0) (1, 0) = (0xFFFFFFFFFFFFFFFE, 0x7FFFFFFFFFFFFFFF)"
    "fpmul1271 (1, 0) (0xFFFFFFFFFFFFFFFE, 0x7FFFFFFFFFFFFFFF) = (0xFFFFFFFFFFFFFFFE, 0x7FFFFFFFFFFFFFFF)"
    "fpsub1271 (0, 0) (0xFFFFFFFFFFFFFFFE, 0x7FFFFFFFFFFFFFFF) = (1, 0)" by (simp_all add: limb_code minus_one_u64)
  have "ecc_point_validate (point_setup ?P)"
    by (simp add: ecc_point_validate_def point_setup_def Let_def fp2sqr1271_def fp2sub1271_def fp2mul1271_def fp2add1271_def
        fpmul1271_zero limb_facts limbs limbs_vanish_def ONE2_def)
  with ecc_mul_computes_multiple [OF turns_multiples P pt refl, of "(9, 0, 0, 1)"] fixed show ?thesis
    by (simp add: zero lambdaPhi_def lambdaPsi_def)
qed

end
