(* ===== verification/Identity.thy ===== *)
theory Identity
  imports Kangaroo
begin

text \<open>
  Identities and seeds (\<open>K12AndKeyUtil.h\<close>): the 60-letter form of a public key or transaction digest,
  14 letters for each 64-bit fragment and 4 letters of checksum, its parser and its check, and the
  derivation of a subseed and private key from a seed. Buffers are lists of bytes or characters; a C
  string is the list of its characters and must hold the 60 characters the code reads.
\<close>

section \<open>From a key to an identity\<close>

text \<open>The loop that writes letters: the least significant digit to base 26 comes first.\<close>

fun fragmentChars :: "nat \<Rightarrow> nat \<Rightarrow> 'a::len word \<Rightarrow> string" where
  "fragmentChars 0 base f = []"
| "fragmentChars (Suc j) base f = char_of (unat (f mod 26) + base) # fragmentChars j base (f div 26)"

definition letterBase :: "bool \<Rightarrow> nat" where
  "letterBase isLowerCase = (if isLowerCase then of_char CHR ''a'' else of_char CHR ''A'')"

text \<open>Three bytes of the checksum are written; of the 32-bit variable only 18 bits are used.\<close>

definition identityBytesChecksum :: "u8 list \<Rightarrow> u32" where
  "identityBytesChecksum publicKey = load_le (KangarooTwelve publicKey 3 @ [0]) AND 0x3FFFF"

definition publicKeyFragment :: "u8 list \<Rightarrow> nat \<Rightarrow> u64" where
  "publicKeyFragment publicKey i = load_le (take 8 (drop (push_bit 3 i) publicKey))"

definition getIdentityFromPublicKey :: "u8 list \<Rightarrow> bool \<Rightarrow> string" where
  "getIdentityFromPublicKey pubkey isLowerCase =
     (let publicKey = take 32 pubkey
      in concat (map (\<lambda>i. fragmentChars 14 (letterBase isLowerCase) (publicKeyFragment publicKey i)) [0..<4]) @
         fragmentChars 4 (letterBase isLowerCase) (identityBytesChecksum publicKey))"

text \<open>The variant that returns a \<open>std::string\<close>, built from the NUL-terminated buffer of 64 characters.\<close>

definition getIdentity :: "u8 list \<Rightarrow> bool \<Rightarrow> string" where
  "getIdentity pubkey isLowerCase =
     (let publicKey = take 32 pubkey;
          identity = concat (map (\<lambda>i. fragmentChars 14 (letterBase isLowerCase) (publicKeyFragment publicKey i)) [0..<4]) @
            fragmentChars 4 (letterBase isLowerCase) (identityBytesChecksum publicKey) @ replicate 4 (char_of (0::nat))
      in takeWhile (\<lambda>c. c \<noteq> char_of (0::nat)) identity)"

definition getTxHashFromDigest :: "u8 list \<Rightarrow> string" where
  "getTxHashFromDigest digest = getIdentityFromPublicKey digest True"

definition getQubicHash :: "u8 list \<Rightarrow> bool \<Rightarrow> string" where
  "getQubicHash input toLowerCap = getIdentityFromPublicKey (KangarooTwelve input 32) toLowerCap"

section \<open>From an identity to a key\<close>

text \<open>
  The inner loop runs down from the last letter; \<open>None\<close> is the early return. A character from 128 on is
  negative in the source and above \<open>'Z'\<close> here, and refused in both.
\<close>

fun parseLetters :: "string \<Rightarrow> u64 \<Rightarrow> u64 option" where
  "parseLetters [] acc = Some acc"
| "parseLetters (c # cs) acc =
     (if (of_char c :: nat) < of_char CHR ''A'' \<or> (of_char c :: nat) > of_char CHR ''Z'' then None
      else parseLetters cs (acc * 26 + of_nat (of_char c - of_char CHR ''A'')))"

fun parseFragments :: "nat list \<Rightarrow> string \<Rightarrow> u8 list option" where
  "parseFragments [] identity = Some []"
| "parseFragments (i # is) identity =
     (case parseLetters (rev (take 14 (drop (i * 14) identity))) 0 of None \<Rightarrow> None
      | Some f \<Rightarrow> map_option (\<lambda>bs. store_le f @ bs) (parseFragments is identity))"

text \<open>The output buffer is left as it was when a character is no capital letter.\<close>

definition getPublicKeyFromIdentity :: "string \<Rightarrow> u8 list \<Rightarrow> u8 list" where
  "getPublicKeyFromIdentity identity publicKey =
     (case parseFragments [0..<4] identity of None \<Rightarrow> publicKey | Some publicKeyBuffer \<Rightarrow> publicKeyBuffer)"

fun checksumMatches :: "u32 \<Rightarrow> string \<Rightarrow> bool" where
  "checksumMatches c [] = True"
| "checksumMatches c (x # xs) = (if unat (c mod 26) + of_char CHR ''A'' \<noteq> of_char x then False else checksumMatches (c div 26) xs)"

definition checkSumIdentity :: "string \<Rightarrow> bool" where
  "checkSumIdentity identity =
     (case parseFragments [0..<4] identity of None \<Rightarrow> False
      | Some publicKeyBuffer \<Rightarrow> checksumMatches (identityBytesChecksum publicKeyBuffer) (take 4 (drop 56 identity)))"

section \<open>From a seed to a private key\<close>

fun seedLetters :: "nat \<Rightarrow> u8 list \<Rightarrow> u8 list option" where
  "seedLetters 0 seed = Some []"
| "seedLetters (Suc n) seed =
     (if hd seed < of_nat (of_char CHR ''a'') \<or> hd seed > of_nat (of_char CHR ''z'') then None
      else map_option (\<lambda>bs. (hd seed - of_nat (of_char CHR ''a'')) # bs) (seedLetters n (tl seed)))"

definition getSubseedFromSeed :: "u8 list \<Rightarrow> u8 list option" where
  "getSubseedFromSeed seed = map_option (\<lambda>seedBytes. KangarooTwelve seedBytes 32) (seedLetters 55 seed)"

definition getPrivateKeyFromSubSeed :: "u8 list \<Rightarrow> u8 list" where
  "getPrivateKeyFromSubSeed seed = KangarooTwelve seed 32"

section \<open>Letters as numbers\<close>

definition capital :: "char \<Rightarrow> bool" where
  "capital c \<longleftrightarrow> 65 \<le> (of_char c :: nat) \<and> (of_char c :: nat) \<le> 90"

fun lettersValue :: "string \<Rightarrow> nat" where
  "lettersValue [] = 0"
| "lettersValue (c # cs) = (of_char c - 65) + 26 * lettersValue cs"

lemma capital_char_of: "d < 26 \<Longrightarrow> capital (char_of (d + 65 :: nat))"
  by (simp add: capital_def of_char_of)

lemma not_capital_lower: "d < 26 \<Longrightarrow> \<not> capital (char_of (d + 97 :: nat))"
  by (simp add: capital_def of_char_of)

lemma lettersValue_bound: "list_all capital cs \<Longrightarrow> lettersValue cs < 26 ^ length cs"
proof (induction cs)
  case (Cons c cs)
  then have "lettersValue cs + 1 \<le> 26 ^ length cs" "(of_char c :: nat) - 65 < 26" by (auto simp: capital_def)
  then show ?case by (simp add: algebra_simps)
qed simp

lemma lettersValue_inj:
  "list_all capital cs \<Longrightarrow> list_all capital ds \<Longrightarrow> length cs = length ds \<Longrightarrow> lettersValue cs = lettersValue ds \<Longrightarrow> cs = ds"
proof (induction cs arbitrary: ds)
  case (Cons c cs)
  obtain d ds' where ds: "ds = d # ds'" using Cons.prems(3) by (cases ds) auto
  have cd: "65 \<le> (of_char c :: nat)" "(of_char c :: nat) - 65 < 26" "65 \<le> (of_char d :: nat)" "(of_char d :: nat) - 65 < 26"
    using Cons.prems(1,2) ds by (auto simp: capital_def)
  have eq: "(of_char c - 65) + 26 * lettersValue cs = (of_char d - 65 :: nat) + 26 * lettersValue ds'" using Cons.prems(4) ds by simp
  have "a = b" if "a + 26 * x = b + 26 * y" "a < 26" "b < 26" for a b x y :: nat
    using that by (metis mod_less mod_mult_self2)
  from this [OF eq cd(2,4)] have "(of_char c :: nat) - 65 = of_char d - 65" .
  then have "(of_char c :: nat) = of_char d" using cd(1,3) by linarith
  then have "c = d" by (simp add: of_char_eq_iff)
  moreover have "lettersValue cs = lettersValue ds'" using eq \<open>(of_char c :: nat) = of_char d\<close> by simp
  ultimately show ?case using Cons.IH [of ds'] Cons.prems ds by simp
qed simp

lemma unat_mod_26: "unat (f mod 26) = unat f mod 26" if "(26 :: nat) < 2 ^ LENGTH('a)" for f :: "'a::len word"
proof -
  have "unat (26 :: 'a word) = 26" using that by (simp add: unsigned_numeral take_bit_nat_eq_self)
  then show ?thesis by (simp add: unat_mod)
qed

lemma unat_div_26: "unat (f div 26) = unat f div 26" if "(26 :: nat) < 2 ^ LENGTH('a)" for f :: "'a::len word"
proof -
  have "unat (26 :: 'a word) = 26" using that by (simp add: unsigned_numeral take_bit_nat_eq_self)
  then show ?thesis by (simp add: unat_div)
qed

lemma length_fragmentChars [simp]: "length (fragmentChars n b f) = n"
  by (induction n arbitrary: f) auto

lemma fragmentChars_capital:
  assumes "(26 :: nat) < 2 ^ LENGTH('a)"
  shows "list_all capital (fragmentChars n 65 (f :: 'a::len word))"
  by (induction n arbitrary: f) (auto simp: unat_mod_26 [OF assms] intro: capital_char_of)

lemma fragmentChars_value:
  assumes "(26 :: nat) < 2 ^ LENGTH('a)"
  shows "lettersValue (fragmentChars n 65 (f :: 'a::len word)) = unat f mod 26 ^ n"
proof (induction n arbitrary: f)
  case (Suc n)
  have "(unat f mod 26 + 65) mod 256 = unat f mod 26 + 65" by simp
  then show ?case
    by (simp add: Suc unat_mod_26 [OF assms] unat_div_26 [OF assms] of_char_of mod_mult2_eq add.commute)
qed simp

lemma lower_not_capital: "\<not> list_all capital (fragmentChars (Suc n) 97 (f :: u64))"
proof -
  have "unat f mod 26 < 26" by simp
  then show ?thesis using not_capital_lower [of "unat (f mod 26)"] by (simp add: unat_mod_26)
qed

lemma parseLetters_bad: "\<not> list_all capital cs \<Longrightarrow> parseLetters cs acc = None"
  by (induction cs arbitrary: acc) (auto simp: capital_def)

lemma parseLetters_snoc:
  assumes "capital c"
  shows "parseLetters (cs @ [c]) acc = map_option (\<lambda>v. v * 26 + of_nat (of_char c - 65)) (parseLetters cs acc)"
  using assms by (induction cs arbitrary: acc) (auto simp: capital_def)

lemma parseLetters_value: "list_all capital cs \<Longrightarrow> parseLetters (rev cs) 0 = Some (of_nat (lettersValue cs))"
  by (induction cs) (auto simp: parseLetters_snoc algebra_simps)

lemma checksumMatches_iff:
  "checksumMatches c xs \<longleftrightarrow> xs = fragmentChars (length xs) 65 c"
proof (induction xs arbitrary: c)
  case (Cons x xs)
  have "unat c mod 26 < 26" by simp
  then have "unat (c mod 26) + 65 < 256" by (simp add: unat_mod_26)
  then have "unat (c mod 26) + 65 = of_char x \<longleftrightarrow> x = char_of (unat (c mod 26) + 65)"
    by (metis mod_less of_char_of char_of_char)
  then show ?case using Cons by auto
qed simp

section \<open>Fragments and keys\<close>

definition fragmentLetters :: "string \<Rightarrow> nat \<Rightarrow> string" where
  "fragmentLetters s i = take 14 (drop (i * 14) s)"

lemma parseFragments_letters:
  "(\<forall>i \<in> set is. list_all capital (fragmentLetters s i)) \<Longrightarrow>
    parseFragments is s = Some (concat (map (\<lambda>i. store_le (of_nat (lettersValue (fragmentLetters s i)) :: u64)) is))"
  by (induction "is") (auto simp: fragmentLetters_def parseLetters_value)

lemma parseFragments_bad:
  "i \<in> set is \<Longrightarrow> \<not> list_all capital (fragmentLetters s i) \<Longrightarrow> parseFragments is s = None"
proof (induction "is")
  case (Cons j js)
  have "parseLetters (rev (fragmentLetters s i)) 0 = None" using Cons.prems(2) parseLetters_bad [of "rev (fragmentLetters s i)"] by simp
  then show ?case using Cons by (auto simp: fragmentLetters_def split: option.splits)
qed simp

lemma upt_4: "[0..<4] = [0, 1, 2, 3 :: nat]"
  by (simp add: upt_rec numeral_eq_Suc)

lemma key_fragments:
  assumes "length pk = 32"
  shows "concat (map (\<lambda>i. store_le (publicKeyFragment pk i)) [0..<4]) = pk"
proof -
  have F: "store_le (load_le (take 8 (drop k pk)) :: u64) = take 8 (drop k pk)" if "k + 8 \<le> 32" for k
    using that assms by (intro store_load_le) simp
  have "concat (map (\<lambda>i. store_le (publicKeyFragment pk i)) [0..<4]) =
      take 8 pk @ take 8 (drop 8 pk) @ take 8 (drop 16 pk) @ take 8 (drop 24 pk)"
    using F [of 0] F [of 8] F [of 16] F [of 24] by (simp add: upt_4 publicKeyFragment_def push_bit_eq_mult)
  also have "\<dots> = pk"
  proof -
    have S: "take 8 (drop k pk) @ drop (k + 8) pk = drop k pk" for k
      using append_take_drop_id [of 8 "drop k pk"] by (simp add: add.commute)
    show ?thesis using S [of 0] S [of 8] S [of 16] S [of 24] assms by simp
  qed
  finally show ?thesis .
qed

lemma identity_split:
  "getIdentityFromPublicKey pk lower = concat (map (\<lambda>i. fragmentChars 14 (letterBase lower) (publicKeyFragment (take 32 pk) i)) [0..<4]) @
     fragmentChars 4 (letterBase lower) (identityBytesChecksum (take 32 pk))"
  by (simp add: getIdentityFromPublicKey_def Let_def)

lemma fragmentLetters_identity:
  assumes "i < 4"
  shows "fragmentLetters (getIdentityFromPublicKey pk lower @ rest) i = fragmentChars 14 (letterBase lower) (publicKeyFragment (take 32 pk) i)"
proof -
  have "i \<in> {0, 1, 2, 3}" using assms by auto
  then show ?thesis by (auto simp: fragmentLetters_def identity_split upt_4)
qed

lemma checksum_identity:
  "take 4 (drop 56 (getIdentityFromPublicKey pk lower @ rest)) = fragmentChars 4 (letterBase lower) (identityBytesChecksum (take 32 pk))"
  by (simp add: identity_split upt_4)

lemma length_identity [simp]: "length (getIdentityFromPublicKey pk lower) = 60"
  by (simp add: identity_split upt_4)

lemma identity_parses:
  assumes "length pk = 32"
  shows "parseFragments [0..<4] (getIdentityFromPublicKey pk False @ rest) = Some pk"
proof -
  let ?s = "getIdentityFromPublicKey pk False @ rest"
  have L: "fragmentLetters ?s i = fragmentChars 14 65 (publicKeyFragment pk i)" if "i < 4" for i
    using fragmentLetters_identity [OF that, of pk False rest] assms by (simp add: letterBase_def)
  have V: "(of_nat (lettersValue (fragmentLetters ?s i)) :: u64) = publicKeyFragment pk i" if "i < 4" for i
  proof -
    have "unat (publicKeyFragment pk i) < 18446744073709551616" using unsigned_less [of "publicKeyFragment pk i"] by simp
    then have "unat (publicKeyFragment pk i) < 64509974703297150976" by linarith
    then show ?thesis by (simp add: L [OF that] fragmentChars_value)
  qed
  have "parseFragments [0..<4] ?s = Some (concat (map (\<lambda>i. store_le (of_nat (lettersValue (fragmentLetters ?s i)) :: u64)) [0..<4]))"
    by (rule parseFragments_letters) (auto simp: L fragmentChars_capital)
  also have "map (\<lambda>i. store_le (of_nat (lettersValue (fragmentLetters ?s i)) :: u64)) [0..<4] = map (\<lambda>i. store_le (publicKeyFragment pk i)) [0..<4]"
    using V by simp
  finally show ?thesis using key_fragments [OF assms] by simp
qed

text \<open>
  Claim C25. Identities are a round trip. The upper-case identity of any 32-byte key, with anything after
  it, is accepted by the checksum test and parses back to the key; its lower-case form, which is how
  transaction hashes are written, is refused by the test and leaves the output buffer of the parser as it was.
\<close>

theorem identity_roundtrip:
  assumes "length pk = 32"
  shows "checkSumIdentity (getIdentityFromPublicKey pk False @ rest) \<and>
    getPublicKeyFromIdentity (getIdentityFromPublicKey pk False @ rest) out = pk \<and>
    \<not> checkSumIdentity (getIdentityFromPublicKey pk True @ rest) \<and>
    getPublicKeyFromIdentity (getIdentityFromPublicKey pk True @ rest) out = out"
proof -
  have up: "checkSumIdentity (getIdentityFromPublicKey pk False @ rest)"
    "getPublicKeyFromIdentity (getIdentityFromPublicKey pk False @ rest) out = pk"
    using identity_parses [OF assms] checksum_identity [of pk False rest] assms
    by (simp_all add: checkSumIdentity_def getPublicKeyFromIdentity_def checksumMatches_iff letterBase_def)
  have "\<not> list_all capital (fragmentLetters (getIdentityFromPublicKey pk True @ rest) 0)"
    using lower_not_capital [of 13 "publicKeyFragment pk 0"] by (simp add: fragmentLetters_identity assms letterBase_def)
  then have "parseFragments [0..<4] (getIdentityFromPublicKey pk True @ rest) = None"
    by (intro parseFragments_bad [of 0]) auto
  then show ?thesis using up by (simp add: checkSumIdentity_def getPublicKeyFromIdentity_def)
qed

theorem identity_roundtrip_witness:
  "checkSumIdentity (getIdentityFromPublicKey (replicate 32 7) False @ []) \<and>
    getPublicKeyFromIdentity (getIdentityFromPublicKey (replicate 32 7) False @ []) [] = replicate 32 7 \<and>
    \<not> checkSumIdentity (getIdentityFromPublicKey (replicate 32 7) True @ []) \<and>
    getPublicKeyFromIdentity (getIdentityFromPublicKey (replicate 32 7) True @ []) [] = []"
  by (rule identity_roundtrip [OF length_replicate])

section \<open>Identities of a key\<close>

lemma lettersValue_witness:
  assumes "v < 26 ^ n"
  shows "\<exists>cs. length cs = n \<and> list_all capital cs \<and> lettersValue cs = v"
  using assms
proof (induction n arbitrary: v)
  case (Suc n)
  have "v div 26 < 26 ^ n" using Suc.prems by (simp add: less_mult_imp_div_less)
  then obtain cs where cs: "length cs = n" "list_all capital cs" "lettersValue cs = v div 26" using Suc.IH by blast
  have "lettersValue (char_of (v mod 26 + 65) # cs) = v" by (simp add: cs(3) of_char_of)
  then show ?case using cs(1,2) capital_char_of [of "v mod 26"] by (intro exI [of _ "char_of (v mod 26 + 65) # cs"]) simp
qed simp

lemma checkSumIdentity_iff:
  "checkSumIdentity s \<longleftrightarrow> (\<exists>pk. parseFragments [0..<4] s = Some pk \<and>
     take 4 (drop 56 s) = fragmentChars (length (take 4 (drop 56 s))) 65 (identityBytesChecksum pk))"
  by (auto simp: checkSumIdentity_def checksumMatches_iff split: option.splits)

lemma accepted_letters:
  assumes "checkSumIdentity s" and "i < 4"
  shows "list_all capital (fragmentLetters s i)"
  using assms parseFragments_bad [of i "[0..<4]" s] by (fastforce simp: checkSumIdentity_iff)

lemma accepted_key:
  assumes "checkSumIdentity s"
  shows "getPublicKeyFromIdentity s out = concat (map (\<lambda>i. store_le (of_nat (lettersValue (fragmentLetters s i)) :: u64)) [0..<4])"
  using parseFragments_letters [of "[0..<4]" s] accepted_letters [OF assms] by (simp add: getPublicKeyFromIdentity_def)

lemma identity_letters_split:
  assumes "length s = 60"
  shows "s = fragmentLetters s 0 @ fragmentLetters s 1 @ fragmentLetters s 2 @ fragmentLetters s 3 @ take 4 (drop 56 s)"
proof -
  have S: "take 14 (drop k s) @ drop (k + 14) s = drop k s" for k
    using append_take_drop_id [of 14 "drop k s"] by (simp add: add.commute)
  show ?thesis using S [of 0] S [of 14] S [of 28] S [of 42] assms by (simp add: fragmentLetters_def)
qed

lemma identity_canonical:
  assumes len: "length s = 60" and ok: "checkSumIdentity s"
  shows "s = getIdentityFromPublicKey (getPublicKeyFromIdentity s out) False \<longleftrightarrow> (\<forall>i < 4. lettersValue (fragmentLetters s i) < 2 ^ 64)"
    (is "_ = getIdentityFromPublicKey ?pk False \<longleftrightarrow> _")
proof
  have pkS: "parseFragments [0..<4] s = Some ?pk" using ok by (auto simp: checkSumIdentity_iff getPublicKeyFromIdentity_def)
  have pk: "?pk = concat (map (\<lambda>i. store_le (of_nat (lettersValue (fragmentLetters s i)) :: u64)) [0..<4])" by (rule accepted_key [OF ok])
  have len32: "length ?pk = 32" by (simp add: pk upt_4 store_le_def)
  assume "s = getIdentityFromPublicKey ?pk False"
  then have L: "fragmentLetters s i = fragmentChars 14 65 (publicKeyFragment ?pk i)" if "i < 4" for i
    using fragmentLetters_identity [OF that, of ?pk False "[]"] len32 by (simp add: letterBase_def)
  show "\<forall>i < 4. lettersValue (fragmentLetters s i) < 2 ^ 64"
  proof (intro allI impI)
    fix i :: nat
    assume "i < 4"
    have "unat (publicKeyFragment ?pk i) < 18446744073709551616" using unsigned_less [of "publicKeyFragment ?pk i"] by simp
    then show "lettersValue (fragmentLetters s i) < 2 ^ 64"
      by (simp add: L [OF \<open>i < 4\<close>] fragmentChars_value le_less_trans [OF mod_less_eq_dividend])
  qed
next
  have pkS: "parseFragments [0..<4] s = Some ?pk" using ok by (auto simp: checkSumIdentity_iff getPublicKeyFromIdentity_def)
  have pk: "?pk = concat (map (\<lambda>i. store_le (of_nat (lettersValue (fragmentLetters s i)) :: u64)) [0..<4])" by (rule accepted_key [OF ok])
  have len32: "length ?pk = 32" by (simp add: pk upt_4 store_le_def)
  assume small: "\<forall>i < 4. lettersValue (fragmentLetters s i) < 2 ^ 64"
  have F: "fragmentLetters s i = fragmentLetters (getIdentityFromPublicKey ?pk False @ []) i" if i: "i < 4" for i
  proof (rule lettersValue_inj)
    have frag: "publicKeyFragment ?pk i = of_nat (lettersValue (fragmentLetters s i))"
    proof -
      have "i \<in> {0, 1, 2, 3}" using i by auto
      then show ?thesis unfolding pk by (auto simp: publicKeyFragment_def upt_4 push_bit_eq_mult store_le_def [symmetric] load_store_le)
    qed
    have L: "fragmentLetters (getIdentityFromPublicKey ?pk False @ []) i = fragmentChars 14 65 (publicKeyFragment ?pk i)"
      using fragmentLetters_identity [OF i, of ?pk False "[]"] len32 by (simp add: letterBase_def)
    have v: "lettersValue (fragmentLetters s i) < 18446744073709551616" using small i by simp
    show "lettersValue (fragmentLetters s i) = lettersValue (fragmentLetters (getIdentityFromPublicKey ?pk False @ []) i)"
      unfolding L frag using v by (simp add: fragmentChars_value unat_of_nat)
    show "list_all capital (fragmentLetters s i)" by (rule accepted_letters [OF ok i])
    show "list_all capital (fragmentLetters (getIdentityFromPublicKey ?pk False @ []) i)" unfolding L by (rule fragmentChars_capital) simp
    show "length (fragmentLetters s i) = length (fragmentLetters (getIdentityFromPublicKey ?pk False @ []) i)"
      unfolding L using len i by (auto simp: fragmentLetters_def)
  qed
  have C: "take 4 (drop 56 s) = take 4 (drop 56 (getIdentityFromPublicKey ?pk False))"
    using ok pkS len checksum_identity [of ?pk False "[]"] len32 by (simp add: checkSumIdentity_iff letterBase_def)
  let ?t = "getIdentityFromPublicKey ?pk False"
  have "fragmentLetters s 0 @ fragmentLetters s 1 @ fragmentLetters s 2 @ fragmentLetters s 3 @ take 4 (drop 56 s) =
      fragmentLetters ?t 0 @ fragmentLetters ?t 1 @ fragmentLetters ?t 2 @ fragmentLetters ?t 3 @ take 4 (drop 56 ?t)"
    using C F [of 0] F [of 1] F [of 2] F [of 3] by simp
  then show "s = ?t"
    by (rule trans [OF identity_letters_split [OF len] trans [OF _ identity_letters_split [OF length_identity, symmetric]]])
qed

text \<open>A second identity of a key: its first fragment written with the value raised by \<open>2 ^ 64\<close>.\<close>

lemma identity_alias:
  assumes pk: "length pk = 32" and room: "unat (publicKeyFragment pk 0) + 2 ^ 64 < 26 ^ 14"
  shows "\<exists>s. length s = 60 \<and> s \<noteq> getIdentityFromPublicKey pk False \<and> checkSumIdentity s \<and> (\<forall>out. getPublicKeyFromIdentity s out = pk)"
proof -
  let ?t = "getIdentityFromPublicKey pk False" and ?v = "unat (publicKeyFragment pk 0) + 2 ^ 64"
  obtain cs where cs: "length cs = 14" "list_all capital cs" "lettersValue cs = ?v" using lettersValue_witness [OF room] by blast
  define s where "s = cs @ drop 14 ?t"
  have f0: "fragmentLetters s 0 = cs" by (simp add: s_def fragmentLetters_def cs(1))
  have fi: "fragmentLetters s i = fragmentLetters (?t @ []) i" if "i \<in> {1, 2, 3}" for i
    using that by (auto simp: s_def fragmentLetters_def cs(1))
  have L: "fragmentLetters (?t @ []) i = fragmentChars 14 65 (publicKeyFragment pk i)" if "i < 4" for i
    using fragmentLetters_identity [OF that, of pk False "[]"] pk by (simp add: letterBase_def)
  have V: "(of_nat (lettersValue (fragmentLetters s i)) :: u64) = publicKeyFragment pk i" if i: "i < 4" for i
  proof (cases "i = 0")
    case True
    have "(of_nat (2 ^ 64) :: u64) = 0" by simp
    then show ?thesis unfolding True f0 cs(3) of_nat_add by simp
  next
    case False
    have "unat (publicKeyFragment pk i) < 18446744073709551616" using unsigned_less [of "publicKeyFragment pk i"] by simp
    then have "unat (publicKeyFragment pk i) < 64509974703297150976" by linarith
    moreover have "i \<in> {1, 2, 3}" using i False by auto
    ultimately show ?thesis by (simp only: fi L [OF i]) (simp add: fragmentChars_value)
  qed
  have caps: "\<forall>i \<in> set [0..<4]. list_all capital (fragmentLetters s i)"
  proof
    fix i assume "i \<in> set [0..<4::nat]"
    then have i: "i < 4" by simp
    show "list_all capital (fragmentLetters s i)"
    proof (cases "i = 0")
      case False
      then have "i \<in> {1, 2, 3}" using i by auto
      then show ?thesis unfolding fi [OF \<open>i \<in> {1, 2, 3}\<close>] L [OF i] by (intro fragmentChars_capital) simp
    qed (simp add: f0 cs(2))
  qed
  have eq: "map (\<lambda>i. store_le (of_nat (lettersValue (fragmentLetters s i)) :: u64)) [0..<4] = map (\<lambda>i. store_le (publicKeyFragment pk i)) [0..<4]"
    using V by simp
  have parse: "parseFragments [0..<4] s = Some pk" using parseFragments_letters [OF caps] unfolding eq key_fragments [OF pk] .
  have "take 4 (drop 56 s) = take 4 (drop 56 (?t @ []))" by (simp add: s_def cs(1))
  then have "checkSumIdentity s" using parse checksum_identity [of pk False "[]"] pk by (simp add: checkSumIdentity_iff letterBase_def)
  moreover have "s \<noteq> ?t"
  proof
    assume "s = ?t"
    then have "cs = fragmentChars 14 65 (publicKeyFragment pk 0)" using f0 L [of 0] by simp
    then have "?v = unat (publicKeyFragment pk 0) mod 26 ^ 14" using cs(3) fragmentChars_value [of 14 "publicKeyFragment pk 0"] by simp
    also have "\<dots> \<le> unat (publicKeyFragment pk 0)" by (rule mod_less_eq_dividend)
    finally show False by simp
  qed
  moreover have "length s = 60" by (simp add: s_def cs(1))
  ultimately show ?thesis using parse by (auto simp: getPublicKeyFromIdentity_def)
qed

text \<open>
  Claim C37. Which identities the checksum test accepts. An accepted string of 60 letters is the identity
  of the key it parses to exactly when each group of 14 letters is a number below \<open>2 ^ 64\<close>. As
  \<open>26 ^ 14\<close> is larger than \<open>2 ^ 64\<close>, groups wrap: every key whose first fragment leaves room for it has a
  second string that the test accepts and that parses to the same key.
\<close>

theorem checkSumIdentity_accepts_aliases:
  "(\<forall>s out. length s = 60 \<and> checkSumIdentity s \<longrightarrow>
     (s = getIdentityFromPublicKey (getPublicKeyFromIdentity s out) False \<longleftrightarrow> (\<forall>i < 4. lettersValue (fragmentLetters s i) < 2 ^ 64))) \<and>
   (\<forall>pk. length pk = 32 \<and> unat (publicKeyFragment pk 0) + 2 ^ 64 < 26 ^ 14 \<longrightarrow>
     (\<exists>s. length s = 60 \<and> s \<noteq> getIdentityFromPublicKey pk False \<and> checkSumIdentity s \<and> (\<forall>out. getPublicKeyFromIdentity s out = pk)))"
  using identity_canonical identity_alias by blast

theorem checkSumIdentity_accepts_aliases_witness:
  "\<exists>s. length s = 60 \<and> s \<noteq> getIdentityFromPublicKey (replicate 32 0) False \<and> checkSumIdentity s \<and>
     (\<forall>out. getPublicKeyFromIdentity s out = replicate 32 0)"
proof -
  have "le_nat (replicate n 0) = 0" for n by (induction n) simp_all
  then have "publicKeyFragment (replicate 32 0) 0 = 0" by (simp add: publicKeyFragment_def load_le_def)
  then show ?thesis using conjunct2 [OF checkSumIdentity_accepts_aliases, rule_format, of "replicate 32 0"] by simp
qed

lemma fragmentChars_no_NUL:
  assumes "(26 :: nat) < 2 ^ LENGTH('a)"
  shows "char_of (0 :: nat) \<notin> set (fragmentChars n (letterBase lower) (f :: 'a::len word))"
proof (induction n arbitrary: f)
  case (Suc n)
  have "unat f mod 26 < 26" by simp
  then have "unat f mod 26 + letterBase lower < 256" "unat f mod 26 + letterBase lower \<noteq> 0" by (auto simp: letterBase_def)
  then show ?case using Suc by (auto simp: unat_mod_26 [OF assms] char_of_eq_iff of_char_of take_bit_eq_mod)
qed simp

lemma getIdentity_same: "getIdentity pk lower = getIdentityFromPublicKey pk lower"
  unfolding getIdentity_def getIdentityFromPublicKey_def Let_def append_assoc [symmetric]
  by (subst takeWhile_append2) (auto simp: upt_4 fragmentChars_no_NUL)

end
