(* ===== verification/SchnorrQ.thy ===== *)
theory SchnorrQ
  imports ScalarMul Identity
begin

text \<open>
  SchnorrQ signatures of \<open>K12AndKeyUtil.h\<close>: the encoding and decoding of points, signing and verification, and the keys of a seed. Keys, digests and
  signatures are lists of bytes. \<open>encode\<close> is called with its output over its input, so it is modelled on
  a memory of 64-bit words.
\<close>

section \<open>Encoding\<close>

type_synonym memory = "nat \<Rightarrow> u64"

definition copy32 :: "nat \<Rightarrow> nat \<Rightarrow> memory \<Rightarrow> memory" where
  "copy32 dst src m = m(dst := m src, dst + 1 := m (src + 1), dst + 2 := m (src + 2), dst + 3 := m (src + 3))"

text \<open>A point at an address: the words of \<open>x\<close> and then those of \<open>y\<close>.\<close>

definition storePoint :: "nat \<Rightarrow> point_affine \<Rightarrow> memory \<Rightarrow> memory" where
  "storePoint p P m = m(p := fst (fst (ax P)), p + 1 := snd (fst (ax P)), p + 2 := fst (snd (ax P)), p + 3 := snd (snd (ax P)),
     p + 4 := fst (fst (ay P)), p + 5 := snd (fst (ay P)), p + 6 := fst (snd (ay P)), p + 7 := snd (snd (ay P)))"

definition loadWords :: "nat \<Rightarrow> memory \<Rightarrow> limbs4" where
  "loadWords p m = (m p, m (p + 1), m (p + 2), m (p + 3))"

definition encode :: "nat \<Rightarrow> nat \<Rightarrow> memory \<Rightarrow> memory" where
  "encode P Pencoded m =
     (let temp1 = push_bit 1 (m (P + 3) AND 0x4000000000000000);
          temp2 = push_bit 1 (m (P + 1) AND 0x4000000000000000);
          m = copy32 Pencoded (P + 4) m
      in if m P = 0 \<and> m (P + 1) = 0
         then m(Pencoded + 3 := m (Pencoded + 3) OR temp1)
         else m(Pencoded + 3 := m (Pencoded + 3) OR temp2))"

text \<open>A call with the output apart from the point, and one with the output over the point.\<close>

definition encodePoint :: "point_affine \<Rightarrow> limbs4" where
  "encodePoint P = loadWords 8 (encode 0 8 (storePoint 0 P (\<lambda>_. 0)))"

definition encodeInPlace :: "point_affine \<Rightarrow> limbs4" where
  "encodeInPlace P = loadWords 0 (encode 0 0 (storePoint 0 P (\<lambda>_. 0)))"

definition limbsBytes :: "limbs4 \<Rightarrow> u8 list" where
  "limbsBytes a = concat (map store_le (limbList a))"

definition bytesLimbs :: "u8 list \<Rightarrow> limbs4" where
  "bytesLimbs bs = (load_le (take 8 bs), load_le (take 8 (drop 8 bs)), load_le (take 8 (drop 16 bs)), load_le (take 8 (drop 24 bs)))"

text \<open>The candidate for \<open>x\<close> from the encoded \<open>y\<close>, before its sign is looked at.\<close>

definition decodeX :: "f2elm_t \<Rightarrow> f2elm_t" where
  "decodeX y =
     (let u = fp2sqr1271 y;
          v = fp2mul1271 u PARAMETER_d;
          u = fp2sub1271 u ONE2;
          v = fp2add1271 v ONE2;
          t0 = fpsqr1271 (fst v);
          t1 = fpsqr1271 (snd v);
          t0 = fpadd1271 t0 t1;
          t1 = fpmul1271 (fst u) (fst v);
          t2 = fpmul1271 (snd u) (snd v);
          t1 = fpadd1271 t1 t2;
          t2 = fpmul1271 (snd u) (fst v);
          t3 = fpmul1271 (fst u) (snd v);
          t2 = fpsub1271 t2 t3;
          t3 = fpsqr1271 t1;
          t4 = fpsqr1271 t2;
          t3 = fpadd1271 t3 t4;
          t3 = (fpsqr1271 ^^ 125) t3;
          t = mod1271 (fpadd1271 t1 t3);
          t = (if fst t = 0 \<and> snd t = 0 then fpsub1271 t1 t3 else t);
          t = fpadd1271 t t;
          t3 = fpsqr1271 t0;
          t3 = fpmul1271 t0 t3;
          t3 = fpmul1271 t t3;
          r = fpexp1251 t3;
          t3 = fpmul1271 t0 r;
          x0 = fpmul1271 t t3;
          t1 = fpsqr1271 x0;
          t1 = fpmul1271 t0 t1;
          x0 = fphalf1271 x0;
          x1 = fpmul1271 t2 t3;
          t = mod1271 (fpsub1271 t t1);
          (x0, x1) = (if fst t \<noteq> 0 \<or> snd t \<noteq> 0 then (x1, x0) else (x0, x1))
      in (mod1271 x0, x1))"

definition decode :: "u8 list \<Rightarrow> bool \<times> point_affine" where
  "decode Pencoded =
     (let (w0, w1, w2, w3) = bytesLimbs Pencoded;
          y = ((w0, w1), (w2, w3 AND 0x7FFFFFFFFFFFFFFF));
          (x0, x1) = decodeX y;
          signWord = (if fst x0 = 0 \<and> snd x0 = 0 then snd x1 else snd x0);
          x = (if unat (drop_bit 7 (Pencoded ! 31)) \<noteq> unat (ucast (drop_bit 62 signWord) :: u32) then fp2neg1271 (x0, x1) else (x0, x1));
          P = \<lparr>ax = x, ay = y\<rparr>;
          R = point_setup P
      in if ecc_point_validate R then (True, P)
         else let x1' = fpneg1271 (snd (px R));
                  R = R\<lparr>px := (fst (px R), x1')\<rparr>;
                  P = P\<lparr>ax := (fst (ax P), x1')\<rparr>
              in (ecc_point_validate R, P))"

section \<open>Signatures\<close>

text \<open>The second half of a signature: \<open>r - k h\<close> modulo the order.\<close>

definition signScalar :: "limbs4 \<Rightarrow> limbs4 \<Rightarrow> limbs4 \<Rightarrow> limbs4" where
  "signScalar r h k =
     (let r = Montgomery_multiply_mod_order r Montgomery_Rprime;
          r = Montgomery_multiply_mod_order r ONE;
          h = Montgomery_multiply_mod_order h Montgomery_Rprime;
          h = Montgomery_multiply_mod_order h ONE;
          s = Montgomery_multiply_mod_order k Montgomery_Rprime;
          h = Montgomery_multiply_mod_order h Montgomery_Rprime;
          s = Montgomery_multiply_mod_order s h;
          s = Montgomery_multiply_mod_order s ONE;
          (b, s) = sub4 False r s
      in if b then snd (add4 False s curve_order) else s)"

text \<open>The nonce and the challenge come from the hash.\<close>

definition signWithNonceK :: "u8 list \<Rightarrow> u8 list \<Rightarrow> u8 list \<Rightarrow> u8 list" where
  "signWithNonceK k publicKey messageDigest =
     (let r = bytesLimbs (KangarooTwelve (take 32 (drop 32 k) @ take 32 messageDigest) 64);
          sigR = limbsBytes (encodePoint (ecc_mul_fixed r));
          h = bytesLimbs (KangarooTwelve (sigR @ take 32 publicKey @ take 32 messageDigest) 64)
      in sigR @ limbsBytes (signScalar r h (bytesLimbs k)))"

definition sign :: "u8 list \<Rightarrow> u8 list \<Rightarrow> u8 list \<Rightarrow> u8 list" where
  "sign subseed publicKey messageDigest = signWithNonceK (KangarooTwelve (take 32 subseed) 64) publicKey messageDigest"

definition verify :: "u8 list \<Rightarrow> u8 list \<Rightarrow> u8 list \<Rightarrow> bool" where
  "verify publicKey messageDigest signature =
     (if publicKey ! 15 AND 0x80 \<noteq> 0 \<or> signature ! 15 AND 0x80 \<noteq> 0 \<or> signature ! 62 AND 0xC0 \<noteq> 0 \<or> signature ! 63 \<noteq> 0 then False
      else let (ok, A) = decode publicKey
      in if \<not> ok then False
      else let h = KangarooTwelve (take 32 signature @ take 32 publicKey @ take 32 messageDigest) 64
      in case ecc_mul_double (bytesLimbs (drop 32 signature)) (bytesLimbs h) A of
        None \<Rightarrow> False
      | Some A \<Rightarrow> limbsBytes (encodeInPlace A) = take 32 signature)"

section \<open>Keys\<close>

definition getPublicKeyFromPrivateKey :: "u8 list \<Rightarrow> u8 list" where
  "getPublicKeyFromPrivateKey privateKey = limbsBytes (encodePoint (ecc_mul_fixed (bytesLimbs privateKey)))"

text \<open>The result of \<open>getSubseedFromSeed\<close> is ignored: a bad seed leaves a subseed of zeros.\<close>

definition getPublicKeyFromSeed :: "u8 list \<Rightarrow> u8 list" where
  "getPublicKeyFromSeed seed =
     (let subseed = (case getSubseedFromSeed seed of None \<Rightarrow> replicate 32 0 | Some s \<Rightarrow> s)
      in getPublicKeyFromPrivateKey (getPrivateKeyFromSubSeed subseed))"

definition signData :: "u8 list \<Rightarrow> u8 list \<Rightarrow> u8 list" where
  "signData seed data =
     (let subseed = (case getSubseedFromSeed seed of None \<Rightarrow> replicate 32 0 | Some s \<Rightarrow> s);
          sourcePublicKey = getPublicKeyFromPrivateKey (getPrivateKeyFromSubSeed subseed)
      in sign subseed sourcePublicKey (KangarooTwelve (take (length data mod 2 ^ 32) data) 32))"

section \<open>The scalar of a signature\<close>

lemma mod_cancel_256: "a * 2 ^ 256 mod order = b * 2 ^ 256 mod order \<Longrightarrow> a mod order = b mod order"
proof (rule cancel_unit [where i = "2 ^ 256 * rinverse"])
  show "(2 :: nat) ^ 256 * (2 ^ 256 * rinverse) mod order = 1" by (simp add: rinverse_def order_def)
qed

lemma montgomery_in: "val4 (Montgomery_multiply_mod_order a Montgomery_Rprime) < order \<and>
  val4 (Montgomery_multiply_mod_order a Montgomery_Rprime) mod order = val4 a * 2 ^ 256 mod order"
proof -
  have R: "val4 Montgomery_Rprime < order" "val4 Montgomery_Rprime mod order = 2 ^ 512 mod order"
    by (simp_all add: Montgomery_Rprime_def order_def)
  have "val4 (Montgomery_multiply_mod_order a Montgomery_Rprime) * 2 ^ 256 mod order = val4 a * 2 ^ 512 mod order"
    using montgomery_val(2) [OF R(1)] R(2) by (metis mod_mult_right_eq)
  also have "\<dots> = val4 a * 2 ^ 256 * 2 ^ 256 mod order" by (simp only: mult.assoc power_add [symmetric]) simp
  finally show ?thesis using montgomery_val(1) [OF R(1)] mod_cancel_256 by blast
qed

lemma montgomery_out: "val4 (Montgomery_multiply_mod_order a ONE) < order \<and>
  val4 (Montgomery_multiply_mod_order a ONE) * 2 ^ 256 mod order = val4 a mod order"
proof -
  have "val4 ONE < order" "val4 ONE = 1" by (simp_all add: ONE_def order_def)
  then show ?thesis using montgomery_val [of ONE a] by simp
qed

lemma signScalar_val:
  "val4 (signScalar r h k) < order \<and> (val4 (signScalar r h k) + val4 k * val4 h) mod order = val4 r mod order"
proof -
  let ?M = Montgomery_multiply_mod_order
  define r' where "r' = ?M (?M r Montgomery_Rprime) ONE"
  define h' where "h' = ?M (?M h Montgomery_Rprime) ONE"
  define s where "s = ?M (?M (?M k Montgomery_Rprime) (?M h' Montgomery_Rprime)) ONE"
  have r': "val4 r' = val4 r mod order" and h': "val4 h' = val4 h mod order"
    unfolding r'_def h'_def by (rule montgomery_reduces)+
  have s: "val4 s < order" unfolding s_def using montgomery_out by blast
  have "val4 s * 2 ^ 256 * 2 ^ 256 mod order = val4 (?M (?M k Montgomery_Rprime) (?M h' Montgomery_Rprime)) * 2 ^ 256 mod order"
    unfolding s_def using montgomery_out by (metis mod_mult_left_eq)
  also have "\<dots> = val4 (?M k Montgomery_Rprime) * val4 (?M h' Montgomery_Rprime) mod order"
    using montgomery_val(2) montgomery_in by blast
  also have "\<dots> = (val4 k * 2 ^ 256) * (val4 h' * 2 ^ 256) mod order" using montgomery_in by (metis mod_mult_eq)
  also have "\<dots> = val4 k * val4 h' * 2 ^ 256 * 2 ^ 256 mod order" by (simp only: ac_simps)
  finally have "val4 s mod order = val4 k * val4 h' mod order" using mod_cancel_256 by blast
  also have "\<dots> = val4 k * val4 h mod order" unfolding h' by (rule mod_mult_right_eq)
  finally have kh: "val4 s mod order = val4 k * val4 h mod order" .
  obtain b d where d: "sub4 False r' s = (b, d)" by (meson surj_pair)
  obtain c e where e: "add4 False d curve_order = (c, e)" by (meson surj_pair)
  have D: "val4 d + val4 s = val4 r' + 2 ^ 256 * of_bool b" using sub4_val [OF d] by simp
  have E: "val4 e + 2 ^ 256 * of_bool c = val4 d + order" using add4_val [OF e] by (simp add: val4_order)
  have small: "val4 r' < order" "order < 2 ^ 256" unfolding r' by (simp_all add: order_def)
  have def_eq: "signScalar r h k = (if b then e else d)"
    by (simp add: signScalar_def Let_def r'_def [symmetric] h'_def [symmetric] s_def [symmetric] d e)
  have res: "val4 (signScalar r h k) < order \<and> (val4 (signScalar r h k) + val4 s) mod order = val4 r' mod order"
  proof (cases b)
    case False
    then show ?thesis using D small by (simp add: def_eq)
  next
    case True
    then have "c" using E D s small val4_less [of e] by (cases c) auto
    then have "val4 e + val4 s = val4 r' + order" "val4 e < order" using E D True small s val4_less [of d] by auto
    then show ?thesis using True by (simp add: def_eq)
  qed
  then have "(val4 (signScalar r h k) + val4 k * val4 h) mod order = val4 r' mod order" using kh by (metis mod_add_right_eq)
  then show ?thesis using res by (simp add: r')
qed

section \<open>Reduced points\<close>

definition reducedPoint :: "point_extproj \<Rightarrow> bool" where
  "reducedPoint P \<longleftrightarrow> reduced2 (px P) \<and> reduced2 (py P) \<and> reduced2 (pz P) \<and> reduced2 (pta P) \<and> reduced2 (ptb P)"

definition reducedEntry :: "point_precomp \<Rightarrow> bool" where
  "reducedEntry Q \<longleftrightarrow> reduced2 (sxy Q) \<and> reduced2 (syx Q) \<and> reduced2 (st2 Q)"

lemma eccdouble_reduced: "reducedPoint P \<Longrightarrow> reducedPoint (eccdouble P)"
  by (simp add: reducedPoint_def eccdouble_def Let_def fp2addsub1271_def fp2_ops)

lemma eccmadd_reduced: "reducedEntry Q \<Longrightarrow> reducedPoint P \<Longrightarrow> reducedPoint (eccmadd Q P)"
  by (simp add: reducedPoint_def reducedEntry_def eccmadd_def Let_def fp2_ops)

lemma lookup_reduced: "reducedEntry (entryOf table i) \<Longrightarrow> reducedEntry (table_lookup_fixed_base table i sg)"
  by (simp add: lookup_negates reducedEntry_def eccneg_precomp_def fp2_ops)

lemma reduced_high: "unat (snd a) < 2 ^ 63 \<Longrightarrow> reduced a"
  using unat_u64_less [of "fst a"] by (simp add: reduced_def fval_def)

text \<open>The high limb of every element of the fixed-base table has its top bit clear.\<close>

fun secondWords :: "u64 list \<Rightarrow> u64 list" where
  "secondWords (a # b # ws) = b # secondWords ws"
| "secondWords ws = []"

lemma secondWords_nth: "2 * i + 1 < length ws \<Longrightarrow> secondWords ws ! i = ws ! (2 * i + 1) \<and> i < length (secondWords ws)"
proof (induction ws arbitrary: i rule: secondWords.induct)
  case (1 a b ws)
  then show ?case by (cases i) auto
qed auto

lemma fixed_words: "list_all (\<lambda>w. w < 0x8000000000000000) (secondWords FIXED_BASE_TABLE)" and fixed_length: "length FIXED_BASE_TABLE = 960"
  unfolding FIXED_BASE_TABLE_def by simp_all

lemma fixed_high: "i < 480 \<Longrightarrow> unat (FIXED_BASE_TABLE ! (2 * i + 1)) < 2 ^ 63"
  using fixed_words secondWords_nth [of i FIXED_BASE_TABLE] fixed_length by (auto simp: list_all_length word_less_nat_alt)

lemma fixed_entry_reduced:
  assumes "i < 80"
  shows "reducedEntry (entryOf FIXED_BASE_TABLE i)"
proof -
  have "reduced (FIXED_BASE_TABLE ! (12 * i + 2 * j), FIXED_BASE_TABLE ! (12 * i + (2 * j + 1)))" if "j < 6" for j
    using fixed_high [of "6 * i + j"] assms that by (intro reduced_high) (simp add: algebra_simps)
  from this [of 0] this [of 1] this [of 2] this [of 3] this [of 4] this [of 5] show ?thesis
    by (simp add: reducedEntry_def entryOf_def reduced2_def)
qed

lemma combAdd_reduced:
  assumes "digits_ok digits" and "j < 5" and "t < 10" and "reducedPoint R"
  shows "reducedPoint (combAdd FIXED_BASE_TABLE digits t j R)"
proof -
  obtain u where "u < 16" "combIndex digits j t = 16 * j + u" using comb_entry [OF assms(1-3)] by metis
  then have "combIndex digits j t < 80" using assms(2) by simp
  then show ?thesis unfolding combAdd_def using assms(4) fixed_entry_reduced by (intro eccmadd_reduced lookup_reduced)
qed

lemma combFirst_reduced:
  assumes "digits_ok digits"
  shows "reducedPoint (combFirst FIXED_BASE_TABLE digits)"
proof -
  obtain u where "u < 16" "combIndex digits 4 9 = 16 * 4 + u" using comb_entry [OF assms, of 4 9] by auto
  then have "reducedEntry (table_lookup_fixed_base FIXED_BASE_TABLE (combIndex digits 4 9) 0)"
    by (intro lookup_reduced fixed_entry_reduced) simp
  moreover have "reduced2 ((1, 0), (0, 0))" using reduced2_one by (simp add: ONE2_def)
  ultimately show ?thesis by (simp add: combFirst_def Let_def reducedPoint_def reducedEntry_def fp2_ops fp2div1271_ring)
qed

lemma mulFixed_reduced: "reducedPoint (mulFixed FIXED_BASE_TABLE k)"
proof -
  define digits where "digits = recodeFixed (oddScalar k)"
  have digits: "digits_ok digits" using recodeFixed_val(3) [OF oddScalar_val(1,3), of k] by (simp add: digits_ok_def digits_def)
  note A = combAdd_reduced [OF digits]
  have pass: "reducedPoint (combPass FIXED_BASE_TABLE digits t R)" if "t < 10" "reducedPoint R" for t R
    unfolding combPass_def by (rule fold_invariant [where Q = "\<lambda>j. j < 5"]) (use A that eccdouble_reduced in auto)
  have "reducedPoint (fold (combAdd FIXED_BASE_TABLE digits 9) [3, 2, 1, 0] (combFirst FIXED_BASE_TABLE digits))"
    by (rule fold_invariant [where Q = "\<lambda>j. j < 5"]) (use A combFirst_reduced [OF digits] in auto)
  then show ?thesis unfolding mulFixed_def digits_def [symmetric] Let_def
    by (rule fold_invariant [where Q = "\<lambda>t. t < 10", rotated]) (use pass in auto)
qed

lemma eccnorm_reduced:
  assumes "reducedPoint P"
  shows "fval (fst (ax (eccnorm P))) < 2 ^ 127 - 1" "fval (snd (ax (eccnorm P))) < 2 ^ 127 - 1"
    "fval (fst (ay (eccnorm P))) < 2 ^ 127 - 1" "fval (snd (ay (eccnorm P))) < 2 ^ 127 - 1"
proof -
  define z where "z = (let n = fpadd1271 (fpsqr1271 (fst (pz P))) (fpsqr1271 (snd (pz P)));
    i = fpmul1271 n (fpsqr1271 (fpsqr1271 (fpexp1251 n))) in (fpmul1271 (fst (pz P)) i, fpmul1271 (fpneg1271 (snd (pz P))) i))"
  have z: "reduced2 z" using assms by (simp add: z_def Let_def reducedPoint_def reduced2_def field_ops fpexp1251_ring)
  have e: "eccnorm P = (let qx = fp2mul1271 (px P) z; qy = fp2mul1271 (py P) z in
    \<lparr>ax = (mod1271 (fst qx), mod1271 (snd qx)), ay = (mod1271 (fst qy), mod1271 (snd qy))\<rparr>)"
    by (simp add: eccnorm_def z_def Let_def)
  have "reduced2 (fp2mul1271 (px P) z)" "reduced2 (fp2mul1271 (py P) z)" using assms z by (simp_all add: reducedPoint_def fp2_ops)
  then show "fval (fst (ax (eccnorm P))) < 2 ^ 127 - 1" "fval (snd (ax (eccnorm P))) < 2 ^ 127 - 1"
    "fval (fst (ay (eccnorm P))) < 2 ^ 127 - 1" "fval (snd (ay (eccnorm P))) < 2 ^ 127 - 1"
    by (simp_all add: e Let_def reduced2_def mod1271_val)
qed

section \<open>Bytes of a signature\<close>

lemma nat_le_nth: "i < n \<Longrightarrow> nat_le n v ! i = of_nat (v div 256 ^ i mod 256)"
proof (induction n arbitrary: i v)
  case (Suc n)
  then show ?case by (cases i) (simp_all add: div_mult2_eq)
qed simp

lemma store_byte: "i < 8 \<Longrightarrow> store_le (w :: u64) ! i = of_nat (unat w div 256 ^ i mod 256)"
  by (simp add: store_le_def nat_le_nth)

lemma byte_masks:
  fixes b :: u8
  shows "unat b < 128 \<Longrightarrow> b AND 0x80 = 0" and "unat b < 64 \<Longrightarrow> b AND 0xC0 = 0"
proof -
  have m: "unat b < 2 ^ n \<Longrightarrow> b AND c = b AND (mask n AND c)" for n c
    by (metis and.assoc take_bit_eq_mask take_bit_nat_eq_self_iff unsigned_take_bit_eq word_unat_eq_iff)
  show "unat b < 128 \<Longrightarrow> b AND 0x80 = 0" using m [of 7 "0x80"] by (simp add: mask_eq_exp_minus_1)
  show "unat b < 64 \<Longrightarrow> b AND 0xC0 = 0" using m [of 6 "0xC0"] by (simp add: mask_eq_exp_minus_1)
qed

lemma length_limbsBytes [simp]: "length (limbsBytes a) = 32"
  by (cases a) (simp add: limbsBytes_def)

lemma bytesLimbs_limbsBytes: "bytesLimbs (limbsBytes a) = a"
  by (cases a) (simp add: limbsBytes_def bytesLimbs_def load_store_le)

lemma limbsBytes_nth:
  "i < 8 \<Longrightarrow> limbsBytes (a0, a1, a2, a3) ! (8 + i) = store_le a1 ! i"
  "i < 8 \<Longrightarrow> limbsBytes (a0, a1, a2, a3) ! (24 + i) = store_le a3 ! i"
  by (simp_all add: limbsBytes_def nth_append)

lemma limbsBytes_low: "unat a1 < 2 ^ 63 \<Longrightarrow> limbsBytes (a0, a1, a2, a3) ! 15 AND 0x80 = 0"
  using limbsBytes_nth(1) [of 7 a0 a1 a2 a3]
  by (simp add: store_byte) (rule byte_masks, simp add: unat_of_nat less_mult_imp_div_less)

lemma limbsBytes_order:
  assumes "val4 a < order"
  shows "limbsBytes a ! 30 AND 0xC0 = 0" and "limbsBytes a ! 31 = 0"
proof -
  obtain a0 a1 a2 a3 where a: "a = (a0, a1, a2, a3)" by (metis prod_cases4)
  have top: "unat a3 < 0x2A000000000000" using assms by (simp add: a order_def)
  have "unat a3 div 256 ^ 6 < 64" "unat a3 div 256 ^ 7 = 0" using top by (simp_all add: less_mult_imp_div_less)
  then have "unat (of_nat (unat a3 div 256 ^ 6 mod 256) :: u8) < 64" "unat a3 div 256 ^ 7 mod 256 = 0" by (simp_all add: unat_of_nat)
  then show "limbsBytes a ! 30 AND 0xC0 = 0" "limbsBytes a ! 31 = 0"
    using limbsBytes_nth(2) [of 6 a0 a1 a2 a3] limbsBytes_nth(2) [of 7 a0 a1 a2 a3] byte_masks(2) by (simp_all add: a store_byte)
qed

text \<open>What encoding into a buffer of its own gives.\<close>

lemma encodePoint_words:
  "encodePoint P = (fst (fst (ay P)), snd (fst (ay P)), fst (snd (ay P)),
     snd (snd (ay P)) OR push_bit 1 ((if fst (ax P) = (0, 0) then snd (snd (ax P)) else snd (fst (ax P))) AND 0x4000000000000000))"
  by (cases "ax P"; cases "fst (ax P)") (simp add: encodePoint_def encode_def copy32_def storePoint_def loadWords_def Let_def)

lemma encodeInPlace_words:
  "encodeInPlace P = (fst (fst (ay P)), snd (fst (ay P)), fst (snd (ay P)),
     snd (snd (ay P)) OR push_bit 1 ((if fst (ay P) = (0, 0) then snd (snd (ax P)) else snd (fst (ax P))) AND 0x4000000000000000))"
  by (cases "ay P"; cases "fst (ay P)") (simp add: encodeInPlace_def encode_def copy32_def storePoint_def loadWords_def Let_def)

lemma high_limb: "fval a < 2 ^ 127 - 1 \<Longrightarrow> unat (snd a) < 2 ^ 63"
  by (simp add: fval_def)

lemma encoded_fixed_low: "limbsBytes (encodePoint (ecc_mul_fixed k)) ! 15 AND 0x80 = 0"
  unfolding encodePoint_words ecc_mul_fixed_def using eccnorm_reduced(3) [OF mulFixed_reduced] by (intro limbsBytes_low high_limb)

section \<open>Decoded points\<close>

lemma validated_on_curve:
  assumes "reduced2 (px P)" and "reduced2 (py P)" and "ecc_point_validate P"
  shows "on_curve (fp2 (px P), fp2 (py P))"
proof -
  have "fval (fst (curveResidue P)) = 0" "fval (snd (curveResidue P)) = 0" using validate_iff assms by blast+
  then have "fp2 (curveResidue P) = 0" by (simp add: fp2_def fp_def zero_gf2_def)
  then show ?thesis using curveResidue_val(2) assms(1,2) by blast
qed

lemma mod1271_reduced: "reduced a \<Longrightarrow> reduced (mod1271 a)"
proof -
  assume "reduced a"
  then have "fval (mod1271 a) = fval a mod (2 ^ 127 - 1)" by (rule mod1271_val)
  then show ?thesis by (simp add: reduced_def less_imp_le)
qed

lemma decodeX_reduced: "reduced2 y \<Longrightarrow> reduced2 (decodeX y)"
proof -
  assume y: "reduced2 y"
  have u: "reduced2 (fp2sub1271 (fp2sqr1271 y) ONE2)" and v: "reduced2 (fp2add1271 (fp2mul1271 (fp2sqr1271 y) PARAMETER_d) ONE2)"
    using y by (simp_all add: fp2_ops reduced2_d reduced2_one)
  show ?thesis
    using u v unfolding decodeX_def Let_def reduced2_def
    by (simp add: field_ops mod1271_reduced fpexp1251_ring fphalf1271_ring split: prod.splits if_splits)
qed

lemma high_of_bytes:
  assumes "length bs = 8" and "bs ! 7 AND 0x80 = 0"
  shows "unat (load_le bs :: u64) < 2 ^ 63"
proof -
  obtain b where b: "bs = take 7 bs @ [b]" "b = bs ! 7" using assms(1) id_take_nth_drop [of 7 bs] by auto
  have small: "unat b < 128"
  proof -
    have all: "(0x7F :: u8) OR 0x80 = - 1" by simp
    have "b = b AND (0x7F OR 0x80)" unfolding all by simp
    also have "\<dots> = (b AND 0x7F) OR (b AND 0x80)" by (rule bit.conj_disj_distrib)
    finally have "b = b AND 0x7F" using assms(2) b(2) by simp
    then have "b = take_bit 7 b" by (simp add: take_bit_eq_mask mask_eq_exp_minus_1)
    then have "unat b = take_bit 7 (unat b)" by (metis unsigned_take_bit_eq)
    then show ?thesis using take_bit_nat_less_exp [of 7 "unat b"] by simp
  qed
  have "le_nat bs = le_nat (take 7 bs) + 256 ^ 7 * unat b" using b(1) assms(1) le_nat_append [of "take 7 bs" "[b]"] by simp
  moreover have "le_nat (take 7 bs) < 256 ^ 7" using le_nat_bound [of "take 7 bs"] assms(1) by simp
  ultimately have "le_nat bs < 2 ^ 63" using small by simp
  then show ?thesis using unat_load_le [of bs, where 'a = 64] assms(1) by simp
qed

lemma decoded_reduced:
  assumes len: "length Pencoded = 32" and clear: "Pencoded ! 15 AND 0x80 = 0"
  shows "reduced2 (ax (snd (decode Pencoded)))" and "reduced2 (ay (snd (decode Pencoded)))"
proof -
  obtain w0 w1 w2 w3 where w: "bytesLimbs Pencoded = (w0, w1, w2, w3)" by (metis prod_cases4)
  define y where "y = ((w0, w1), (w2, w3 AND 0x7FFFFFFFFFFFFFFF))"
  have "unat w1 < 2 ^ 63" using high_of_bytes [of "take 8 (drop 8 Pencoded)"] len clear w by (auto simp: bytesLimbs_def)
  moreover have "unat (w3 AND 0x7FFFFFFFFFFFFFFF) < 2 ^ 63"
  proof -
    have "w3 AND 0x7FFFFFFFFFFFFFFF = take_bit 63 w3" by (simp add: take_bit_eq_mask mask_eq_exp_minus_1)
    then show ?thesis using take_bit_nat_less_exp [of 63 "unat w3"] by (simp add: unsigned_take_bit_eq)
  qed
  ultimately have y: "reduced2 y" unfolding reduced2_def y_def by (auto intro!: reduced_high)
  obtain x0 x1 where x: "decodeX y = (x0, x1)" by (meson surj_pair)
  have red: "reduced x0" "reduced x1" using decodeX_reduced [OF y] by (simp_all add: x reduced2_def)
  have "reduced2 (fp2neg1271 (x0, x1))" "reduced2 (x0, x1)" using red by (simp_all add: reduced2_def fp2neg1271_def field_ops)
  then show "reduced2 (ax (snd (decode Pencoded)))" "reduced2 (ay (snd (decode Pencoded)))"
    using y unfolding decode_def w prod.case Let_def y_def [symmetric] x
    by (simp_all add: point_setup_def reduced2_def field_ops)
qed

lemma decoded_validated: "fst (decode Pencoded) \<longleftrightarrow> ecc_point_validate (point_setup (snd (decode Pencoded)))"
proof -
  obtain V where V: "\<And>R. ecc_point_validate R = V (px R) (py R)"
    by (rule that [of "\<lambda>x y. ecc_point_validate \<lparr>px = x, py = y, pz = x, pta = x, ptb = x\<rparr>"]) (simp add: ecc_point_validate_def)
  obtain w0 w1 w2 w3 where w: "bytesLimbs Pencoded = (w0, w1, w2, w3)" by (metis prod_cases4)
  obtain x0 x1 where x: "decodeX ((w0, w1), (w2, w3 AND 0x7FFFFFFFFFFFFFFF)) = (x0, x1)" by (meson surj_pair)
  show ?thesis unfolding decode_def w prod.case Let_def x V by (simp add: point_setup_def)
qed

lemma decoded_on_curve:
  assumes "length Pencoded = 32" and "Pencoded ! 15 AND 0x80 = 0" and "fst (decode Pencoded)"
  shows "on_curve (fp2 (ax (snd (decode Pencoded))), fp2 (ay (snd (decode Pencoded))))"
  using validated_on_curve [of "point_setup (snd (decode Pencoded))"] decoded_reduced [OF assms(1,2)] decoded_validated assms(3)
  by (simp add: point_setup_def)

text \<open>The recodings never fail, so only the validation of the point decides whether there is a result.\<close>

lemma ecc_mul_double_defined: "(\<exists>B. ecc_mul_double k l A = Some B) \<longleftrightarrow> ecc_point_validate (point_setup A)"
proof -
  obtain ks where "recodeAll 8 (limbList (decompose k)) = Some ks" by (rule recoded_four [of 8 k]) simp_all
  moreover obtain ls where "recodeAll 4 (limbList (decompose l)) = Some ls" by (rule recoded_four [of 4 l]) simp_all
  ultimately show ?thesis by (simp add: ecc_mul_double_def mulDouble_def Let_def)
qed

lemma bit62: "w AND 0x4000000000000000 = 0 \<or> w AND 0x4000000000000000 = (0x4000000000000000 :: u64)"
proof -
  have e: "(0x4000000000000000 :: u64) = 2 ^ 62" by simp
  have "w AND 2 ^ n = (if bit w n then 2 ^ n else 0)" for n by (rule bit_word_eqI) (auto simp: bit_and_iff bit_exp_iff)
  then show ?thesis unfolding e by metis
qed

lemma top_bit:
  assumes "unat (w :: u64) < 2 ^ 63"
  shows "w OR 0x8000000000000000 \<noteq> w" "w \<noteq> w OR 0x8000000000000000"
proof -
  have e: "(0x8000000000000000 :: u64) = 2 ^ 63" by simp
  have "take_bit 63 (unat w) = unat w" using assms by (simp add: take_bit_nat_eq_self_iff)
  then have "take_bit 63 w = w" by (simp add: word_unat_eq_iff unsigned_take_bit_eq)
  then have "\<not> bit w 63" by (metis bit_take_bit_iff less_irrefl)
  moreover have "bit (w OR 2 ^ 63) 63" by (simp add: bit_or_iff bit_exp_iff)
  ultimately show "w OR 0x8000000000000000 \<noteq> w" "w \<noteq> w OR 0x8000000000000000" unfolding e by metis+
qed

section \<open>Properties\<close>

text \<open>
  Claim C26. Signing answers the challenge: let \<open>s\<close> and \<open>h\<close> be the scalar and the challenge as \<open>verify\<close> reads them, \<open>s\<close> from the
  second half of the signature and \<open>h\<close> from the hash of its first half, the public key and the message digest. Then \<open>s\<close> is
  below the order and \<open>s\<close> plus the product of the secret scalar and \<open>h\<close> is the nonce modulo the order. All
  wrap-arounds of the Montgomery conversions, the final subtraction and its correction enter. The claim is on
  the scalars only; that the first half encodes the multiple of the generator by the nonce is left to the multiplication.
\<close>

theorem signWithNonceK_answers_challenge:
  "let sig = signWithNonceK k publicKey messageDigest;
       nonce = bytesLimbs (KangarooTwelve (take 32 (drop 32 k) @ take 32 messageDigest) 64);
       h = bytesLimbs (KangarooTwelve (take 32 sig @ take 32 publicKey @ take 32 messageDigest) 64);
       s = bytesLimbs (drop 32 sig)
   in length sig = 64 \<and> val4 s < order \<and> (val4 s + val4 (bytesLimbs k) * val4 h) mod order = val4 nonce mod order"
  unfolding signWithNonceK_def Let_def by (simp add: signScalar_val bytesLimbs_limbsBytes)

text \<open>
  Claim C27. Every signature and every public key the code produces is well formed: a signature has 64 bytes and passes each of
  the format checks \<open>verify\<close> starts with, and so does a derived public key.
\<close>

theorem signatures_well_formed:
  "length (sign subseed publicKey messageDigest) = 64 \<and>
   sign subseed publicKey messageDigest ! 15 AND 0x80 = 0 \<and>
   sign subseed publicKey messageDigest ! 62 AND 0xC0 = 0 \<and> sign subseed publicKey messageDigest ! 63 = 0 \<and>
   length (getPublicKeyFromPrivateKey privateKey) = 32 \<and> getPublicKeyFromPrivateKey privateKey ! 15 AND 0x80 = 0"
proof -
  define k where "k = KangarooTwelve (take 32 subseed) 64"
  obtain r s where sig: "sign subseed publicKey messageDigest = limbsBytes (encodePoint (ecc_mul_fixed r)) @ limbsBytes s" and s: "val4 s < order"
    unfolding sign_def k_def [symmetric] signWithNonceK_def Let_def using signScalar_val by blast
  show ?thesis
    unfolding sig getPublicKeyFromPrivateKey_def using limbsBytes_order [OF s] encoded_fixed_low by (simp add: nth_append)
qed

text \<open>
  Claim C28. Malformed input is refused: a signature with a format bit set, a public key with its format bit set, or a public key
  that does not decode to a point of the curve is never accepted, whatever the rest of the signature is.
\<close>

theorem verify_refuses_malformed:
  assumes "length publicKey = 32"
    and "publicKey ! 15 AND 0x80 \<noteq> 0 \<or> signature ! 15 AND 0x80 \<noteq> 0 \<or> signature ! 62 AND 0xC0 \<noteq> 0 \<or> signature ! 63 \<noteq> 0 \<or>
      \<not> on_curve (fp2 (ax (snd (decode publicKey))), fp2 (ay (snd (decode publicKey))))"
  shows "\<not> verify publicKey messageDigest signature"
proof
  assume v: "verify publicKey messageDigest signature"
  have "publicKey ! 15 AND 0x80 = 0" and "fst (decode publicKey)"
    using v unfolding verify_def by (auto split: if_splits prod.splits)
  then have "on_curve (fp2 (ax (snd (decode publicKey))), fp2 (ay (snd (decode publicKey))))" using decoded_on_curve assms(1) by blast
  then show False using assms(2) v by (simp add: verify_def split: if_splits)
qed

theorem verify_refuses_malformed_witness:
  "\<not> verify (replicate 32 0xFF) (replicate 32 0) (replicate 64 0)"
  using verify_refuses_malformed [of "replicate 32 0xFF" "replicate 64 0" "replicate 32 0"] by simp

text \<open>
  Claim C32. Encoding a point over itself, as \<open>verify\<close> does, differs from encoding it elsewhere: the copy overwrites \<open>x\<close> before
  the code looks whether its first half is zero, so the test reads the first half of \<open>y\<close> instead. For a
  reduced point both give the same bytes exactly when the two tests agree or the two sign bits do.
\<close>

theorem encode_in_place_iff:
  assumes "unat (snd (snd (ay P))) < 2 ^ 63"
  shows "encodeInPlace P = encodePoint P \<longleftrightarrow>
    (fst (ax P) = (0, 0) \<longleftrightarrow> fst (ay P) = (0, 0)) \<or>
    snd (fst (ax P)) AND 0x4000000000000000 = snd (snd (ax P)) AND 0x4000000000000000"
proof -
  define a b where "a = snd (fst (ax P)) AND 0x4000000000000000" and "b = snd (snd (ax P)) AND 0x4000000000000000"
  have bits: "push_bit 1 ((if c then snd (snd (ax P)) else snd (fst (ax P))) AND 0x4000000000000000) = (if c then push_bit 1 b else push_bit 1 a)" for c
    by (simp add: a_def b_def)
  have ab: "a = 0 \<or> a = 0x4000000000000000" "b = 0 \<or> b = 0x4000000000000000" unfolding a_def b_def by (rule bit62)+
  show ?thesis unfolding encodePoint_words encodeInPlace_words bits a_def [symmetric] b_def [symmetric]
    using ab top_bit [OF assms] by auto
qed

theorem encode_in_place_iff_witness:
  "encodeInPlace \<lparr>ax = ((0, 0), (0, 0x4000000000000000)), ay = ((1, 0), (0, 0))\<rparr> \<noteq>
   encodePoint \<lparr>ax = ((0, 0), (0, 0x4000000000000000)), ay = ((1, 0), (0, 0))\<rparr>"
  using encode_in_place_iff [of "\<lparr>ax = ((0, 0), (0, 0x4000000000000000)), ay = ((1, 0), (0, 0))\<rparr>"] by simp

end
