(* ===== verification/Quorum.thy ===== *)
theory Quorum
  imports EventProcessor Identity
begin

text \<open>
  Ticks and their quorum (\<open>IOProcessor.cpp\<close>): \<open>verifyQuorum\<close> collects the votes of a tick, groups them by
  transaction digest and checks the tick data against the winning digest, and the thread
  \<open>IOVerifyThread\<close> moves from one tick to the next. The key-value server is a parameter: \<open>get\<close> is what
  its get command returns for a key (also \<open>None\<close> when the client throws) and \<open>exists\<close> what its exists
  command returns. A \<open>TickData\<close> is its bytes, since it is copied, hashed and read field by field.
\<close>

section \<open>Stored votes and tick data\<close>

text \<open>\<open>std::to_string\<close> of an unsigned number.\<close>

fun to_string :: "nat \<Rightarrow> string" where
  "to_string n = (if n < 10 then [char_of (n + 48)] else to_string (n div 10) @ [char_of (n mod 10 + 48)])"

declare to_string.simps [simp del]

definition field :: "nat \<Rightarrow> nat \<Rightarrow> u8 list \<Rightarrow> u8 list" where
  "field off n bs = take n (drop off bs)"

definition sizeofTickVote :: nat where
  "sizeofTickVote = 352"

definition decodeTickVote :: "u8 list \<Rightarrow> TickVote" where
  "decodeTickVote bs =
     \<lparr>computorIndex = load_le (field 0 2 bs), voteEpoch = load_le (field 2 2 bs), voteTick = load_le (field 4 4 bs),
      millisecond = load_le (field 8 2 bs), voteTime = field 10 6 bs,
      prevResourceTestingDigest = load_le (field 16 4 bs), saltedResourceTestingDigest = load_le (field 20 4 bs),
      prevTransactionBodyDigest = load_le (field 24 4 bs), saltedTransactionBodyDigest = load_le (field 28 4 bs),
      prevSpectrumDigest = load_le (field 32 32 bs), prevUniverseDigest = load_le (field 64 32 bs),
      prevComputerDigest = load_le (field 96 32 bs), saltedSpectrumDigest = load_le (field 128 32 bs),
      saltedUniverseDigest = load_le (field 160 32 bs), saltedComputerDigest = load_le (field 192 32 bs),
      transactionDigest = load_le (field 224 32 bs), expectedNextTickTransactionDigest = load_le (field 256 32 bs),
      voteSignature = field 288 64 bs\<rparr>"

definition db_get_tick_vote :: "(string \<Rightarrow> u8 list option) \<Rightarrow> u32 \<Rightarrow> u16 \<Rightarrow> TickVote \<Rightarrow> bool \<times> TickVote" where
  "db_get_tick_vote get tick i vote =
     (case get (''tick_vote:'' @ to_string (unat tick) @ '':'' @ to_string (unat i)) of
        None \<Rightarrow> (False, vote)
      | Some val \<Rightarrow> if length val = sizeofTickVote then (True, decodeTickVote val) else (False, vote))"

type_synonym TickData = "u8 list"

definition sizeofTickData :: nat where
  "sizeofTickData = 41072"

definition tdEpoch :: "TickData \<Rightarrow> u16" where
  "tdEpoch td = load_le (field 2 2 td)"

definition tdTick :: "TickData \<Rightarrow> u32" where
  "tdTick td = load_le (field 4 4 td)"

definition tdTransactionDigests :: "TickData \<Rightarrow> nat \<Rightarrow> m256" where
  "tdTransactionDigests td i = load_le (field (48 + 32 * i) 32 td)"

definition db_get_tick_data :: "(string \<Rightarrow> u8 list option) \<Rightarrow> u32 \<Rightarrow> TickData \<Rightarrow> bool \<times> TickData" where
  "db_get_tick_data get tick data =
     (case get (''tick_data:'' @ to_string (unat tick)) of
        None \<Rightarrow> (False, data)
      | Some val \<Rightarrow> if length val \<noteq> sizeofTickData then (False, data) else (True, val))"

definition db_check_transaction_exist :: "(string \<Rightarrow> bool) \<Rightarrow> string \<Rightarrow> bool" where
  "db_check_transaction_exist exists tx_hash = exists (''transaction:'' @ tx_hash)"

section \<open>The quorum of a tick\<close>

record ConsensusData =
  cdPrevResourceTestingDigest :: u32
  cdPrevTransactionBodyDigest :: u32
  cdPrevSpectrumDigest :: m256
  cdPrevUniverseDigest :: m256
  cdPrevComputerDigest :: m256
  cdTransactionDigest :: m256

text \<open>\<open>memcmp (a, b, n) < 0\<close> on two byte strings of the same length.\<close>

fun memcmp_less :: "u8 list \<Rightarrow> u8 list \<Rightarrow> bool" where
  "memcmp_less (a # as) (b # bs) = (if a < b then True else if b < a then False else memcmp_less as bs)"
| "memcmp_less _ _ = False"

definition cd_less :: "ConsensusData \<Rightarrow> ConsensusData \<Rightarrow> bool" where
  "cd_less a b = memcmp_less (m256i_u8 (cdTransactionDigest a)) (m256i_u8 (cdTransactionDigest b))"

text \<open>\<open>digestCount[cd]++\<close> on the ordered map: two keys are the same when neither is less.\<close>

fun bumpCount :: "ConsensusData \<Rightarrow> (ConsensusData \<times> nat) list \<Rightarrow> (ConsensusData \<times> nat) list" where
  "bumpCount cd [] = [(cd, 1)]"
| "bumpCount cd ((k, n) # xs) =
     (if cd_less k cd then (k, n) # bumpCount cd xs
      else if cd_less cd k then (cd, 1) # (k, n) # xs
      else (k, n + 1) # xs)"

definition consensusData :: "TickVote \<Rightarrow> ConsensusData" where
  "consensusData vote =
     \<lparr>cdPrevResourceTestingDigest = prevResourceTestingDigest vote,
      cdPrevTransactionBodyDigest = prevTransactionBodyDigest vote,
      cdPrevSpectrumDigest = prevSpectrumDigest vote, cdPrevUniverseDigest = prevUniverseDigest vote,
      cdPrevComputerDigest = prevComputerDigest vote, cdTransactionDigest = transactionDigest vote\<rparr>"

definition ofTick :: "u32 \<Rightarrow> u16 \<Rightarrow> TickVote \<Rightarrow> bool" where
  "ofTick tick epoch vote \<longleftrightarrow> voteTick vote = tick \<and> voteEpoch vote = epoch"

fun countDigests :: "u32 \<Rightarrow> u16 \<Rightarrow> TickVote list \<Rightarrow> (ConsensusData \<times> nat) list \<Rightarrow> (ConsensusData \<times> nat) list" where
  "countDigests tick epoch [] digestCount = digestCount"
| "countDigests tick epoch (vote # votes) digestCount =
     countDigests tick epoch votes (if ofTick tick epoch vote then bumpCount (consensusData vote) digestCount else digestCount)"

text \<open>The loop over the map, left at the first digest with enough votes.\<close>

fun reachConsensus :: "(ConsensusData \<times> nat) list \<Rightarrow> m256 option" where
  "reachConsensus [] = None"
| "reachConsensus ((k, n) # xs) =
     (if cdTransactionDigest k = 0 \<and> 226 \<le> n then Some (cdTransactionDigest k)
      else if cdTransactionDigest k \<noteq> 0 \<and> 451 \<le> n then Some (cdTransactionDigest k)
      else reachConsensus xs)"

text \<open>The first loop: a slot that holds no vote of the tick is read from the store.\<close>

fun refreshVotes :: "(string \<Rightarrow> u8 list option) \<Rightarrow> u32 \<Rightarrow> nat \<Rightarrow> TickVote list \<Rightarrow> TickVote list" where
  "refreshVotes get tick i [] = []"
| "refreshVotes get tick i (vote # votes) =
     (if voteTick vote \<noteq> tick then snd (db_get_tick_vote get tick (of_nat i) vote) else vote) #
     refreshVotes get tick (Suc i) votes"

definition hashOfDigest :: "m256 \<Rightarrow> string" where
  "hashOfDigest d = getIdentityFromPublicKey (m256i_u8 d) True"

text \<open>
  The second half of \<open>verifyQuorum\<close>: the tick data against a digest that is not empty. The result, the
  tick data, which are a reference of the caller, and whether the stored tick data were deleted.
\<close>

definition checkTickData :: "(string \<Rightarrow> u8 list option) \<Rightarrow> (string \<Rightarrow> bool) \<Rightarrow> u16 \<Rightarrow> u32 \<Rightarrow> m256 \<Rightarrow> TickData \<Rightarrow> bool \<times> TickData \<times> bool" where
  "checkTickData get exists epoch tick maxDigest td =
     (let (found, td) = (if tdTick td \<noteq> tick \<or> tdEpoch td \<noteq> epoch then db_get_tick_data get tick td else (True, td))
      in if \<not> found then (False, td, False)
      else if tdTick td \<noteq> tick \<or> tdEpoch td \<noteq> epoch then (False, td, False)
      else if KangarooTwelve td 32 \<noteq> m256i_u8 maxDigest then (False, td, True)
      else (\<forall>i \<in> set [0..<1024]. tdTransactionDigests td i \<noteq> 0 \<longrightarrow>
              db_check_transaction_exist exists (hashOfDigest (tdTransactionDigests td i)), td, False))"

definition verifyQuorum :: "(string \<Rightarrow> u8 list option) \<Rightarrow> (string \<Rightarrow> bool) \<Rightarrow> u16 \<Rightarrow> u32 \<Rightarrow> TickData \<Rightarrow> TickVote list \<Rightarrow>
    bool \<times> TickData \<times> TickVote list \<times> bool" where
  "verifyQuorum get exists epoch tick td votes =
     (let votes = refreshVotes get tick 0 votes
      in if length (filter (ofTick tick epoch) votes) < 225 then (False, td, votes, False)
      else case reachConsensus (countDigests tick epoch votes []) of
        None \<Rightarrow> (False, td, votes, False)
      | Some maxDigest \<Rightarrow>
          if maxDigest = 0 then (True, td, votes, False)
          else let (ok, td, deleted) = checkTickData get exists epoch tick maxDigest td in (ok, td, votes, deleted))"

section \<open>The verifying thread\<close>

record verifier =
  fetchingTick :: u32
  vTd :: TickData
  vVotes :: "TickVote list"
  latestTick :: u32
  latestEpoch :: u16

text \<open>The script of \<open>db_update_latest_tick_and_epoch\<close>, which the server runs atomically.\<close>

definition db_update_latest_tick_and_epoch :: "u32 \<Rightarrow> u16 \<Rightarrow> verifier \<Rightarrow> verifier" where
  "db_update_latest_tick_and_epoch tick epoch v =
     (if latestTick v < tick then v\<lparr>latestTick := tick, latestEpoch := epoch\<rparr> else v)"

text \<open>One round of the loop; this thread is the only writer of the fetching tick while it runs.\<close>

definition IOVerifyStep :: "(string \<Rightarrow> u8 list option) \<Rightarrow> (string \<Rightarrow> bool) \<Rightarrow> u16 \<Rightarrow> verifier \<Rightarrow> verifier" where
  "IOVerifyStep get exists epoch v =
     (case verifyQuorum get exists epoch (fetchingTick v) (vTd v) (vVotes v) of (ok, td, votes, _) \<Rightarrow>
        let v = v\<lparr>vTd := td, vVotes := votes\<rparr>
        in if \<not> ok then v
        else let current_tick = fetchingTick v;
                 v = db_update_latest_tick_and_epoch current_tick epoch v
             in if current_tick = latestTick v then v\<lparr>fetchingTick := fetchingTick v + 1\<rparr> else v)"

section \<open>The order of the map\<close>

lemma memcmp_irrefl: "\<not> memcmp_less a a"
  by (induction a) auto

lemma memcmp_trans: "memcmp_less a b \<Longrightarrow> memcmp_less b c \<Longrightarrow> memcmp_less a c"
proof (induction a b arbitrary: c rule: memcmp_less.induct)
  case (1 x xs y ys)
  then show ?case by (cases c) (auto split: if_splits)
qed auto

lemma memcmp_total: "length a = length b \<Longrightarrow> a \<noteq> b \<Longrightarrow> memcmp_less a b \<or> memcmp_less b a"
  by (induction a b rule: list_induct2) (auto simp: not_less)

lemma length_m256i_u8 [simp]: "length (m256i_u8 a) = 32"
  by (simp add: m256i_u8_def store_le_def)

lemma m256i_u8_inj: "m256i_u8 a = m256i_u8 b \<longleftrightarrow> a = b"
proof
  assume "m256i_u8 a = m256i_u8 b"
  then have "(load_le (store_le a) :: m256) = load_le (store_le b)" by (simp add: m256i_u8_def)
  then show "a = b" by (simp add: load_store_le)
qed simp

lemma cd_less_cases:
  "\<not> cd_less a b \<Longrightarrow> \<not> cd_less b a \<Longrightarrow> cdTransactionDigest a = cdTransactionDigest b"
  using memcmp_total [of "m256i_u8 (cdTransactionDigest a)" "m256i_u8 (cdTransactionDigest b)"]
  by (auto simp: cd_less_def m256i_u8_inj)

lemma cd_less_digest: "cd_less a b \<Longrightarrow> cdTransactionDigest a \<noteq> cdTransactionDigest b"
  by (auto simp: cd_less_def memcmp_irrefl)

lemma cd_less_trans: "cd_less a b \<Longrightarrow> cd_less b c \<Longrightarrow> cd_less a c"
  unfolding cd_less_def by (rule memcmp_trans)

section \<open>Counting\<close>

definition digestVotes :: "m256 \<Rightarrow> (ConsensusData \<times> nat) list \<Rightarrow> nat" where
  "digestVotes d xs = sum_list (map snd (filter (\<lambda>x. cdTransactionDigest (fst x) = d) xs))"

definition map_ok :: "(ConsensusData \<times> nat) list \<Rightarrow> bool" where
  "map_ok xs \<longleftrightarrow> sorted_wrt (\<lambda>x y. cd_less (fst x) (fst y)) xs"

lemma digestVotes_bump:
  "digestVotes d (bumpCount cd xs) = digestVotes d xs + (if cdTransactionDigest cd = d then 1 else 0)"
proof (induction cd xs rule: bumpCount.induct)
  case (2 cd k n xs)
  then show ?case using cd_less_cases [of k cd] by (auto simp: digestVotes_def)
qed (simp add: digestVotes_def)

lemma bumpCount_above: "x \<in> set (bumpCount cd xs) \<Longrightarrow> cd_less k cd \<Longrightarrow> \<forall>y \<in> set xs. cd_less k (fst y) \<Longrightarrow> cd_less k (fst x)"
  by (induction cd xs rule: bumpCount.induct) (auto split: if_splits)

lemma map_ok_bump: "map_ok xs \<Longrightarrow> map_ok (bumpCount cd xs)"
proof (induction cd xs rule: bumpCount.induct)
  case (2 cd k n xs)
  then show ?case by (auto simp: map_ok_def intro: cd_less_trans bumpCount_above)
qed (simp add: map_ok_def)

lemma digestVotes_entry: "map_ok xs \<Longrightarrow> (k, n) \<in> set xs \<Longrightarrow> digestVotes (cdTransactionDigest k) xs = n"
proof (induction xs)
  case (Cons x xs)
  show ?case
  proof (cases "x = (k, n)")
    case True
    then have "\<forall>y \<in> set xs. cdTransactionDigest (fst y) \<noteq> cdTransactionDigest k"
      using Cons.prems(1) by (auto simp: map_ok_def dest!: bspec dest: cd_less_digest)
    then have "filter (\<lambda>x. cdTransactionDigest (fst x) = cdTransactionDigest k) xs = []" by (simp add: filter_empty_conv)
    then show ?thesis by (simp add: digestVotes_def True)
  next
    case False
    then have mem: "(k, n) \<in> set xs" using Cons.prems(2) by simp
    then have "cdTransactionDigest (fst x) \<noteq> cdTransactionDigest k"
      using Cons.prems(1) by (auto simp: map_ok_def dest!: bspec dest: cd_less_digest)
    then show ?thesis using Cons mem by (simp add: digestVotes_def map_ok_def)
  qed
qed simp

definition votesFor :: "u32 \<Rightarrow> u16 \<Rightarrow> TickVote list \<Rightarrow> m256 \<Rightarrow> nat" where
  "votesFor tick epoch votes d = length (filter (\<lambda>v. ofTick tick epoch v \<and> transactionDigest v = d) votes)"

definition quorumOf :: "u32 \<Rightarrow> u16 \<Rightarrow> TickVote list \<Rightarrow> m256 \<Rightarrow> bool" where
  "quorumOf tick epoch votes d \<longleftrightarrow> (if d = 0 then 226 else 451) \<le> votesFor tick epoch votes d"

lemma map_ok_count: "map_ok m \<Longrightarrow> map_ok (countDigests tick epoch votes m)"
  by (induction votes arbitrary: m) (auto intro: map_ok_bump)

lemma digestVotes_count:
  "digestVotes d (countDigests tick epoch votes m) = digestVotes d m + votesFor tick epoch votes d"
  by (induction votes arbitrary: m) (auto simp: votesFor_def digestVotes_bump consensusData_def)

lemma filter_disjoint_length:
  "(\<And>x. \<not> (P x \<and> Q x)) \<Longrightarrow> length (filter P xs) + length (filter Q xs) \<le> length xs"
proof (induction xs)
  case (Cons x xs)
  then show ?case using Cons.prems [of x] by auto
qed simp

lemma quorum_unique:
  assumes "length votes \<le> 676" and "quorumOf tick epoch votes d" and "quorumOf tick epoch votes e"
  shows "d = e"
proof (rule ccontr)
  assume "d \<noteq> e"
  then have "votesFor tick epoch votes d + votesFor tick epoch votes e \<le> length votes"
    unfolding votesFor_def by (intro filter_disjoint_length) auto
  then show False using assms \<open>d \<noteq> e\<close> by (auto simp: quorumOf_def split: if_splits)
qed

lemma reach_sound: "reachConsensus xs = Some d \<Longrightarrow> \<exists>k n. (k, n) \<in> set xs \<and> cdTransactionDigest k = d \<and> (if d = 0 then 226 else 451) \<le> n"
  by (induction xs rule: reachConsensus.induct) (auto split: if_splits)

lemma reach_complete: "(k, n) \<in> set xs \<Longrightarrow> (if cdTransactionDigest k = 0 then 226 else 451) \<le> n \<Longrightarrow> reachConsensus xs \<noteq> None"
  by (induction xs rule: reachConsensus.induct) (auto split: if_splits)

lemma digestVotes_pos: "0 < digestVotes d xs \<Longrightarrow> \<exists>k n. (k, n) \<in> set xs \<and> cdTransactionDigest k = d"
proof -
  assume "0 < digestVotes d xs"
  then have "filter (\<lambda>x. cdTransactionDigest (fst x) = d) xs \<noteq> []" by (auto simp: digestVotes_def)
  then show ?thesis by (force simp: filter_empty_conv)
qed

lemma reach_iff_quorum:
  assumes "length votes \<le> 676"
  shows "reachConsensus (countDigests tick epoch votes []) = Some d \<longleftrightarrow> quorumOf tick epoch votes d"
proof -
  let ?m = "countDigests tick epoch votes []"
  have ok: "map_ok ?m" by (rule map_ok_count) (simp add: map_ok_def)
  have cnt: "digestVotes e ?m = votesFor tick epoch votes e" for e by (simp add: digestVotes_count) (simp add: digestVotes_def)
  have sound: "quorumOf tick epoch votes e" if "reachConsensus ?m = Some e" for e
  proof -
    obtain k n where k: "(k, n) \<in> set ?m" "cdTransactionDigest k = e" "(if e = 0 then 226 else 451) \<le> n"
      using reach_sound [OF \<open>reachConsensus ?m = Some e\<close>] by blast
    then show ?thesis using digestVotes_entry [OF ok k(1)] cnt by (simp add: quorumOf_def)
  qed
  show ?thesis
  proof
    assume q: "quorumOf tick epoch votes d"
    then have "0 < digestVotes d ?m" by (auto simp: cnt quorumOf_def split: if_splits)
    then obtain k n where k: "(k, n) \<in> set ?m" "cdTransactionDigest k = d" using digestVotes_pos by blast
    then have "(if cdTransactionDigest k = 0 then 226 else 451) \<le> n" using digestVotes_entry [OF ok k(1)] cnt q by (simp add: quorumOf_def)
    then obtain e where e: "reachConsensus ?m = Some e" using reach_complete [OF k(1)] by blast
    then show "reachConsensus ?m = Some d" using quorum_unique [OF assms sound [OF e] q] by simp
  qed (rule sound)
qed

section \<open>What the verification decides\<close>

lemma length_refreshVotes [simp]: "length (refreshVotes get tick i votes) = length votes"
  by (induction votes arbitrary: i) auto

definition confirmedBy :: "(string \<Rightarrow> bool) \<Rightarrow> u32 \<Rightarrow> u16 \<Rightarrow> m256 \<Rightarrow> TickData \<Rightarrow> bool" where
  "confirmedBy exists tick epoch d td \<longleftrightarrow> tdTick td = tick \<and> tdEpoch td = epoch \<and> KangarooTwelve td 32 = m256i_u8 d \<and>
     (\<forall>i < 1024. tdTransactionDigests td i \<noteq> 0 \<longrightarrow> exists (''transaction:'' @ hashOfDigest (tdTransactionDigests td i)))"

lemma quorum_enough_votes:
  assumes "quorumOf tick epoch votes d"
  shows "\<not> length (filter (ofTick tick epoch) votes) < 225"
proof -
  have "votesFor tick epoch votes d \<le> length (filter (ofTick tick epoch) votes)"
    unfolding votesFor_def by (induction votes) auto
  then show ?thesis using assms by (auto simp: quorumOf_def split: if_splits)
qed

lemma checkTickData_cases:
  assumes "checkTickData get exists epoch tick d td = (ok, td', deleted)"
  shows "ok \<longleftrightarrow> confirmedBy exists tick epoch d td'"
    and "deleted \<longleftrightarrow> tdTick td' = tick \<and> tdEpoch td' = epoch \<and> KangarooTwelve td' 32 \<noteq> m256i_u8 d"
    and "tdTick td = tick \<Longrightarrow> tdEpoch td = epoch \<Longrightarrow> td' = td"
proof -
  obtain found t where f: "(if tdTick td \<noteq> tick \<or> tdEpoch td \<noteq> epoch then db_get_tick_data get tick td else (True, td)) = (found, t)"
    by (meson surj_pair)
  have miss: "tdTick t \<noteq> tick \<or> tdEpoch t \<noteq> epoch" if "\<not> found"
    using that f by (auto simp: db_get_tick_data_def split: if_splits option.splits)
  have R: "(if \<not> found then (False, t, False)
      else if tdTick t \<noteq> tick \<or> tdEpoch t \<noteq> epoch then (False, t, False)
      else if KangarooTwelve t 32 \<noteq> m256i_u8 d then (False, t, True)
      else (\<forall>i \<in> set [0..<1024]. tdTransactionDigests t i \<noteq> 0 \<longrightarrow>
              db_check_transaction_exist exists (hashOfDigest (tdTransactionDigests t i)), t, False)) = (ok, td', deleted)"
    using assms unfolding checkTickData_def f by simp
  then have t: "td' = t" by (auto split: if_splits)
  show "ok \<longleftrightarrow> confirmedBy exists tick epoch d td'"
    using R miss by (auto simp: t confirmedBy_def db_check_transaction_exist_def split: if_splits)
  show "deleted \<longleftrightarrow> tdTick td' = tick \<and> tdEpoch td' = epoch \<and> KangarooTwelve td' 32 \<noteq> m256i_u8 d"
    using R miss by (auto simp: t split: if_splits)
  show "tdTick td = tick \<Longrightarrow> tdEpoch td = epoch \<Longrightarrow> td' = td" using f by (simp add: t)
qed

lemma verifyQuorum_cases:
  assumes len: "length votes = 676" and res: "verifyQuorum get exists epoch tick td votes = (ok, td', votes', deleted)"
  shows "votes' = refreshVotes get tick 0 votes"
    and "quorumOf tick epoch votes' 0 \<Longrightarrow> ok \<and> td' = td \<and> \<not> deleted"
    and "quorumOf tick epoch votes' d \<Longrightarrow> d \<noteq> 0 \<Longrightarrow> (ok \<longleftrightarrow> confirmedBy exists tick epoch d td') \<and>
      (deleted \<longleftrightarrow> tdTick td' = tick \<and> tdEpoch td' = epoch \<and> KangarooTwelve td' 32 \<noteq> m256i_u8 d) \<and>
      (tdTick td = tick \<and> tdEpoch td = epoch \<longrightarrow> td' = td)"
    and "(\<And>d. \<not> quorumOf tick epoch votes' d) \<Longrightarrow> \<not> ok \<and> \<not> deleted"
proof -
  show v: "votes' = refreshVotes get tick 0 votes"
    using res by (auto simp: verifyQuorum_def Let_def split: if_splits option.splits prod.splits)
  have R: "reachConsensus (countDigests tick epoch votes' []) = Some e \<longleftrightarrow> quorumOf tick epoch votes' e" for e
    by (rule reach_iff_quorum) (simp add: v len)
  show "ok \<and> td' = td \<and> \<not> deleted" if q: "quorumOf tick epoch votes' 0"
    using res quorum_enough_votes [OF q] R [of 0] q by (simp add: verifyQuorum_def v)
  show "(ok \<longleftrightarrow> confirmedBy exists tick epoch d td') \<and>
      (deleted \<longleftrightarrow> tdTick td' = tick \<and> tdEpoch td' = epoch \<and> KangarooTwelve td' 32 \<noteq> m256i_u8 d) \<and>
      (tdTick td = tick \<and> tdEpoch td = epoch \<longrightarrow> td' = td)" if q: "quorumOf tick epoch votes' d" "d \<noteq> 0"
  proof -
    have "checkTickData get exists epoch tick d td = (ok, td', deleted)"
      using res quorum_enough_votes [OF q(1)] R [of d] q by (auto simp: verifyQuorum_def Let_def v split: prod.splits)
    from checkTickData_cases [OF this] show ?thesis by blast
  qed
  show "\<not> ok \<and> \<not> deleted" if "\<And>d. \<not> quorumOf tick epoch votes' d"
  proof -
    have "reachConsensus (countDigests tick epoch votes' []) = None" using R that by (cases "reachConsensus (countDigests tick epoch votes' [])") auto
    then show ?thesis using res by (auto simp: verifyQuorum_def Let_def v split: if_splits)
  qed
qed

text \<open>
  Claim C4. What \<open>verifyQuorum\<close> accepts. With one slot for each of the 676 computors at most one
  transaction digest can have a quorum, 226 votes of the tick and epoch for the empty digest and 451
  for any other, so the order in which the map is searched does not matter; and the tick is accepted exactly
  when the empty digest has its quorum, or another digest has it, the tick data are of the tick and
  epoch and hash to that digest, and every transaction they list is stored.
\<close>

theorem verifyQuorum_accepts_iff:
  assumes "length votes = 676" and "verifyQuorum get exists epoch tick td votes = (ok, td', votes', deleted)"
  shows "(ok \<longleftrightarrow> (\<exists>d. quorumOf tick epoch votes' d \<and> (d = 0 \<or> confirmedBy exists tick epoch d td'))) \<and>
    (\<forall>d e. quorumOf tick epoch votes' d \<and> quorumOf tick epoch votes' e \<longrightarrow> d = e) \<and>
    votes' = refreshVotes get tick 0 votes"
proof -
  note C = verifyQuorum_cases [OF assms]
  have "length votes' \<le> 676" using C(1) assms(1) by simp
  then show ?thesis using C quorum_unique [of votes' tick epoch] by blast
qed

lemma refresh_current: "\<forall>v \<in> set votes. voteTick v = tick \<Longrightarrow> refreshVotes get tick i votes = votes"
  by (induction votes arbitrary: i) auto

definition tickVote :: "u16 \<Rightarrow> u32 \<Rightarrow> m256 \<Rightarrow> TickVote" where
  "tickVote epoch tick d = (decodeTickVote [])\<lparr>voteEpoch := epoch, voteTick := tick, transactionDigest := d\<rparr>"

lemma unanimous_quorum: "quorumOf tick epoch (replicate 676 (tickVote epoch tick d)) d"
  by (simp add: quorumOf_def votesFor_def ofTick_def tickVote_def filter_replicate)

lemma unanimous_votes: "refreshVotes get tick i (replicate n (tickVote epoch tick d)) = replicate n (tickVote epoch tick d)"
  by (rule refresh_current) (simp add: tickVote_def)

theorem verifyQuorum_accepts_iff_witness:
  "\<exists>td. verifyQuorum (\<lambda>_. None) (\<lambda>_. False) 9 5 [] (replicate 676 (tickVote 9 5 0)) = (True, td, replicate 676 (tickVote 9 5 0), False)"
proof -
  obtain ok td votes deleted where
    res: "verifyQuorum (\<lambda>_. None) (\<lambda>_. False) 9 5 [] (replicate 676 (tickVote 9 5 0)) = (ok, td, votes, deleted)"
    by (metis surj_pair)
  note A = verifyQuorum_accepts_iff [OF length_replicate res]
  have votes: "votes = replicate 676 (tickVote 9 5 0)" using A by (simp only: unanimous_votes)
  have "quorumOf 5 9 votes 0" unfolding votes by (rule unanimous_quorum)
  then have "ok" using A by blast
  moreover have "\<not> deleted" using verifyQuorum_cases(2) [OF length_replicate res] \<open>quorumOf 5 9 votes 0\<close> by blast
  ultimately show ?thesis using res votes by simp
qed

section \<open>A mismatch is not recovered from\<close>

lemma votesFor_refresh: "votesFor tick epoch votes d \<le> votesFor tick epoch (refreshVotes get tick i votes) d"
proof (induction votes arbitrary: i)
  case (Cons v votes)
  have split: "votesFor tick epoch (x # xs) d = (if ofTick tick epoch x \<and> transactionDigest x = d then 1 else 0) + votesFor tick epoch xs d" for x xs
    by (simp add: votesFor_def)
  show ?case using Cons [of "Suc i"] by (auto simp: split ofTick_def intro: le_SucI)
qed (simp add: votesFor_def)

definition mismatched :: "u16 \<Rightarrow> u32 \<Rightarrow> verifier \<Rightarrow> bool" where
  "mismatched epoch tick v \<longleftrightarrow> fetchingTick v = tick \<and> length (vVotes v) = 676 \<and> tdTick (vTd v) = tick \<and> tdEpoch (vTd v) = epoch \<and>
     (\<exists>d. d \<noteq> 0 \<and> quorumOf tick epoch (vVotes v) d \<and> KangarooTwelve (vTd v) 32 \<noteq> m256i_u8 d)"

lemma mismatched_verify:
  assumes m: "mismatched epoch tick v"
  shows "verifyQuorum get exists epoch tick (vTd v) (vVotes v) = (False, vTd v, refreshVotes get tick 0 (vVotes v), True)"
    and "mismatched epoch tick (v\<lparr>vVotes := refreshVotes get tick 0 (vVotes v)\<rparr>)"
proof -
  obtain ok td votes deleted where res: "verifyQuorum get exists epoch tick (vTd v) (vVotes v) = (ok, td, votes, deleted)"
    by (metis surj_pair)
  obtain d where d: "d \<noteq> 0" "quorumOf tick epoch (vVotes v) d" "KangarooTwelve (vTd v) 32 \<noteq> m256i_u8 d"
    and len: "length (vVotes v) = 676" and td: "tdTick (vTd v) = tick" "tdEpoch (vTd v) = epoch"
    using m by (auto simp: mismatched_def)
  note C = verifyQuorum_cases [OF len res]
  have q: "quorumOf tick epoch votes d" using d(2) votesFor_refresh [of tick epoch "vVotes v" d get 0] by (simp add: C(1) quorumOf_def d(1))
  then have "\<not> ok" "deleted" "td = vTd v" using C(3) [OF q d(1)] d(3) td by (auto simp: confirmedBy_def)
  then show "verifyQuorum get exists epoch tick (vTd v) (vVotes v) = (False, vTd v, refreshVotes get tick 0 (vVotes v), True)"
    using res C(1) by simp
  show "mismatched epoch tick (v\<lparr>vVotes := refreshVotes get tick 0 (vVotes v)\<rparr>)"
    using m q d C(1) by (auto simp: mismatched_def)
qed

lemma mismatched_step:
  assumes "mismatched epoch tick v"
  shows "mismatched epoch tick (IOVerifyStep get exists epoch v)"
proof -
  have "fetchingTick v = tick" using assms by (simp add: mismatched_def)
  then show ?thesis using mismatched_verify(1) [OF assms, of get exists] mismatched_verify(2) [OF assms, of get] by (simp add: IOVerifyStep_def)
qed

text \<open>The rounds of the thread, each on what the store answers at that time.\<close>

primrec IOVerifyRun :: "u16 \<Rightarrow> ((string \<Rightarrow> u8 list option) \<times> (string \<Rightarrow> bool)) list \<Rightarrow> verifier \<Rightarrow> verifier" where
  "IOVerifyRun epoch [] v = v"
| "IOVerifyRun epoch (s # stores) v = IOVerifyRun epoch stores (IOVerifyStep (fst s) (snd s) epoch v)"

lemma mismatched_run: "mismatched epoch tick v \<Longrightarrow> mismatched epoch tick (IOVerifyRun epoch stores v)"
  by (induction stores arbitrary: v) (auto intro: mismatched_step)

lemma deleted_mismatched:
  assumes "length (vVotes v) = 676" and "verifyQuorum get exists epoch (fetchingTick v) (vTd v) (vVotes v) = (ok, td, votes, True)"
  shows "mismatched epoch (fetchingTick v) (v\<lparr>vTd := td, vVotes := votes\<rparr>)" and "\<not> ok"
proof -
  note C = verifyQuorum_cases [OF assms]
  obtain d where d: "quorumOf (fetchingTick v) epoch votes d" "d \<noteq> 0" using C(2,4) by auto
  from C(3) [OF d] C(1) assms(1) d show "mismatched epoch (fetchingTick v) (v\<lparr>vTd := td, vVotes := votes\<rparr>)" "\<not> ok"
    by (auto simp: mismatched_def confirmedBy_def)
qed

text \<open>
  Claim C38. A mismatch is not recovered from. Once \<open>verifyQuorum\<close> has found the tick data to differ from
  the digest the quorum voted for and has deleted them from the store, the copy it holds still counts as that of
  the tick: in every later round, whatever the store answers by then, the verification fails and deletes
  the stored tick data again, and the thread stays at this tick.
\<close>

theorem verifier_stuck_after_mismatch:
  assumes "length (vVotes v) = 676" and "verifyQuorum get exists epoch (fetchingTick v) (vTd v) (vVotes v) = (ok, td, votes, True)"
    and "w = IOVerifyRun epoch stores (IOVerifyStep get exists epoch v)"
  shows "fetchingTick w = fetchingTick v \<and>
    (\<forall>get' exists'. \<exists>votes'. verifyQuorum get' exists' epoch (fetchingTick v) (vTd w) (vVotes w) = (False, vTd w, votes', True))"
proof -
  have "mismatched epoch (fetchingTick v) (IOVerifyStep get exists epoch v)"
    using deleted_mismatched [OF assms(1,2)] assms(2) by (simp add: IOVerifyStep_def)
  then have "mismatched epoch (fetchingTick v) w" unfolding assms(3) by (rule mismatched_run)
  then show ?thesis using mismatched_verify(1) [of epoch "fetchingTick v" w] by (auto simp: mismatched_def)
qed

definition demoVerifier :: "m256 \<Rightarrow> verifier" where
  "demoVerifier d = \<lparr>fetchingTick = 5, vTd = [0, 0, 9, 0, 5, 0, 0, 0] @ replicate 41064 0,
     vVotes = replicate 676 (tickVote 9 5 d), latestTick = 4, latestEpoch = 9\<rparr>"

lemma demo_mismatched: "\<exists>d. mismatched 9 5 (demoVerifier d)"
proof -
  have td: "tdTick (vTd (demoVerifier d)) = 5" "tdEpoch (vTd (demoVerifier d)) = 9" for d
    by (simp_all add: tdTick_def tdEpoch_def demoVerifier_def field_def load_le_def)
  obtain d :: m256 where d: "d \<in> {1, 2}" "KangarooTwelve (vTd (demoVerifier 1)) 32 \<noteq> m256i_u8 d"
  proof (cases "KangarooTwelve (vTd (demoVerifier 1)) 32 = m256i_u8 1")
    case True
    have "m256i_u8 1 \<noteq> m256i_u8 2" unfolding m256i_u8_inj by simp
    with True that [of 2] show ?thesis by simp
  next
    case False
    with that [of 1] show ?thesis by simp
  qed
  have "vTd (demoVerifier d) = vTd (demoVerifier 1)" by (simp add: demoVerifier_def)
  then have "KangarooTwelve (vTd (demoVerifier d)) 32 \<noteq> m256i_u8 d" using d(2) by simp
  moreover have "d \<noteq> 0" using d(1) by auto
  moreover have "fetchingTick (demoVerifier d) = 5" "vVotes (demoVerifier d) = replicate 676 (tickVote 9 5 d)" by (simp_all add: demoVerifier_def)
  ultimately have "mismatched 9 5 (demoVerifier d)" unfolding mismatched_def using td unanimous_quorum [of 5 9 d] by auto
  then show ?thesis by blast
qed

theorem verifier_stuck_after_mismatch_witness:
  "\<exists>d. fetchingTick (IOVerifyRun 9 [(\<lambda>_. None, \<lambda>_. True)] (IOVerifyStep (\<lambda>_. None) (\<lambda>_. True) 9 (demoVerifier d))) = 5"
proof -
  obtain d where m: "mismatched 9 5 (demoVerifier d)" using demo_mismatched by blast
  have "length (vVotes (demoVerifier d)) = 676" "fetchingTick (demoVerifier d) = 5" by (simp_all add: demoVerifier_def)
  then show ?thesis using verifier_stuck_after_mismatch [OF _ _ refl, of "demoVerifier d" "\<lambda>_. None" "\<lambda>_. True" 9]
      mismatched_verify(1) [OF m] by metis
qed

end
