(* ===== verification/Packets.thy ===== *)
theory Packets
  imports BobPrelude
begin

text \<open>
  Packets between nodes: the header of \<open>structs.h\<close>, the ring buffer \<open>MutexRoundBuffer\<close> of
  \<open>SpecialBufferStructs.h\<close> that queues whole packets between threads, and the request map of
  \<open>RequestMap.h\<close>. Every method of the buffer and of the map runs under its mutex, so a run of several
  threads is a sequence of these operations; a wait on a condition variable is an operation that is
  not enabled.
\<close>

section \<open>The packet header\<close>

record RequestResponseHeader =
  hsize :: "u8 list"
  htype :: u8
  hdejavu :: u32

definition HeaderSize :: nat where
  "HeaderSize = 8"

definition INT32_MAX :: u32 where
  "INT32_MAX = 0x7FFFFFFF"

text \<open>The size is read as a 32-bit word over the size bytes and the type byte.\<close>

definition sizeWord :: "RequestResponseHeader \<Rightarrow> u32" where
  "sizeWord h = load_le (hsize h @ [htype h]) AND 0xFFFFFF"

definition header_size :: "RequestResponseHeader \<Rightarrow> u32" where
  "header_size h = (if sizeWord h = 0 then INT32_MAX else sizeWord h)"

definition setSize :: "u32 \<Rightarrow> RequestResponseHeader \<Rightarrow> RequestResponseHeader" where
  "setSize n h = h\<lparr>hsize := [ucast n, ucast (drop_bit 8 n), ucast (drop_bit 16 n)]\<rparr>"

definition isDejavuZero :: "RequestResponseHeader \<Rightarrow> bool" where
  "isDejavuZero h \<longleftrightarrow> hdejavu h = 0"

definition zeroDejavu :: "RequestResponseHeader \<Rightarrow> RequestResponseHeader" where
  "zeroDejavu h = h\<lparr>hdejavu := 0\<rparr>"

text \<open>The random number is an argument.\<close>

definition randomizeDejavu :: "u32 \<Rightarrow> RequestResponseHeader \<Rightarrow> RequestResponseHeader" where
  "randomizeDejavu r h = h\<lparr>hdejavu := (if r = 0 then 1 else r)\<rparr>"

definition setDejavu :: "u32 \<Rightarrow> RequestResponseHeader \<Rightarrow> RequestResponseHeader" where
  "setDejavu d h = h\<lparr>hdejavu := d\<rparr>"

definition setType :: "u8 \<Rightarrow> RequestResponseHeader \<Rightarrow> RequestResponseHeader" where
  "setType t h = h\<lparr>htype := t\<rparr>"

definition checkPayloadSize :: "u32 \<Rightarrow> RequestResponseHeader \<Rightarrow> bool" where
  "checkPayloadSize expected h \<longleftrightarrow> unat (header_size h) = (unat expected + HeaderSize) mod 2 ^ 64"

definition checkPayloadSizeMinMax :: "u32 \<Rightarrow> u32 \<Rightarrow> RequestResponseHeader \<Rightarrow> bool" where
  "checkPayloadSizeMinMax lo hi h \<longleftrightarrow> unat lo + HeaderSize \<le> unat (header_size h) \<and> unat (header_size h) \<le> unat hi + HeaderSize"

definition getPayloadSize :: "RequestResponseHeader \<Rightarrow> u32" where
  "getPayloadSize h = header_size h - of_nat HeaderSize"

text \<open>The header at the front of some bytes, and its bytes.\<close>

definition readHeader :: "u8 list \<Rightarrow> RequestResponseHeader" where
  "readHeader bs = \<lparr>hsize = take 3 bs, htype = bs ! 3, hdejavu = load_le (take 4 (drop 4 bs))\<rparr>"

definition headerBytes :: "RequestResponseHeader \<Rightarrow> u8 list" where
  "headerBytes h = hsize h @ [htype h] @ store_le (hdejavu h)"

section \<open>The ring buffer\<close>

record MutexRoundBuffer =
  buffer :: "u8 list"
  capacity :: nat
  used :: nat
  head :: nat
  tail :: nat

definition newRoundBuffer :: "nat \<Rightarrow> MutexRoundBuffer" where
  "newRoundBuffer cap = \<lparr>buffer = replicate cap 0, capacity = cap, used = 0, head = 0, tail = 0\<rparr>"

text \<open>\<open>memcpy\<close> into the buffer at an offset.\<close>

definition copyIn :: "nat \<Rightarrow> u8 list \<Rightarrow> u8 list \<Rightarrow> u8 list" where
  "copyIn at src dst = take at dst @ src @ drop (at + length src) dst"

text \<open>
  The caller's pointer is \<open>None\<close> when null and otherwise the bytes there, at least the declared packet.
  The result \<open>None\<close> is the wait for space.
\<close>

definition EnqueuePacket :: "u8 list option \<Rightarrow> MutexRoundBuffer \<Rightarrow> (bool \<times> MutexRoundBuffer) option" where
  "EnqueuePacket p b = (case p of None \<Rightarrow> Some (False, b) | Some ptr \<Rightarrow>
     (let packet_size = unat (header_size (readHeader (take HeaderSize ptr)))
      in if packet_size > capacity b then Some (False, b)
      else if \<not> packet_size \<le> capacity b - used b then None
      else let buf = (if tail b + packet_size \<le> capacity b
                      then copyIn (tail b) (take packet_size ptr) (buffer b)
                      else let first_chunk_size = capacity b - tail b
                           in copyIn 0 (take (packet_size - first_chunk_size) (drop first_chunk_size ptr))
                                (copyIn (tail b) (take first_chunk_size ptr) (buffer b)))
      in Some (True, b\<lparr>buffer := buf, tail := (tail b + packet_size) mod capacity b, used := used b + packet_size\<rparr>)))"

definition peek_data :: "nat \<Rightarrow> MutexRoundBuffer \<Rightarrow> u8 list" where
  "peek_data len b =
     (if head b + len \<le> capacity b then take len (drop (head b) (buffer b))
      else let first_chunk = capacity b - head b
           in take first_chunk (drop (head b) (buffer b)) @ take (len - first_chunk) (buffer b))"

text \<open>The copy out of the buffer and the update of the positions, shared by both ways to get a packet.\<close>

definition takePacket :: "nat \<Rightarrow> MutexRoundBuffer \<Rightarrow> u8 list \<times> MutexRoundBuffer" where
  "takePacket packet_size b =
     ((if head b + packet_size \<le> capacity b then take packet_size (drop (head b) (buffer b))
       else let first_chunk_size = capacity b - head b
            in take first_chunk_size (drop (head b) (buffer b)) @ take (packet_size - first_chunk_size) (buffer b)),
      b\<lparr>head := (head b + packet_size) mod capacity b, used := used b - packet_size\<rparr>)"

text \<open>
  \<open>GetPacket\<close> waits twice: for a header, and for the whole packet. The result \<open>None\<close> is either wait. The
  argument says whether the output pointer is not null; the inner \<open>None\<close> is the return value false.
\<close>

definition GetPacket :: "bool \<Rightarrow> MutexRoundBuffer \<Rightarrow> (u8 list option \<times> MutexRoundBuffer) option" where
  "GetPacket out_ptr b =
     (if \<not> out_ptr then Some (None, b)
      else if \<not> HeaderSize \<le> used b then None
      else let packet_size = unat (header_size (readHeader (peek_data HeaderSize b)))
      in if \<not> packet_size \<le> used b then None
      else let (out, b') = takePacket packet_size b in Some (Some out, b'))"

definition TryGetPacket :: "bool \<Rightarrow> MutexRoundBuffer \<Rightarrow> u8 list option \<times> MutexRoundBuffer" where
  "TryGetPacket out_ptr b =
     (if \<not> out_ptr then (None, b)
      else if used b < HeaderSize then (None, b)
      else let packet_size = unat (header_size (readHeader (peek_data HeaderSize b)))
      in if used b < packet_size then (None, b)
      else let (out, b') = takePacket packet_size b in (Some out, b'))"

section \<open>The request map\<close>

record 'conn RequestedData =
  timestamp :: u64
  conn :: 'conn
  payload :: "u8 list"

type_synonym 'conn RequestMap = "u32 \<rightharpoonup> 'conn RequestedData"

definition requestAdd :: "u64 \<Rightarrow> u32 \<Rightarrow> u8 list option \<Rightarrow> int \<Rightarrow> 'conn \<Rightarrow> 'conn RequestMap \<Rightarrow> 'conn RequestMap" where
  "requestAdd now dejavu p sz c mem =
     mem(dejavu \<mapsto> \<lparr>timestamp = now, conn = c,
       payload = (case p of None \<Rightarrow> [] | Some ptr \<Rightarrow> if sz > 0 then take (nat sz) ptr else [])\<rparr>)"

definition requestGet :: "u32 \<Rightarrow> 'conn RequestMap \<Rightarrow> (u8 list \<times> 'conn) option" where
  "requestGet dejavu mem = map_option (\<lambda>rd. (payload rd, conn rd)) (mem dejavu)"

definition requestExpired :: "u64 \<Rightarrow> u32 \<Rightarrow> 'conn RequestedData \<Rightarrow> bool" where
  "requestExpired now period rd \<longleftrightarrow>
     (let age = (if timestamp rd \<le> now then now - timestamp rd else 0) in unat period < unat age)"

definition requestClean :: "u64 \<Rightarrow> u32 \<Rightarrow> 'conn RequestMap \<Rightarrow> 'conn RequestMap" where
  "requestClean now period mem =
     (\<lambda>k. case mem k of None \<Rightarrow> None | Some rd \<Rightarrow> if requestExpired now period rd then None else Some rd)"

section \<open>Headers\<close>

definition header_ok :: "RequestResponseHeader \<Rightarrow> bool" where
  "header_ok h \<longleftrightarrow> length (hsize h) = 3"

lemma le_nat_size: "header_ok h \<Longrightarrow> le_nat (hsize h) < 2 ^ 24"
  using le_nat_bound [of "hsize h"] by (simp add: header_ok_def)

lemma sizeWord_le:
  assumes "header_ok h"
  shows "sizeWord h = of_nat (le_nat (hsize h))"
proof -
  have "hsize h = nat_le 3 (le_nat (hsize h))" using nat_le_le_nat [of "hsize h"] assms by (simp add: header_ok_def)
  then show ?thesis
    using combo_split(2) [OF le_nat_size [OF assms], of "htype h"] by (simp add: sizeWord_def)
qed

lemma unat_sizeWord: "header_ok h \<Longrightarrow> unat (sizeWord h) = le_nat (hsize h)"
  using le_nat_size [of h] by (simp add: sizeWord_le unat_of_nat)

lemma setSize_bytes: "hsize (setSize n h) = nat_le 3 (unat n)"
proof -
  have byte: "(ucast w :: u8) = of_nat (unat w mod 256)" for w :: u32
    by (simp add: word_unat_eq_iff unsigned_ucast_eq unat_of_nat take_bit_eq_mod)
  have shift: "unat (drop_bit k n) = unat n div 2 ^ k" for k
  proof -
    have "unat n < 4294967296" using unsigned_less [of n] by simp
    then show ?thesis unfolding unsigned_drop_bit_eq by (simp add: drop_bit_eq_div take_bit_eq_mod)
  qed
  show ?thesis unfolding setSize_def byte shift by (simp add: numeral_3_eq_3 div_mult2_eq [symmetric])
qed

lemma header_size_setSize: "header_size (setSize n h) = (if n AND 0xFFFFFF = 0 then INT32_MAX else n AND 0xFFFFFF)"
proof -
  have "header_ok (setSize n h)" by (simp add: header_ok_def setSize_bytes)
  then have "sizeWord (setSize n h) = n AND 0xFFFFFF"
    by (simp add: sizeWord_le setSize_bytes le_nat_nat_le word_lo24)
  then show ?thesis by (simp add: header_size_def)
qed

lemma readHeader_headerBytes:
  assumes "header_ok h"
  shows "readHeader (headerBytes h @ rest) = h"
proof -
  obtain a b c where "hsize h = [a, b, c]" using assms by (auto simp: header_ok_def length_Suc_conv numeral_3_eq_3)
  then show ?thesis by (simp add: readHeader_def headerBytes_def load_store_le)
qed

section \<open>The buffer as a ring\<close>

definition rb_ok :: "MutexRoundBuffer \<Rightarrow> bool" where
  "rb_ok b \<longleftrightarrow> length (buffer b) = capacity b \<and> head b < capacity b \<and> used b \<le> capacity b \<and>
     tail b = (head b + used b) mod capacity b"

definition ringRead :: "nat \<Rightarrow> nat \<Rightarrow> 'a list \<Rightarrow> 'a list" where
  "ringRead at n xs = map (\<lambda>i. xs ! ((at + i) mod length xs)) [0..<n]"

definition contents :: "MutexRoundBuffer \<Rightarrow> u8 list" where
  "contents b = ringRead (head b) (used b) (buffer b)"

lemma length_ringRead [simp]: "length (ringRead at n xs) = n"
  by (simp add: ringRead_def)

lemma nth_ringRead [simp]: "i < n \<Longrightarrow> ringRead at n xs ! i = xs ! ((at + i) mod length xs)"
  by (simp add: ringRead_def)

lemma ring_chunks:
  assumes "at < length xs" and "n \<le> length xs"
  shows "(if at + n \<le> length xs then take n (drop at xs)
     else take (length xs - at) (drop at xs) @ take (n - (length xs - at)) xs) = ringRead at n xs"
proof (cases "at + n \<le> length xs")
  case True
  then show ?thesis using assms by (auto intro!: nth_equalityI)
next
  case False
  show ?thesis unfolding if_not_P [OF False]
  proof (rule nth_equalityI)
    fix i
    assume "i < length (take (length xs - at) (drop at xs) @ take (n - (length xs - at)) xs)"
    then have i: "i < n" using assms False by auto
    have "(at + i) mod length xs = (if i < length xs - at then at + i else i - (length xs - at))"
      using assms i by (auto simp: mod_if)
    then show "(take (length xs - at) (drop at xs) @ take (n - (length xs - at)) xs) ! i = ringRead at n xs ! i"
      using assms i False by (auto simp: nth_append)
  qed (use assms False in auto)
qed

lemma take_ringRead: "m \<le> n \<Longrightarrow> take m (ringRead at n xs) = ringRead at m xs"
  by (auto intro!: nth_equalityI)

lemma drop_ringRead:
  assumes "m \<le> n"
  shows "drop m (ringRead at n xs) = ringRead ((at + m) mod length xs) (n - m) xs"
  using assms by (auto intro!: nth_equalityI simp: mod_simps add.assoc)

lemma peek_contents:
  assumes "rb_ok b" and "n \<le> used b"
  shows "peek_data n b = take n (contents b)"
proof -
  have "peek_data n b = ringRead (head b) n (buffer b)"
    using ring_chunks [of "head b" "buffer b" n] assms by (auto simp: peek_data_def rb_ok_def Let_def)
  then show ?thesis using assms by (simp add: contents_def take_ringRead)
qed

lemma takePacket_contents:
  assumes ok: "rb_ok b" and n: "n \<le> used b" and t: "takePacket n b = (out, b')"
  shows "out = take n (contents b)" and "rb_ok b'" and "contents b' = drop n (contents b)" and "capacity b' = capacity b"
proof -
  have cap: "length (buffer b) = capacity b" "head b < capacity b" "used b \<le> capacity b" using ok by (simp_all add: rb_ok_def)
  have "out = ringRead (head b) n (buffer b)"
    using ring_chunks [of "head b" "buffer b" n] t cap n by (auto simp: takePacket_def Let_def)
  then show "out = take n (contents b)" using n by (simp add: contents_def take_ringRead)
  have b': "b' = b\<lparr>head := (head b + n) mod capacity b, used := used b - n\<rparr>" using t by (simp add: takePacket_def)
  have "((head b + n) mod capacity b + (used b - n)) mod capacity b = (head b + used b) mod capacity b"
    unfolding mod_add_left_eq using n by simp
  then show "rb_ok b'" using ok n by (auto simp: b' rb_ok_def)
  show "contents b' = drop n (contents b)" using n cap by (simp add: b' contents_def drop_ringRead)
  show "capacity b' = capacity b" by (simp add: b')
qed

lemma length_copyIn [simp]: "at + length src \<le> length dst \<Longrightarrow> length (copyIn at src dst) = length dst"
  by (simp add: copyIn_def)

lemma nth_copyIn:
  assumes "at + length src \<le> length dst" and "j < length dst"
  shows "copyIn at src dst ! j = (if at \<le> j \<and> j < at + length src then src ! (j - at) else dst ! j)"
  using assms by (auto simp: copyIn_def nth_append min_def)

text \<open>Writing at the tail, in one or two chunks.\<close>

definition ringWrite :: "nat \<Rightarrow> u8 list \<Rightarrow> u8 list \<Rightarrow> u8 list" where
  "ringWrite at src dst =
     (if at + length src \<le> length dst then copyIn at src dst
      else copyIn 0 (drop (length dst - at) src) (copyIn at (take (length dst - at) src) dst))"

lemma ringWrite_read:
  assumes at: "at < length dst" and n: "length src \<le> length dst" and i: "i < length dst"
  shows "length (ringWrite at src dst) = length dst"
    and "ringWrite at src dst ! ((at + i) mod length dst) = (if i < length src then src ! i else dst ! ((at + i) mod length dst))"
proof -
  show "length (ringWrite at src dst) = length dst" using at n by (auto simp: ringWrite_def)
  show "ringWrite at src dst ! ((at + i) mod length dst) = (if i < length src then src ! i else dst ! ((at + i) mod length dst))"
  proof (cases "at + i < length dst")
    case True
    then have j: "(at + i) mod length dst = at + i" by simp
    have "\<not> at + i < length src - (length dst - at)" using n True by linarith
    then show ?thesis unfolding j using True at n by (simp add: ringWrite_def nth_copyIn)
  next
    case False
    then obtain k where k: "at + i = length dst + k" by (metis le_add_diff_inverse not_less)
    then have "k < at" using i by linarith
    then have j: "(at + i) mod length dst = k" unfolding k using at by simp
    have i': "i = length dst - at + k" using k at by linarith
    show ?thesis
    proof (cases "at + length src \<le> length dst")
      case True
      then have "\<not> i < length src" using False by linarith
      then show ?thesis unfolding j using True at \<open>k < at\<close> by (simp add: ringWrite_def nth_copyIn)
    next
      case False
      have "k < length dst" using \<open>k < at\<close> at by linarith
      moreover have "k < length src - (length dst - at) \<longleftrightarrow> i < length src" using i' False by linarith
      ultimately show ?thesis unfolding j using False at n \<open>k < at\<close> by (simp add: ringWrite_def nth_copyIn i')
    qed
  qed
qed

lemma enqueue_ring:
  assumes ok: "rb_ok b" and len: "n \<le> length ptr" and room: "n \<le> capacity b - used b"
    and n: "n = unat (header_size (readHeader (take HeaderSize ptr)))"
  shows "EnqueuePacket (Some ptr) b = Some (True, b\<lparr>buffer := ringWrite (tail b) (take n ptr) (buffer b),
      tail := (tail b + n) mod capacity b, used := used b + n\<rparr>)"
proof -
  have at: "tail b < capacity b" and lb: "length (buffer b) = capacity b" using ok by (auto simp: rb_ok_def)
  have fit: "\<not> capacity b < n" using room by simp
  have chunks: "drop (capacity b - tail b) (take n ptr) = take (n - (capacity b - tail b)) (drop (capacity b - tail b) ptr)"
    by (rule drop_take)
  have first: "take (capacity b - tail b) (take n ptr) = take (capacity b - tail b) ptr" if "\<not> tail b + n \<le> capacity b"
    using that by (simp add: min_absorb1)
  have W: "ringWrite (tail b) (take n ptr) (buffer b) =
      (if tail b + n \<le> capacity b then copyIn (tail b) (take n ptr) (buffer b)
       else copyIn 0 (take (n - (capacity b - tail b)) (drop (capacity b - tail b) ptr))
              (copyIn (tail b) (take (capacity b - tail b) ptr) (buffer b)))"
    unfolding ringWrite_def lb chunks using len first by (simp add: min_def)
  show ?thesis unfolding EnqueuePacket_def option.case Let_def n [symmetric] W using fit room by simp
qed

lemma enqueue_contents:
  assumes ok: "rb_ok b" and room: "length p \<le> capacity b - used b"
    and b': "b' = b\<lparr>buffer := ringWrite (tail b) p (buffer b), tail := (tail b + length p) mod capacity b, used := used b + length p\<rparr>"
  shows "rb_ok b'" and "contents b' = contents b @ p"
proof -
  have cap: "length (buffer b) = capacity b" "head b < capacity b" "used b \<le> capacity b" "tail b < capacity b"
    "tail b = (head b + used b) mod capacity b" using ok by (auto simp: rb_ok_def)
  note W = ringWrite_read [of "tail b" "buffer b" p, unfolded cap(1), OF cap(4)]
  have len: "length (ringWrite (tail b) p (buffer b)) = capacity b" using W(1) [of 0] room cap by simp
  show "rb_ok b'" using cap room len by (simp add: b' rb_ok_def mod_simps add.assoc)
  show "contents b' = contents b @ p"
  proof (rule nth_equalityI)
    fix i
    assume "i < length (contents b')"
    then have i: "i < used b + length p" by (simp add: b' contents_def)
    show "contents b' ! i = (contents b @ p) ! i"
    proof (cases "i < used b")
      case True
      have "(head b + i) mod capacity b = (tail b + (capacity b - used b + i)) mod capacity b"
      proof -
        have "(tail b + (capacity b - used b + i)) mod capacity b = (head b + used b + (capacity b - used b + i)) mod capacity b"
          unfolding cap(5) by (rule mod_add_left_eq)
        also have "head b + used b + (capacity b - used b + i) = head b + i + capacity b" using cap(3) by simp
        finally show ?thesis by simp
      qed
      moreover have "capacity b - used b + i < capacity b" "\<not> capacity b - used b + i < length p" using True room cap(3) by simp_all
      ultimately show ?thesis using W(2) [of "capacity b - used b + i"] True room cap(1-4) len
        by (simp add: b' contents_def nth_append)
    next
      case False
      have "(head b + i) mod capacity b = (tail b + (i - used b)) mod capacity b"
        unfolding cap(5) mod_add_left_eq using False by simp
      moreover have "i - used b < capacity b" "i - used b < length p" using False i room cap(3) by simp_all
      ultimately show ?thesis using W(2) [of "i - used b"] False i room cap(1-4) len
        by (simp add: b' contents_def nth_append)
    qed
  qed (simp add: b' contents_def)
qed

section \<open>Packets in the buffer\<close>

text \<open>A packet declares its own length, which covers at least the header.\<close>

definition packet_ok :: "u8 list \<Rightarrow> bool" where
  "packet_ok p \<longleftrightarrow> HeaderSize \<le> length p \<and> unat (header_size (readHeader (take HeaderSize p))) = length p"

definition framed :: "MutexRoundBuffer \<Rightarrow> u8 list list \<Rightarrow> bool" where
  "framed b ps \<longleftrightarrow> rb_ok b \<and> contents b = concat ps \<and> (\<forall>p \<in> set ps. packet_ok p)"

lemma length_contents [simp]: "length (contents b) = used b"
  by (simp add: contents_def)

lemma framed_used: "framed b ps \<Longrightarrow> used b = length (concat ps)"
  by (metis framed_def length_contents)

lemma framed_new: "0 < cap \<Longrightarrow> framed (newRoundBuffer cap) []"
  by (simp add: framed_def rb_ok_def newRoundBuffer_def contents_def ringRead_def)

lemma enqueue_framed:
  assumes fr: "framed b ps" and p: "packet_ok p" and room: "length p \<le> capacity b - used b"
  shows "\<exists>b'. EnqueuePacket (Some p) b = Some (True, b') \<and> framed b' (ps @ [p]) \<and> capacity b' = capacity b"
proof -
  have ok: "rb_ok b" using fr by (simp add: framed_def)
  have E: "EnqueuePacket (Some p) b = Some (True, b\<lparr>buffer := ringWrite (tail b) p (buffer b),
      tail := (tail b + length p) mod capacity b, used := used b + length p\<rparr>)" (is "_ = Some (True, ?b)")
    using enqueue_ring [OF ok, of "length p" p] p room by (simp add: packet_ok_def)
  have "rb_ok ?b" "contents ?b = contents b @ p" using enqueue_contents [OF ok room refl] by blast+
  then have "framed ?b (ps @ [p])" using fr p by (auto simp: framed_def)
  with E show ?thesis by simp
qed

lemma enqueue_waits: "packet_ok p \<Longrightarrow> length p \<le> capacity b \<Longrightarrow> \<not> length p \<le> capacity b - used b \<Longrightarrow> EnqueuePacket (Some p) b = None"
  by (simp add: EnqueuePacket_def packet_ok_def)

lemma enqueue_rejects: "packet_ok p \<Longrightarrow> capacity b < length p \<Longrightarrow> EnqueuePacket (Some p) b = Some (False, b)"
  by (simp add: EnqueuePacket_def packet_ok_def)

lemma framed_head_size:
  assumes "framed b (p # ps)"
  shows "unat (header_size (readHeader (peek_data HeaderSize b))) = length p" and "HeaderSize \<le> used b" and "length p \<le> used b"
proof -
  have p: "packet_ok p" and ok: "rb_ok b" and c: "contents b = p @ concat ps" using assms by (simp_all add: framed_def)
  show u: "length p \<le> used b" using framed_used [OF assms] by simp
  then show h: "HeaderSize \<le> used b" using p by (simp add: packet_ok_def)
  have "peek_data HeaderSize b = take HeaderSize p" using peek_contents [OF ok h] p by (simp add: c packet_ok_def)
  then show "unat (header_size (readHeader (peek_data HeaderSize b))) = length p" using p by (simp add: packet_ok_def)
qed

lemma take_framed:
  assumes "framed b (p # ps)"
  shows "\<exists>b'. takePacket (length p) b = (p, b') \<and> framed b' ps \<and> capacity b' = capacity b"
proof -
  have ok: "rb_ok b" and c: "contents b = p @ concat ps" using assms by (simp_all add: framed_def)
  obtain out b' where t: "takePacket (length p) b = (out, b')" by (meson surj_pair)
  note T = takePacket_contents [OF ok framed_head_size(3) [OF assms] t]
  have "out = p" "framed b' ps" using T c assms by (simp_all add: framed_def)
  with t T(4) show ?thesis by simp
qed

lemma GetPacket_framed:
  assumes "framed b (p # ps)"
  shows "\<exists>b'. GetPacket True b = Some (Some p, b') \<and> framed b' ps \<and> capacity b' = capacity b"
  using take_framed [OF assms] framed_head_size [OF assms] by (auto simp: GetPacket_def Let_def)

lemma GetPacket_empty: "framed b [] \<Longrightarrow> GetPacket True b = None"
  using framed_used [of b "[]"] by (simp add: GetPacket_def HeaderSize_def)

lemma TryGetPacket_framed:
  assumes "framed b (p # ps)"
  shows "\<exists>b'. TryGetPacket True b = (Some p, b') \<and> framed b' ps \<and> capacity b' = capacity b"
  using take_framed [OF assms] framed_head_size [OF assms] by (auto simp: TryGetPacket_def Let_def)

lemma TryGetPacket_empty: "framed b [] \<Longrightarrow> TryGetPacket True b = (None, b)"
  using framed_used [of b "[]"] by (simp add: TryGetPacket_def HeaderSize_def)

section \<open>First in, first out\<close>

text \<open>
  A run of several threads as the sequence of the operations they complete. The result lists the
  packets the buffer accepted and those it delivered; \<open>None\<close> when the sequence has an operation that
  would still be waiting.
\<close>

datatype bufOp = Enq "u8 list" | Deq | TryDeq

fun bufStep :: "bufOp \<Rightarrow> MutexRoundBuffer \<Rightarrow> (u8 list list \<times> u8 list list \<times> MutexRoundBuffer) option" where
  "bufStep (Enq p) b = (case EnqueuePacket (Some p) b of None \<Rightarrow> None
     | Some (ok, b') \<Rightarrow> Some (if ok then [p] else [], [], b'))"
| "bufStep Deq b = (case GetPacket True b of None \<Rightarrow> None
     | Some (out, b') \<Rightarrow> Some ([], case out of None \<Rightarrow> [] | Some p \<Rightarrow> [p], b'))"
| "bufStep TryDeq b = (case TryGetPacket True b of (out, b') \<Rightarrow> Some ([], case out of None \<Rightarrow> [] | Some p \<Rightarrow> [p], b'))"

primrec runSteps :: "('op \<Rightarrow> 's \<Rightarrow> ('p list \<times> 'p list \<times> 's) option) \<Rightarrow> 'op list \<Rightarrow> 's \<Rightarrow> ('p list \<times> 'p list \<times> 's) option" where
  "runSteps step [] s = Some ([], [], s)"
| "runSteps step (op # ops) s = (case step op s of None \<Rightarrow> None
     | Some (acc, del, s') \<Rightarrow> (case runSteps step ops s' of None \<Rightarrow> None
         | Some (accs, dels, s'') \<Rightarrow> Some (acc @ accs, del @ dels, s'')))"

text \<open>The contract of a queue: what it holds, and the law that every step keeps the order.\<close>

locale fifo_queue =
  fixes step :: "'op \<Rightarrow> 's \<Rightarrow> ('p list \<times> 'p list \<times> 's) option"
    and holds :: "'s \<Rightarrow> 'p list \<Rightarrow> bool"
    and valid :: "'op \<Rightarrow> bool"
  assumes step_order: "holds s ps \<Longrightarrow> valid op \<Longrightarrow> step op s = Some (acc, del, s') \<Longrightarrow>
    \<exists>rest. holds s' rest \<and> ps @ acc = del @ rest"
begin

lemma run_order:
  assumes "holds s ps" and "list_all valid ops" and "runSteps step ops s = Some (accs, dels, s')"
  shows "\<exists>rest. holds s' rest \<and> ps @ accs = dels @ rest"
  using assms
proof (induction ops arbitrary: s ps accs dels)
  case (Cons op ops)
  obtain acc del s1 where st: "step op s = Some (acc, del, s1)" using Cons.prems(3) by (auto split: option.splits)
  obtain accs' dels' where run: "runSteps step ops s1 = Some (accs', dels', s')"
      and eq: "accs = acc @ accs'" "dels = del @ dels'"
    using Cons.prems(3) st by (auto split: option.splits)
  obtain mid where mid: "holds s1 mid" "ps @ acc = del @ mid"
    using step_order [OF Cons.prems(1) _ st] Cons.prems(2) by auto
  obtain rest where "holds s' rest" "mid @ accs' = dels' @ rest"
    using Cons.IH [OF mid(1) _ run] Cons.prems(2) by auto
  then show ?case using mid(2) eq by (metis append.assoc)
qed simp

lemma run_append:
  "runSteps step (ops @ ops') s = (case runSteps step ops s of None \<Rightarrow> None
     | Some (acc, del, s') \<Rightarrow> (case runSteps step ops' s' of None \<Rightarrow> None
         | Some (accs, dels, s'') \<Rightarrow> Some (acc @ accs, del @ dels, s'')))"
  by (induction ops arbitrary: s) (auto split: option.splits)

end

primrec bufOpOk :: "bufOp \<Rightarrow> bool" where
  "bufOpOk (Enq p) \<longleftrightarrow> packet_ok p"
| "bufOpOk Deq \<longleftrightarrow> True"
| "bufOpOk TryDeq \<longleftrightarrow> True"

lemma bufStep_Enq:
  assumes fr: "framed b ps" and p: "packet_ok p"
  shows "bufStep (Enq p) b = (if capacity b < length p then Some ([], [], b)
     else if capacity b - used b < length p then None else bufStep (Enq p) b)"
    and "length p \<le> capacity b - used b \<Longrightarrow>
      \<exists>b'. bufStep (Enq p) b = Some ([p], [], b') \<and> framed b' (ps @ [p]) \<and> capacity b' = capacity b"
  using enqueue_framed [OF fr p] enqueue_waits [OF p, of b] enqueue_rejects [OF p, of b] by auto

lemma bufStep_Deq:
  "framed b [] \<Longrightarrow> bufStep Deq b = None"
  "framed b (p # ps) \<Longrightarrow> \<exists>b'. bufStep Deq b = Some ([], [p], b') \<and> framed b' ps \<and> capacity b' = capacity b"
  using GetPacket_empty [of b] GetPacket_framed [of b p ps] by auto

lemma bufStep_TryDeq:
  "framed b [] \<Longrightarrow> bufStep TryDeq b = Some ([], [], b)"
  "framed b (p # ps) \<Longrightarrow> \<exists>b'. bufStep TryDeq b = Some ([], [p], b') \<and> framed b' ps \<and> capacity b' = capacity b"
  using TryGetPacket_empty [of b] TryGetPacket_framed [of b p ps] by auto

lemma bufStep_order:
  assumes fr: "framed b ps" and ok: "bufOpOk op" and st: "bufStep op b = Some (acc, del, b')"
  shows "\<exists>rest. framed b' rest \<and> ps @ acc = del @ rest"
proof (cases op)
  case (Enq p)
  then have p: "packet_ok p" using ok by simp
  consider "capacity b < length p" | "length p \<le> capacity b" "capacity b - used b < length p" | "length p \<le> capacity b - used b"
    by linarith
  then show ?thesis
  proof cases
    case 1
    then show ?thesis using bufStep_Enq(1) [OF fr p] st Enq fr by auto
  next
    case 2
    then show ?thesis using bufStep_Enq(1) [OF fr p] st Enq by auto
  next
    case 3
    then show ?thesis using bufStep_Enq(2) [OF fr p] st Enq by auto
  qed
next
  case Deq
  then show ?thesis using fr st bufStep_Deq [of b] by (cases ps) fastforce+
next
  case TryDeq
  then show ?thesis using fr st bufStep_TryDeq [of b] by (cases ps) fastforce+
qed

interpretation roundBuffer: fifo_queue bufStep framed bufOpOk
  by unfold_locales (rule bufStep_order)

text \<open>
  Claim C14. The ring buffer is a queue of packets. Started empty and used by any sequence of enqueues
  of well-formed packets, gets and tries, from any number of threads, it delivers exactly the packets
  it accepted, each whole and unchanged wherever it wraps, in the order of acceptance: what was
  accepted is what was delivered followed by what the buffer still holds.
\<close>

theorem round_buffer_fifo:
  assumes "0 < cap" and "list_all bufOpOk ops" and "runSteps bufStep ops (newRoundBuffer cap) = Some (accepted, delivered, b)"
  shows "\<exists>held. accepted = delivered @ held \<and> framed b held"
  using roundBuffer.run_order [OF framed_new [OF assms(1)] assms(2,3)] by auto

definition demoPacket :: "u8 \<Rightarrow> u8 list" where
  "demoPacket x = [10, 0, 0, 24, x, 0, 0, 0, x + 1, x + 2]"

lemma demoPacket_ok: "packet_ok (demoPacket x)"
proof -
  have "header_ok (readHeader (take HeaderSize (demoPacket x)))" "hsize (readHeader (take HeaderSize (demoPacket x))) = [10, 0, 0]"
    by (simp_all add: header_ok_def readHeader_def demoPacket_def HeaderSize_def)
  then show ?thesis using unat_sizeWord [of "readHeader (take HeaderSize (demoPacket x))"]
    by (auto simp: packet_ok_def header_size_def demoPacket_def HeaderSize_def)
qed

lemma demo_run:
  "\<exists>b. runSteps bufStep [Enq (demoPacket 1), Deq, Enq (demoPacket 2), TryDeq, TryDeq] (newRoundBuffer 16)
   = Some ([demoPacket 1, demoPacket 2], [demoPacket 1, demoPacket 2], b)"
proof -
  have len: "length (demoPacket x) = 10" for x by (simp add: demoPacket_def)
  have fr: "framed (newRoundBuffer 16) []" "capacity (newRoundBuffer 16) = 16"
    using framed_new [of 16] by (simp_all add: newRoundBuffer_def)
  obtain b1 where b1: "bufStep (Enq (demoPacket 1)) (newRoundBuffer 16) = Some ([demoPacket 1], [], b1)"
      "framed b1 [demoPacket 1]" "capacity b1 = 16"
    using bufStep_Enq(2) [OF fr(1) demoPacket_ok] fr framed_used [OF fr(1)] by (auto simp: len)
  obtain b2 where b2: "bufStep Deq b1 = Some ([], [demoPacket 1], b2)" "framed b2 []" "capacity b2 = 16"
    using bufStep_Deq(2) [OF b1(2)] b1(3) by auto
  obtain b3 where b3: "bufStep (Enq (demoPacket 2)) b2 = Some ([demoPacket 2], [], b3)" "framed b3 [demoPacket 2]" "capacity b3 = 16"
    using bufStep_Enq(2) [OF b2(2) demoPacket_ok] b2 framed_used [OF b2(2)] by (auto simp: len)
  obtain b4 where b4: "bufStep TryDeq b3 = Some ([], [demoPacket 2], b4)" "framed b4 []"
    using bufStep_TryDeq(2) [OF b3(2)] by auto
  show ?thesis using b1(1) b2(1) b3(1) b4(1) bufStep_TryDeq(1) [OF b4(2)] by (simp del: bufStep.simps)
qed

theorem round_buffer_fifo_witness:
  "\<exists>b held. runSteps bufStep [Enq (demoPacket 1), Deq, Enq (demoPacket 2), TryDeq, TryDeq] (newRoundBuffer 16)
      = Some ([demoPacket 1, demoPacket 2], [demoPacket 1, demoPacket 2], b) \<and>
    [demoPacket 1, demoPacket 2] = [demoPacket 1, demoPacket 2] @ held \<and> framed b held"
proof -
  obtain b where run: "runSteps bufStep [Enq (demoPacket 1), Deq, Enq (demoPacket 2), TryDeq, TryDeq] (newRoundBuffer 16)
     = Some ([demoPacket 1, demoPacket 2], [demoPacket 1, demoPacket 2], b)" using demo_run by blast
  have "list_all bufOpOk [Enq (demoPacket 1), Deq, Enq (demoPacket 2), TryDeq, TryDeq]" by (simp add: demoPacket_ok)
  from round_buffer_fifo [OF _ this run] run show ?thesis by simp
qed

text \<open>
  A producer that waits for space is released by its consumers. Whatever packets the buffer
  holds, a well-formed packet no longer than the capacity is accepted after at most as many gets as
  there are packets held, none of those gets waits, and they deliver the oldest packets.
\<close>

lemma round_buffer_progress:
  assumes "framed b ps" and "packet_ok p" and "length p \<le> capacity b"
  shows "\<exists>k b'. k \<le> length ps \<and> runSteps bufStep (replicate k Deq @ [Enq p]) b = Some ([p], take k ps, b')"
  using assms
proof (induction ps arbitrary: b)
  case Nil
  have "used b = 0" using framed_used [OF Nil(1)] by simp
  then obtain b' where "bufStep (Enq p) b = Some ([p], [], b')" using bufStep_Enq(2) [OF Nil(1,2)] Nil(3) by auto
  then show ?case by (intro exI [of _ 0]) (simp del: bufStep.simps)
next
  case (Cons q qs)
  obtain b1 where b1: "bufStep Deq b = Some ([], [q], b1)" "framed b1 qs" "capacity b1 = capacity b"
    using bufStep_Deq(2) [OF Cons.prems(1)] by auto
  obtain k b' where k: "k \<le> length qs" "runSteps bufStep (replicate k Deq @ [Enq p]) b1 = Some ([p], take k qs, b')"
    using Cons.IH [OF b1(2) Cons.prems(2)] Cons.prems(3) b1(3) by auto
  then have "runSteps bufStep (replicate (Suc k) Deq @ [Enq p]) b = Some ([p], take (Suc k) (q # qs), b')"
    using b1(1) by (simp del: bufStep.simps)
  then show ?case using k(1) by (intro exI [of _ "Suc k"] exI [of _ b']) simp
qed

text \<open>
  The header's size field. Every size below \<open>2 ^ 24\<close> other than zero that is set is read back,
  also after the header has gone through its bytes in front of any payload, and setting it leaves the
  type and dejavu; a size whose low 24 bits are zero is read as \<open>INT32_MAX\<close>, which no buffer accepts
  whose capacity is smaller.
\<close>

lemma header_size_roundtrip:
  "(n AND 0xFFFFFF = n \<and> n \<noteq> 0 \<longrightarrow> header_size (readHeader (headerBytes (setSize n h) @ rest)) = n) \<and>
   htype (readHeader (headerBytes (setSize n h) @ rest)) = htype h \<and>
   hdejavu (readHeader (headerBytes (setSize n h) @ rest)) = hdejavu h \<and>
   (n AND 0xFFFFFF = 0 \<longrightarrow> header_size (readHeader (headerBytes (setSize n h) @ rest)) = INT32_MAX \<and>
     (capacity b < 0x7FFFFFFF \<longrightarrow> EnqueuePacket (Some (headerBytes (setSize n h) @ rest)) b = Some (False, b)))"
proof -
  have ok: "header_ok (setSize n h)" by (simp add: header_ok_def setSize_bytes)
  have len: "length (headerBytes (setSize n h)) = HeaderSize" by (simp add: headerBytes_def HeaderSize_def setSize_def length_store_le)
  have "readHeader (take HeaderSize (headerBytes (setSize n h) @ rest)) = setSize n h"
    using readHeader_headerBytes [OF ok, of "[]"] len by simp
  then show ?thesis
    using readHeader_headerBytes [OF ok, of rest]
    by (auto simp: header_size_setSize EnqueuePacket_def Let_def INT32_MAX_def) (simp_all add: setSize_def)
qed

end
