(* ===== verification/Connection.thy ===== *)
theory Connection
  imports Packets
begin

text \<open>
  Connections to other nodes (\<open>connection.cpp\<close>) and the receiver thread (\<open>connReceiver\<close> of
  \<open>IOProcessor.cpp\<close>): framing of the incoming byte stream into packets, the filters on the type of a
  packet and the queues it goes to, and the packets that are sent. The socket is a parameter:
  \<open>recv n s\<close> is what one call of \<open>recv\<close> for at most \<open>n\<close> bytes returns.
\<close>

section \<open>Receiving\<close>

datatype recvResult = RecvError int | Received "u8 list"

text \<open>
  The return value, the bytes written to the buffer and the socket. Each round that continues has read
  at least one byte, so the loop ends.
\<close>

function receiveData :: "(nat \<Rightarrow> 's \<Rightarrow> recvResult \<times> 's) \<Rightarrow> 's \<Rightarrow> int \<Rightarrow> u8 list \<Rightarrow> int \<times> u8 list \<times> 's" where
  "receiveData recv s sz got =
     (if \<not> sz > 0 then (int (length got), got, s)
      else case recv (nat (min 1024 sz)) s of
        (RecvError ret, s') \<Rightarrow> (ret, got, s')
      | (Received bs, s') \<Rightarrow>
          if bs = [] then (int (length got), got, s')
          else receiveData recv s' (sz - int (length bs)) (got @ bs))"
  by auto
termination by (relation "measure (\<lambda>(recv, s, sz, got). nat sz)") auto

declare receiveData.simps [simp del]

definition max_size :: int where
  "max_size = 0xFFFFFF"

text \<open>
  The exceptions of \<open>receiveAFullPacket\<close>; \<open>HeaderOverrun\<close> is the copy of the header past the end of a
  buffer that was resized to a declared size below the header's.
\<close>

datatype receiveError = SocketError | NoHeader | MalformedHeader | HeaderOverrun | NotEnoughData

definition receiveAFullPacket :: "(nat \<Rightarrow> 's \<Rightarrow> recvResult \<times> 's) \<Rightarrow> 's \<Rightarrow> (receiveError + RequestResponseHeader \<times> u8 list) \<times> 's" where
  "receiveAFullPacket recv s =
     (let (recvByte, hb, s) = receiveData recv s (int HeaderSize) []
      in if recvByte < 0 then (Inl SocketError, s)
      else if recvByte \<noteq> int HeaderSize then (Inl NoHeader, s)
      else let header = readHeader hb; packet_size = int (unat (header_size header))
      in if packet_size > max_size then (Inl MalformedHeader, s)
      else if packet_size < int HeaderSize then (Inl HeaderOverrun, s)
      else let remaining_size = packet_size - int HeaderSize;
               (recvByte, body, s) = receiveData recv s remaining_size []
      in if recvByte \<noteq> remaining_size then (Inl NotEnoughData, s) else (Inr (header, hb @ body), s))"

section \<open>Sorting packets into the queues\<close>

definition checkAllowedTypeForNonTrusted :: "u8 \<Rightarrow> bool" where
  "checkAllowedTypeForNonTrusted type = (if type = 45 then False else if type = 51 then False else True)"

definition isRequestType :: "u8 \<Rightarrow> bool" where
  "isRequestType type = (type = 11 \<or> type = 14 \<or> type = 16 \<or> type = 27 \<or> type = 29 \<or> type = 44 \<or> type = 50)"

definition isDataType :: "u8 \<Rightarrow> bool" where
  "isDataType type = (type = 3 \<or> type = 8 \<or> type = 24 \<or> type = 45 \<or> type = 51 \<or> type = 43)"

record 'conn queues =
  MRB_Data :: MutexRoundBuffer
  MRB_Request :: MutexRoundBuffer
  requestMapperTo :: "'conn option RequestMap"

text \<open>One packet in the loop of \<open>connReceiver\<close>; \<open>None\<close> while an enqueue waits for space.\<close>

definition connReceive :: "bool \<Rightarrow> u64 \<Rightarrow> 'conn \<Rightarrow> RequestResponseHeader \<Rightarrow> u8 list \<Rightarrow> 'conn queues \<Rightarrow> 'conn queues option" where
  "connReceive isTrustedNode now c hdr packet q =
     (if \<not> isTrustedNode \<and> \<not> checkAllowedTypeForNonTrusted (htype hdr) then Some q
      else case (if isDataType (htype hdr) then map_option (\<lambda>(ok, b). q\<lparr>MRB_Data := b\<rparr>) (EnqueuePacket (Some packet) (MRB_Data q))
                 else Some q) of None \<Rightarrow> None
      | Some q \<Rightarrow>
        if isRequestType (htype hdr) then
          case EnqueuePacket (Some packet) (MRB_Request q) of None \<Rightarrow> None
          | Some (ok, b) \<Rightarrow>
              let q = q\<lparr>MRB_Request := b\<rparr>
              in Some (if \<not> ok then q
                   else q\<lparr>requestMapperTo := requestAdd now (hdejavu hdr) None 0 (Some c) (requestMapperTo q)\<rparr>)
        else Some q)"

section \<open>Sending\<close>

definition emptyHeader :: RequestResponseHeader where
  "emptyHeader = \<lparr>hsize = [0, 0, 0], htype = 0, hdejavu = 0\<rparr>"

text \<open>The bytes at the pointer hold the packet; the map remembers what was asked under which dejavu.\<close>

definition enqueueSend :: "u64 \<Rightarrow> u8 list \<Rightarrow> int \<Rightarrow> 'conn option RequestMap \<times> MutexRoundBuffer \<Rightarrow>
    (int \<times> 'conn option RequestMap \<times> MutexRoundBuffer) option" where
  "enqueueSend now buf sz st = (case st of (requestMapperFrom, mBuffer) \<Rightarrow>
     let requestMapperFrom =
       (if sz \<ge> 8
        then let dejavu = hdejavu (readHeader (take 8 buf))
             in if dejavu \<noteq> 0 then requestAdd now dejavu (Some buf) sz None requestMapperFrom else requestMapperFrom
        else requestMapperFrom)
     in case EnqueuePacket (Some buf) mBuffer of None \<Rightarrow> None
        | Some (_, mBuffer) \<Rightarrow> Some (sz, requestMapperFrom, mBuffer))"

definition withHeader :: "u8 list \<Rightarrow> u8 \<Rightarrow> bool \<Rightarrow> u32 \<Rightarrow> u8 list" where
  "withHeader data type randomDejavu r =
     (let h = setSize (of_nat (length data + HeaderSize)) (setType type emptyHeader);
          h = (if randomDejavu then randomizeDejavu r h else setDejavu 0 h)
      in headerBytes h @ data)"

definition enqueueWithHeader :: "u64 \<Rightarrow> u32 \<Rightarrow> u8 list \<Rightarrow> u8 \<Rightarrow> bool \<Rightarrow> 'conn option RequestMap \<times> MutexRoundBuffer \<Rightarrow>
    (int \<times> 'conn option RequestMap \<times> MutexRoundBuffer) option" where
  "enqueueWithHeader now r data type randomDejavu st =
     enqueueSend now (withHeader data type randomDejavu r) (int (length data + HeaderSize)) st"

definition endPacket :: "u32 \<Rightarrow> u32 \<Rightarrow> u8 list" where
  "endPacket dejavu r =
     (let nop = setType 35 emptyHeader;
          nop = (if dejavu \<noteq> 0xffffffff then setDejavu dejavu nop else randomizeDejavu r nop)
      in headerBytes (setSize (of_nat HeaderSize) nop))"

definition handshakePacket :: "u32 \<Rightarrow> u8 list" where
  "handshakePacket r = headerBytes (setSize 24 (setType 0 (randomizeDejavu r emptyHeader))) @ replicate 16 0"

section \<open>The stream is cut into packets\<close>

text \<open>
  What is documented of a stream socket: while bytes are pending, a call returns at least one and at
  most the bytes asked for, in order. How many, the network decides.
\<close>

definition stream_socket :: "(nat \<Rightarrow> 's \<Rightarrow> recvResult \<times> 's) \<Rightarrow> ('s \<Rightarrow> u8 list) \<Rightarrow> bool" where
  "stream_socket recv pending \<longleftrightarrow> (\<forall>n s. 0 < n \<and> pending s \<noteq> [] \<longrightarrow>
     (\<exists>k s'. 0 < k \<and> k \<le> n \<and> k \<le> length (pending s) \<and> recv n s = (Received (take k (pending s)), s') \<and> pending s' = drop k (pending s)))"

definition negative_errors :: "(nat \<Rightarrow> 's \<Rightarrow> recvResult \<times> 's) \<Rightarrow> bool" where
  "negative_errors recv \<longleftrightarrow> (\<forall>n s e s'. recv n s = (RecvError e, s') \<longrightarrow> e < 0)"

lemma receiveData_stream:
  assumes sock: "stream_socket recv pending"
  shows "n \<le> length (pending s) \<Longrightarrow>
    \<exists>s'. receiveData recv s (int n) got = (int (length got + n), got @ take n (pending s), s') \<and> pending s' = drop n (pending s)"
proof (induction n arbitrary: s got rule: less_induct)
  case (less n)
  show ?case
  proof (cases "n = 0")
    case True
    then show ?thesis by (simp add: receiveData.simps)
  next
    case False
    have m: "nat (min 1024 (int n)) = min 1024 n" by linarith
    have "0 < min 1024 n" "pending s \<noteq> []" using False less.prems by auto
    then obtain k s' where k: "0 < k" "k \<le> min 1024 n" "k \<le> length (pending s)"
        and r: "recv (min 1024 n) s = (Received (take k (pending s)), s')" and p: "pending s' = drop k (pending s)"
      using sock unfolding stream_socket_def by meson
    have ne: "take k (pending s) \<noteq> []" using k by auto
    have "receiveData recv s (int n) got = receiveData recv s' (int (n - k)) (got @ take k (pending s))"
      using False r m ne k by (subst receiveData.simps) (simp add: of_nat_diff)
    moreover have "n - k < n" "n - k \<le> length (pending s')" using k False less.prems p by auto
    moreover have "take n (pending s) = take k (pending s) @ take (n - k) (pending s')"
      using k by (simp add: p take_add [symmetric])
    ultimately show ?thesis using less.IH [of "n - k" s' "got @ take k (pending s)"] k p by auto
  qed
qed

lemma receiveData_count:
  assumes "negative_errors recv" and "receiveData recv s sz got = (ret, out, s')" and "0 \<le> ret"
  shows "ret = int (length out)"
  using assms
proof (induction recv s sz got rule: receiveData.induct)
  case (1 recv s sz got)
  show ?case
  proof (cases "sz > 0")
    case True
    obtain r s1 where r: "recv (nat (min 1024 sz)) s = (r, s1)" by (meson surj_pair)
    show ?thesis
    proof (cases r)
      case (RecvError e)
      then have "ret < 0" using True r 1(2,3) by (auto simp: receiveData.simps [of recv s sz got] negative_errors_def)
      then show ?thesis using 1(4) by simp
    next
      case (Received bs)
      show ?thesis
      proof (cases "bs = []")
        case True
        then show ?thesis using \<open>sz > 0\<close> r Received 1(3) by (auto simp: receiveData.simps [of recv s sz got])
      next
        case False
        then have "receiveData recv s1 (sz - int (length bs)) (got @ bs) = (ret, out, s')"
          using True r Received 1(3) by (simp add: receiveData.simps [of recv s sz got])
        then show ?thesis using 1(1) [OF _ r [symmetric] Received False] True 1(2,4) by simp
      qed
    qed
  next
    case False
    then show ?thesis using 1(3) by (auto simp: receiveData.simps [of recv s sz got])
  qed
qed

lemma receiveAFullPacket_unfold:
  assumes "receiveData recv s (int HeaderSize) [] = (n, hb, s1)" and "sz = int (unat (header_size (readHeader hb)))"
    and "receiveData recv s1 (sz - int HeaderSize) [] = (m, body, s2)"
  shows "receiveAFullPacket recv s =
    (if n < 0 then (Inl SocketError, s1) else if n \<noteq> int HeaderSize then (Inl NoHeader, s1)
     else if max_size < sz then (Inl MalformedHeader, s1) else if sz < int HeaderSize then (Inl HeaderOverrun, s1)
     else if m \<noteq> sz - int HeaderSize then (Inl NotEnoughData, s2) else (Inr (readHeader hb, hb @ body), s2))"
  using assms(3) unfolding receiveAFullPacket_def assms(1) Let_def prod.case assms(2) by (simp only: prod.case)

lemma received_packet_ok:
  assumes neg: "negative_errors recv" and res: "receiveAFullPacket recv s = (Inr (h, p), s')"
  shows "packet_ok p" and "h = readHeader (take HeaderSize p)" and "length p \<le> 0xFFFFFF"
proof -
  obtain n hb s1 where a: "receiveData recv s (int HeaderSize) [] = (n, hb, s1)" by (metis surj_pair)
  define sz where "sz = int (unat (header_size (readHeader hb)))"
  obtain m body s2 where b: "receiveData recv s1 (sz - int HeaderSize) [] = (m, body, s2)" by (metis surj_pair)
  have facts: "n = int HeaderSize" "int HeaderSize \<le> sz" "sz \<le> max_size" "m = sz - int HeaderSize" "h = readHeader hb" "p = hb @ body"
    using res unfolding receiveAFullPacket_unfold [OF a sz_def b] by (auto split: if_splits)
  have hb: "length hb = HeaderSize" using receiveData_count [OF neg a] facts(1) by simp
  have "int (length body) = sz - int HeaderSize" using receiveData_count [OF neg b] facts(2,4) by simp
  then have "int (length p) = sz" using hb facts(6) by simp
  then have "length p = unat (header_size (readHeader hb))" unfolding sz_def by linarith
  then show "packet_ok p" "h = readHeader (take HeaderSize p)" using hb facts(5,6) \<open>int (length p) = sz\<close> facts(2)
    by (simp_all add: packet_ok_def)
  show "length p \<le> 0xFFFFFF" using \<open>int (length p) = sz\<close> facts(3) by (simp add: max_size_def)
qed

primrec receiveMany :: "(nat \<Rightarrow> 's \<Rightarrow> recvResult \<times> 's) \<Rightarrow> nat \<Rightarrow> 's \<Rightarrow> u8 list list option \<times> 's" where
  "receiveMany recv 0 s = (Some [], s)"
| "receiveMany recv (Suc n) s = (case receiveAFullPacket recv s of
     (Inl _, s') \<Rightarrow> (None, s')
   | (Inr (h, p), s') \<Rightarrow> (case receiveMany recv n s' of (ps, s'') \<Rightarrow> (map_option (\<lambda>ps. p # ps) ps, s'')))"

lemma receive_one_packet:
  assumes sock: "stream_socket recv pending" and p: "packet_ok p" "length p \<le> 0xFFFFFF" and pend: "pending s = p @ rest"
  shows "\<exists>s'. receiveAFullPacket recv s = (Inr (readHeader (take HeaderSize p), p), s') \<and> pending s' = rest"
proof -
  have len: "HeaderSize \<le> length p" and sz: "unat (header_size (readHeader (take HeaderSize p))) = length p"
    using p(1) by (simp_all add: packet_ok_def)
  obtain s1 where a: "receiveData recv s (int HeaderSize) [] = (int HeaderSize, take HeaderSize p, s1)"
      and p1: "pending s1 = drop HeaderSize p @ rest"
    using receiveData_stream [OF sock, of HeaderSize s "[]"] pend len by auto
  have d: "int (length p) - int HeaderSize = int (length p - HeaderSize)" using len by simp
  obtain s2 where b: "receiveData recv s1 (int (length p - HeaderSize)) [] = (int (length p - HeaderSize), drop HeaderSize p, s2)"
      and p2: "pending s2 = rest"
    using receiveData_stream [OF sock, of "length p - HeaderSize" s1 "[]"] p1 by auto
  have "receiveAFullPacket recv s = (Inr (readHeader (take HeaderSize p), p), s2)"
    unfolding receiveAFullPacket_unfold [OF a refl, unfolded sz, OF b [folded d]] using p(2) len by (simp add: max_size_def)
  then show ?thesis using p2 by simp
qed

text \<open>
  Claim C15. Framing does not depend on segmentation. Whatever pieces the network delivers the stream
  in, a stream that starts with well-formed packets no longer than the header can declare is received as exactly
  those packets, one per call, and the bytes after them are left for the next call.
\<close>

theorem receive_reassembles_stream:
  assumes "stream_socket recv pending" and "list_all (\<lambda>p. packet_ok p \<and> length p \<le> 0xFFFFFF) ps" and "pending s = concat ps @ rest"
  shows "\<exists>s'. receiveMany recv (length ps) s = (Some ps, s') \<and> pending s' = rest"
  using assms(2,3)
proof (induction ps arbitrary: s)
  case (Cons p ps)
  obtain s1 where s1: "receiveAFullPacket recv s = (Inr (readHeader (take HeaderSize p), p), s1)" "pending s1 = concat ps @ rest"
    using receive_one_packet [OF assms(1), of p s "concat ps @ rest"] Cons.prems by auto
  obtain s2 where "receiveMany recv (length ps) s1 = (Some ps, s2)" "pending s2 = rest"
    using Cons.IH [OF _ s1(2)] Cons.prems(1) by auto
  then show ?case using s1(1) by simp
qed simp

text \<open>A socket that delivers one byte at a time.\<close>

definition byteSocket :: "nat \<Rightarrow> u8 list \<Rightarrow> recvResult \<times> u8 list" where
  "byteSocket n s = (Received (take (min 1 n) s), drop (min 1 n) s)"

lemma byteSocket_stream: "stream_socket byteSocket (\<lambda>s. s)"
  unfolding stream_socket_def
proof (intro allI impI)
  fix n :: nat and s :: "u8 list"
  assume "0 < n \<and> s \<noteq> []"
  then have "min 1 n = 1" "1 \<le> length s" by (auto simp: Suc_le_eq)
  then show "\<exists>k s'. 0 < k \<and> k \<le> n \<and> k \<le> length s \<and> byteSocket n s = (Received (take k s), s') \<and> s' = drop k s"
    using \<open>0 < n \<and> s \<noteq> []\<close> by (intro exI [of _ 1]) (simp add: byteSocket_def)
qed

theorem receive_reassembles_stream_witness:
  "\<exists>s'. receiveMany byteSocket (length [demoPacket 1, demoPacket 2]) (concat [demoPacket 1, demoPacket 2] @ [9]) =
     (Some [demoPacket 1, demoPacket 2], s') \<and> s' = [9]"
proof -
  have "length (demoPacket x) \<le> 0xFFFFFF" for x by (simp add: demoPacket_def)
  then show ?thesis by (intro receive_reassembles_stream [OF byteSocket_stream]) (auto simp: demoPacket_ok)
qed

section \<open>Where received packets go\<close>

lemma enqueue_some:
  assumes "framed b ps" and "packet_ok p" and "EnqueuePacket (Some p) b = Some (ok, b')"
  shows "framed b' (ps @ (if ok then [p] else [])) \<and> (\<not> ok \<longrightarrow> b' = b)"
proof -
  consider "capacity b < length p" | "length p \<le> capacity b" "\<not> length p \<le> capacity b - used b" | "length p \<le> capacity b - used b"
    by linarith
  then show ?thesis
    using enqueue_framed [OF assms(1,2)] enqueue_waits [OF assms(2), of b] enqueue_rejects [OF assms(2), of b] assms(1,3) by cases auto
qed

lemma types_disjoint: "isDataType t \<Longrightarrow> \<not> isRequestType t"
  by (auto simp: isDataType_def isRequestType_def)

lemma log_types_are_data: "\<not> checkAllowedTypeForNonTrusted t \<Longrightarrow> isDataType t"
  by (auto simp: checkAllowedTypeForNonTrusted_def isDataType_def split: if_splits)

text \<open>
  Claim C16. Where the receiver puts a packet. From any socket, a packet that \<open>receiveAFullPacket\<close> returns
  goes through \<open>connReceiver\<close> to at most one of the two queues, whole and behind what the queue holds: to the
  data queue only if its type is a data type and the peer is trusted or the packet is no log packet, to the
  request queue only if its type is a request type, and then, and only then, the connection to answer on is
  remembered under its dejavu. Both queues stay well framed.
\<close>

theorem connReceiver_routes:
  assumes "negative_errors recv" and "receiveAFullPacket recv s = (Inr (h, p), s')"
    and "framed (MRB_Data q) ds" and "framed (MRB_Request q) rs" and "connReceive trusted now c h p q = Some q'"
  shows "\<exists>ds' rs'. framed (MRB_Data q') (ds @ ds') \<and> framed (MRB_Request q') (rs @ rs') \<and> (ds', rs') \<in> {([], []), ([p], []), ([], [p])} \<and>
    (ds' = [p] \<longrightarrow> isDataType (htype h) \<and> (trusted \<or> htype h \<notin> {45, 51})) \<and>
    (rs' = [p] \<longrightarrow> isRequestType (htype h) \<and> requestGet (hdejavu h) (requestMapperTo q') = Some ([], Some c)) \<and>
    (rs' = [] \<longrightarrow> requestMapperTo q' = requestMapperTo q)"
proof -
  have p: "packet_ok p" using received_packet_ok(1) [OF assms(1,2)] .
  consider "\<not> trusted \<and> \<not> checkAllowedTypeForNonTrusted (htype h)"
    | "trusted \<or> checkAllowedTypeForNonTrusted (htype h)" "isDataType (htype h)"
    | "trusted \<or> checkAllowedTypeForNonTrusted (htype h)" "isRequestType (htype h)"
    | "\<not> isDataType (htype h)" "\<not> isRequestType (htype h)"
    by blast
  then show ?thesis
  proof cases
    case 1
    then show ?thesis using assms(3-5) by (intro exI [of _ "[]"]) (simp add: connReceive_def)
  next
    case 2
    then obtain ok b where e: "EnqueuePacket (Some p) (MRB_Data q) = Some (ok, b)" and q': "q' = q\<lparr>MRB_Data := b\<rparr>"
      using assms(5) types_disjoint [OF 2(2)] by (auto simp: connReceive_def split: option.splits)
    have "trusted \<or> htype h \<notin> {45, 51}" using 2(1) by (auto simp: checkAllowedTypeForNonTrusted_def)
    then show ?thesis using enqueue_some [OF assms(3) p e] assms(4) q' 2(2)
      by (intro exI [of _ "if ok then [p] else []"] exI [of _ "[]"]) auto
  next
    case 3
    then have nd: "\<not> isDataType (htype h)" using types_disjoint by blast
    obtain ok b where e: "EnqueuePacket (Some p) (MRB_Request q) = Some (ok, b)"
        and q': "q' = (if \<not> ok then q\<lparr>MRB_Request := b\<rparr> else q\<lparr>MRB_Request := b,
          requestMapperTo := requestAdd now (hdejavu h) None 0 (Some c) (requestMapperTo q)\<rparr>)"
      using assms(5) 3 nd by (auto simp: connReceive_def Let_def split: option.splits)
    show ?thesis using enqueue_some [OF assms(4) p e] assms(3) q' 3(2)
      by (intro exI [of _ "[]"] exI [of _ "if ok then [p] else []"]) (auto simp: requestGet_def requestAdd_def)
  next
    case 4
    then show ?thesis using assms(3-5) by (intro exI [of _ "[]"]) (auto simp: connReceive_def split: if_splits)
  qed
qed

lemma demo_received: "\<exists>s'. receiveAFullPacket byteSocket (demoPacket 1 @ []) = (Inr (readHeader (take HeaderSize (demoPacket 1)), demoPacket 1), s')"
  using receive_one_packet [OF byteSocket_stream demoPacket_ok, of 1 "demoPacket 1 @ []" "[]"] by (auto simp: demoPacket_def)

definition demoQueues :: "nat queues" where
  "demoQueues = \<lparr>MRB_Data = newRoundBuffer 64, MRB_Request = newRoundBuffer 64, requestMapperTo = Map.empty\<rparr>"

theorem connReceiver_routes_witness:
  "\<exists>q' ds'. connReceive False 0 7 (readHeader (take HeaderSize (demoPacket 1))) (demoPacket 1) demoQueues = Some q' \<and>
     framed (MRB_Data q') ds' \<and> framed (MRB_Request q') [] \<and> (ds' = [] \<or> ds' = [demoPacket 1])"
proof -
  let ?h = "readHeader (take HeaderSize (demoPacket 1))"
  have neg: "negative_errors byteSocket" by (simp add: negative_errors_def byteSocket_def)
  obtain s' where r: "receiveAFullPacket byteSocket (demoPacket 1 @ []) = (Inr (?h, demoPacket 1), s')" using demo_received by blast
  have fr: "framed (MRB_Data demoQueues) []" "framed (MRB_Request demoQueues) []" using framed_new [of 64] by (simp_all add: demoQueues_def)
  have t: "htype ?h = 24" by (simp add: readHeader_def HeaderSize_def demoPacket_def)
  have "length (demoPacket 1) \<le> capacity (MRB_Data demoQueues) - used (MRB_Data demoQueues)"
    by (simp add: demoQueues_def newRoundBuffer_def demoPacket_def)
  then obtain b where "EnqueuePacket (Some (demoPacket 1)) (MRB_Data demoQueues) = Some (True, b)"
    using enqueue_framed [OF fr(1) demoPacket_ok] by blast
  then obtain q' where q': "connReceive False 0 7 ?h (demoPacket 1) demoQueues = Some q'"
    by (simp add: connReceive_def t checkAllowedTypeForNonTrusted_def isDataType_def isRequestType_def)
  have "\<not> isRequestType (htype ?h)" by (simp add: t isRequestType_def)
  with connReceiver_routes [OF neg r fr q'] q' show ?thesis by auto
qed

section \<open>What is sent is well formed\<close>

lemma headerBytes_packet_ok:
  assumes "length data + HeaderSize < 2 ^ 24" and "h = setSize (of_nat (length data + HeaderSize)) h0"
  shows "packet_ok (headerBytes h @ data)"
proof -
  have ok: "header_ok h" by (simp add: assms(2) header_ok_def setSize_bytes)
  have len: "length (headerBytes h) = HeaderSize" by (simp add: assms(2) headerBytes_def HeaderSize_def setSize_def store_le_def)
  have rd: "readHeader (take HeaderSize (headerBytes h @ data)) = h" using readHeader_headerBytes [OF ok, of "[]"] len by simp
  have "length data + 8 < 16777216" using assms(1) by (simp add: HeaderSize_def)
  moreover have "unat (of_nat n :: u32) = n" if "n < 16777216" for n using that by (simp add: unat_of_nat)
  ultimately have n: "unat (of_nat (length data + HeaderSize) :: u32) = length data + HeaderSize" by (simp only: HeaderSize_def)
  have "unat (sizeWord h) = length data + HeaderSize"
    unfolding unat_sizeWord [OF ok] unfolding assms(2) setSize_bytes n using assms(1) by (simp add: le_nat_nat_le)
  moreover then have "sizeWord h \<noteq> 0" by (auto simp: HeaderSize_def)
  ultimately show ?thesis unfolding packet_ok_def rd using len by (simp add: header_size_def)
qed

lemma withHeader_ok: "length data + HeaderSize < 2 ^ 24 \<Longrightarrow> packet_ok (withHeader data t randomDejavu r)"
proof -
  assume len: "length data + HeaderSize < 2 ^ 24"
  have "randomizeDejavu r (setSize n h) = setSize n (randomizeDejavu r h)" "setDejavu 0 (setSize n h) = setSize n (setDejavu 0 h)" for n h
    by (simp_all add: randomizeDejavu_def setSize_def setDejavu_def)
  then show ?thesis using headerBytes_packet_ok [OF len refl] by (simp add: withHeader_def Let_def)
qed

lemma endPacket_ok: "packet_ok (endPacket dejavu r)"
  using headerBytes_packet_ok [of "[]" _ "if dejavu \<noteq> 0xffffffff then setDejavu dejavu (setType 35 emptyHeader) else randomizeDejavu r (setType 35 emptyHeader)", OF _ refl]
  by (simp add: endPacket_def HeaderSize_def Let_def)

end
