(* ===== verification/Database.thy ===== *)
theory Database
  imports Quorum
begin

text \<open>
  The storage layer \<open>database/db.cpp\<close>: which key holds what, which command writes it, and how a reader
  falls back from the first server (KeyDB) to the second (Kvrocks). The client library, the servers and the
  compression library are parameters: a record of the commands, each of which may fail (\<open>None\<close>, a
  thrown \<open>sw::redis::Error\<close>; a handle that is null is a client whose every command fails), and a pair of
  functions that compress and decompress. What is relied on of them is stated as \<open>redis_laws\<close> and \<open>codec_laws\<close>.
  Stored structures are their bytes.
\<close>

section \<open>The servers\<close>

record 's redis =
  rGet :: "string \<Rightarrow> 's \<Rightarrow> u8 list option option"
  rMGet :: "string list \<Rightarrow> 's \<Rightarrow> u8 list option list option"
  rExists :: "string \<Rightarrow> 's \<Rightarrow> bool option"
  rSet :: "string \<Rightarrow> u8 list \<Rightarrow> 's \<Rightarrow> 's option"
  rSetNX :: "string \<Rightarrow> u8 list \<Rightarrow> 's \<Rightarrow> 's option"
  rUnlink :: "string list \<Rightarrow> 's \<Rightarrow> 's option"
  rHMSet :: "string \<Rightarrow> (string \<times> string) list \<Rightarrow> 's \<Rightarrow> 's option"
  rHMGet :: "string \<Rightarrow> string list \<Rightarrow> 's \<Rightarrow> string option list option"

record codec =
  ZSTD_compress :: "u8 list \<Rightarrow> u8 list option"
  ZSTD_decompress :: "u8 list \<Rightarrow> u8 list option"

text \<open>The handles \<open>g_redis\<close> and \<open>g_kvrocks\<close> with the compression, and the two servers' states.\<close>

record 's env =
  g_redis :: "'s redis"
  g_kvrocks :: "'s redis"
  zstd :: codec

record 's servers =
  keydb :: 's
  kvrocks :: 's

text \<open>A command in a \<open>try\<close> block: an error leaves the server as it is and the function returns false.\<close>

definition onKeydb :: "('s \<Rightarrow> 's option) \<Rightarrow> 's servers \<Rightarrow> bool \<times> 's servers" where
  "onKeydb command st = (case command (keydb st) of None \<Rightarrow> (False, st) | Some s \<Rightarrow> (True, st\<lparr>keydb := s\<rparr>))"

definition onKvrocks :: "('s \<Rightarrow> 's option) \<Rightarrow> 's servers \<Rightarrow> bool \<times> 's servers" where
  "onKvrocks command st = (case command (kvrocks st) of None \<Rightarrow> (False, st) | Some s \<Rightarrow> (True, st\<lparr>kvrocks := s\<rparr>))"

text \<open>What a get returns for a key, \<open>None\<close> also after an error.\<close>

definition getOr :: "'s redis \<Rightarrow> 's \<Rightarrow> string \<Rightarrow> u8 list option" where
  "getOr R s key = (case rGet R key s of Some v \<Rightarrow> v | None \<Rightarrow> None)"

section \<open>Keys\<close>

definition tickVoteKey :: "u32 \<Rightarrow> u16 \<Rightarrow> string" where
  "tickVoteKey tick i = ''tick_vote:'' @ to_string (unat tick) @ '':'' @ to_string (unat i)"

definition tickDataKey :: "u32 \<Rightarrow> string" where
  "tickDataKey tick = ''tick_data:'' @ to_string (unat tick)"

definition logKey :: "u16 \<Rightarrow> u64 \<Rightarrow> string" where
  "logKey epoch logId = ''log:'' @ to_string (unat epoch) @ '':'' @ to_string (unat logId)"

definition logRangesKey :: "u32 \<Rightarrow> string" where
  "logRangesKey tick = ''log_ranges:'' @ to_string (unat tick)"

definition tickLogRangeKey :: "u32 \<Rightarrow> string" where
  "tickLogRangeKey tick = ''tick_log_range:'' @ to_string (unat tick)"

definition vtickKey :: "u32 \<Rightarrow> string" where
  "vtickKey tick = ''vtick:'' @ to_string (unat tick)"

definition cLogRangeKey :: "u32 \<Rightarrow> string" where
  "cLogRangeKey tick = ''cLogRange:'' @ to_string (unat tick)"

section \<open>Votes, tick data and transactions\<close>

definition db_insert_tick_vote :: "'s env \<Rightarrow> u8 list \<Rightarrow> 's servers \<Rightarrow> bool \<times> 's servers" where
  "db_insert_tick_vote E vote =
     onKeydb (rSetNX (g_redis E) (tickVoteKey (voteTick (decodeTickVote vote)) (computorIndex (decodeTickVote vote))) vote)"

definition db_insert_tick_data :: "'s env \<Rightarrow> TickData \<Rightarrow> 's servers \<Rightarrow> bool \<times> 's servers" where
  "db_insert_tick_data E td = onKeydb (rSet (g_redis E) (tickDataKey (tdTick td)) td)"

definition txTick :: "u8 list \<Rightarrow> u32" where
  "txTick tx = load_le (field 72 4 tx)"

definition txInputSize :: "u8 list \<Rightarrow> u16" where
  "txInputSize tx = load_le (field 78 2 tx)"

definition txSize :: "u8 list \<Rightarrow> nat" where
  "txSize tx = 80 + unat (txInputSize tx) + 64"

definition db_insert_transaction :: "'s env \<Rightarrow> u8 list \<Rightarrow> 's servers \<Rightarrow> bool \<times> 's servers" where
  "db_insert_transaction E tx =
     (let tx = take (txSize tx) tx
      in onKeydb (rSetNX (g_redis E) (''transaction:'' @ getQubicHash tx True) tx))"

definition db_delete_transaction :: "'s env \<Rightarrow> string \<Rightarrow> 's servers \<Rightarrow> bool \<times> 's servers" where
  "db_delete_transaction E hash = onKeydb (rUnlink (g_redis E) [''transaction:'' @ hash])"

definition db_delete_tick_data :: "'s env \<Rightarrow> u32 \<Rightarrow> 's servers \<Rightarrow> bool \<times> 's servers" where
  "db_delete_tick_data E tick = onKeydb (rUnlink (g_redis E) [tickDataKey tick])"

definition db_delete_tick_vote :: "'s env \<Rightarrow> u32 \<Rightarrow> 's servers \<Rightarrow> bool \<times> 's servers" where
  "db_delete_tick_vote E tick = onKeydb (rUnlink (g_redis E) (map (\<lambda>i. tickVoteKey tick (of_nat i)) [0..<676]))"

text \<open>The votes of a tick are read in batches of 128 keys; an error ends the loop with what was read so far.\<close>

function votesFrom :: "'s redis \<Rightarrow> 's \<Rightarrow> u32 \<Rightarrow> nat \<Rightarrow> u8 list list" where
  "votesFrom R s tick start =
     (if start < 676
      then case rMGet R (map (\<lambda>i. tickVoteKey tick (of_nat i)) [start..<min 676 (start + 128)]) s of
          None \<Rightarrow> []
        | Some vals \<Rightarrow> [v. Some v \<leftarrow> vals, length v = sizeofTickVote] @ votesFrom R s tick (start + 128)
      else [])"
  by pat_completeness auto
termination by (relation "measure (\<lambda>(R, s, tick, start). 676 - start)") auto

declare votesFrom.simps [simp del]

definition db_get_tick_votes :: "'s env \<Rightarrow> 's servers \<Rightarrow> u32 \<Rightarrow> u8 list list" where
  "db_get_tick_votes E st tick = votesFrom (g_redis E) (keydb st) tick 0"

definition db_get_transaction :: "'s redis \<Rightarrow> 's \<Rightarrow> string \<Rightarrow> u8 list option" where
  "db_get_transaction R s tx_hash = getOr R s (''transaction:'' @ tx_hash)"

definition db_try_get_transaction :: "'s env \<Rightarrow> 's servers \<Rightarrow> string \<Rightarrow> u8 list option" where
  "db_try_get_transaction E st tx_hash =
     (case db_get_transaction (g_redis E) (keydb st) tx_hash of
        Some tx \<Rightarrow> Some tx
      | None \<Rightarrow> db_get_transaction (g_kvrocks E) (kvrocks st) tx_hash)"

definition db_copy_transaction_to_kvrocks :: "'s env \<Rightarrow> string \<Rightarrow> 's servers \<Rightarrow> bool \<times> 's servers" where
  "db_copy_transaction_to_kvrocks E tx_hash st =
     (case getOr (g_redis E) (keydb st) (''transaction:'' @ tx_hash) of
        None \<Rightarrow> (False, st)
      | Some val \<Rightarrow> onKvrocks (rSet (g_kvrocks E) (''transaction:'' @ tx_hash) val) st)"

section \<open>Logs\<close>

definition db_insert_log :: "'s env \<Rightarrow> u16 \<Rightarrow> u64 \<Rightarrow> u8 list \<Rightarrow> 's servers \<Rightarrow> bool \<times> 's servers" where
  "db_insert_log E epoch logId bytes = onKeydb (rSetNX (g_redis E) (logKey epoch logId) bytes)"

text \<open>The sanity checks on a stored log.\<close>

definition logOf :: "u16 \<Rightarrow> u64 \<Rightarrow> u8 list option \<Rightarrow> LogEvent option" where
  "logOf epoch logId val =
     (case val of None \<Rightarrow> None
      | Some bytes \<Rightarrow>
          let log = updateContent bytes \<lparr>content = []\<rparr>
          in if \<not> hasPackedHeader log then None
          else if getEpoch log \<noteq> epoch \<or> getLogId log \<noteq> logId then None
          else Some log)"

definition db_try_get_log :: "'s env \<Rightarrow> 's servers \<Rightarrow> u16 \<Rightarrow> u64 \<Rightarrow> LogEvent option" where
  "db_try_get_log E st epoch logId =
     (case logOf epoch logId (getOr (g_redis E) (keydb st) (logKey epoch logId)) of
        Some log \<Rightarrow> Some log
      | None \<Rightarrow> logOf epoch logId (getOr (g_kvrocks E) (kvrocks st) (logKey epoch logId)))"

definition db_move_log_to_kvrocks :: "'s env \<Rightarrow> u16 \<Rightarrow> u64 \<Rightarrow> 's servers \<Rightarrow> bool \<times> 's servers" where
  "db_move_log_to_kvrocks E epoch logId st =
     (if rExists (g_redis E) (logKey epoch logId) (keydb st) \<noteq> Some True then (False, st)
      else case getOr (g_redis E) (keydb st) (logKey epoch logId) of
        None \<Rightarrow> (False, st)
      | Some val \<Rightarrow> onKvrocks (rSet (g_kvrocks E) (logKey epoch logId) val) st)"

text \<open>The two loops over a range of log ids; the ids are those of a \<open>long long\<close>, both ends included.\<close>

definition logIds :: "int \<Rightarrow> int \<Rightarrow> u64 list" where
  "logIds start end = map of_int [start..end]"

fun deleteLogList :: "'s redis \<Rightarrow> string list \<Rightarrow> 's \<Rightarrow> bool \<times> 's" where
  "deleteLogList R [] s = (True, s)"
| "deleteLogList R (key # keys) s = (case rUnlink R [key] s of None \<Rightarrow> (False, s) | Some s \<Rightarrow> deleteLogList R keys s)"

definition db_delete_logs :: "'s env \<Rightarrow> u16 \<Rightarrow> int \<Rightarrow> int \<Rightarrow> 's servers \<Rightarrow> bool \<times> 's servers" where
  "db_delete_logs E epoch start end st =
     (let (ok, s) = deleteLogList (g_redis E) (map (logKey epoch) (logIds start end)) (keydb st)
      in (ok, st\<lparr>keydb := s\<rparr>))"

definition moveLogStep :: "'s env \<Rightarrow> u16 \<Rightarrow> u64 \<Rightarrow> bool \<times> 's servers \<Rightarrow> bool \<times> 's servers" where
  "moveLogStep E epoch logId r =
     (let (moved, st) = db_move_log_to_kvrocks E epoch logId (snd r) in (fst r \<and> moved, st))"

definition db_move_logs_to_kvrocks_by_range :: "'s env \<Rightarrow> u16 \<Rightarrow> int \<Rightarrow> int \<Rightarrow> 's servers \<Rightarrow> bool \<times> 's servers" where
  "db_move_logs_to_kvrocks_by_range E epoch fromId toId st =
     (if fromId < 0 \<or> toId < fromId then (False, st)
      else fold (moveLogStep E epoch) (logIds fromId toId) (True, st))"

section \<open>Log ranges\<close>

definition sizeofLogRanges :: nat where
  "sizeofLogRanges = 16 * LOG_TX_PER_TICK"

definition decodeLogRanges :: "u8 list \<Rightarrow> LogRangesPerTxInTick" where
  "decodeLogRanges bs =
     \<lparr>fromLogId = (\<lambda>i. load_le (field (8 * i) 8 bs)), logLength = (\<lambda>i. load_le (field (8 * LOG_TX_PER_TICK + 8 * i) 8 bs))\<rparr>"

text \<open>\<open>std::to_string\<close> and \<open>std::stoll\<close> of a signed number; \<open>None\<close> is a thrown exception.\<close>

definition int_to_string :: "int \<Rightarrow> string" where
  "int_to_string n = (if n < 0 then CHR ''-'' # to_string (nat (- n)) else to_string (nat n))"

definition isDigit :: "char \<Rightarrow> bool" where
  "isDigit c \<longleftrightarrow> 48 \<le> (of_char c :: nat) \<and> (of_char c :: nat) \<le> 57"

definition isSpace :: "char \<Rightarrow> bool" where
  "isSpace c \<longleftrightarrow> (of_char c :: nat) = 32 \<or> 9 \<le> (of_char c :: nat) \<and> (of_char c :: nat) \<le> 13"

definition digitsValue :: "string \<Rightarrow> nat" where
  "digitsValue ds = foldl (\<lambda>n c. 10 * n + (of_char c - 48)) 0 ds"

definition stoll :: "string \<Rightarrow> int option" where
  "stoll cs =
     (let cs = dropWhile isSpace cs;
          negative = (case cs of c # _ \<Rightarrow> c = CHR ''-'' | [] \<Rightarrow> False);
          cs = (case cs of c # rest \<Rightarrow> if c = CHR ''-'' \<or> c = CHR ''+'' then rest else cs | [] \<Rightarrow> []);
          ds = takeWhile isDigit cs;
          n = (if negative then - int (digitsValue ds) else int (digitsValue ds))
      in if ds = [] \<or> n < - (2 ^ 63) \<or> 2 ^ 63 \<le> n then None else Some n)"

text \<open>Smallest first and largest end of the ranges that have logs; \<open>None\<close> when a value below -1 makes the insertion fail.\<close>

fun rangeSpan :: "LogRangesPerTxInTick \<Rightarrow> nat list \<Rightarrow> int \<Rightarrow> int \<Rightarrow> (int \<times> int) option" where
  "rangeSpan lr [] min_log_id max_log_id = Some (min_log_id, max_log_id)"
| "rangeSpan lr (i # is) min_log_id max_log_id =
     (if fromLogId lr i = -1 \<or> logLength lr i = -1 then rangeSpan lr is min_log_id max_log_id
      else let min_log_id = min min_log_id (sint (fromLogId lr i));
               max_log_id = max max_log_id (sint (fromLogId lr i + logLength lr i))
           in if sint (fromLogId lr i) < -1 then None
           else if sint (logLength lr i) < -1 then None
           else rangeSpan lr is min_log_id max_log_id)"

definition db_insert_log_range :: "'s env \<Rightarrow> u32 \<Rightarrow> u8 list \<Rightarrow> 's servers \<Rightarrow> bool \<times> 's servers" where
  "db_insert_log_range E tick logRange st =
     (if list_all (\<lambda>b. b = 0) logRange then (False, st)
      else case rangeSpan (decodeLogRanges logRange) [0..<LOG_TX_PER_TICK] (2 ^ 63 - 1) (- 1) of
        None \<Rightarrow> (False, st)
      | Some (min_log_id, max_log_id) \<Rightarrow>
          let (min_log_id, max_log_id) = (if min_log_id = 2 ^ 63 - 1 then (- 1, - 1) else (min_log_id, max_log_id));
              (ok, st) = onKeydb (rSetNX (g_redis E) (logRangesKey tick) logRange) st
          in if \<not> ok then (False, st)
          else onKeydb (rHMSet (g_redis E) (tickLogRangeKey tick)
            [(''fromLogId'', int_to_string min_log_id),
             (''length'', if min_log_id = - 1 then int_to_string (- 1) else int_to_string (max_log_id - min_log_id))]) st)"

definition db_get_log_ranges :: "'s env \<Rightarrow> 's servers \<Rightarrow> u32 \<Rightarrow> u8 list option" where
  "db_get_log_ranges E st tick =
     (case getOr (g_redis E) (keydb st) (logRangesKey tick) of
        None \<Rightarrow> None
      | Some val \<Rightarrow> if length val \<noteq> sizeofLogRanges then None else Some val)"

definition db_delete_log_ranges :: "'s env \<Rightarrow> u32 \<Rightarrow> 's servers \<Rightarrow> bool \<times> 's servers" where
  "db_delete_log_ranges E tick st =
     (let (ok, st) = onKeydb (rUnlink (g_redis E) [logRangesKey tick]) st
      in if \<not> ok then (False, st) else onKeydb (rUnlink (g_redis E) [tickLogRangeKey tick]) st)"

text \<open>The field pair of a tick on one server; \<open>None\<close> when it is missing, malformed or the command fails.\<close>

definition fetchRange :: "'s redis \<Rightarrow> 's \<Rightarrow> u32 \<Rightarrow> (int \<times> int) option" where
  "fetchRange R s tick =
     (case rHMGet R (tickLogRangeKey tick) [''fromLogId'', ''length''] s of
        Some [Some a, Some b] \<Rightarrow>
          (case (stoll a, stoll b) of
             (Some min_id, Some len) \<Rightarrow> Some (if min_id = - 1 \<or> len = - 1 then (- 1, - 1) else (min_id, len))
           | _ \<Rightarrow> None)
      | _ \<Rightarrow> None)"

definition db_try_get_log_range_for_tick :: "'s env \<Rightarrow> 's servers \<Rightarrow> u32 \<Rightarrow> (int \<times> int) option" where
  "db_try_get_log_range_for_tick E st tick =
     (case fetchRange (g_redis E) (keydb st) tick of
        Some r \<Rightarrow> Some r
      | None \<Rightarrow> fetchRange (g_kvrocks E) (kvrocks st) tick)"

text \<open>The range of several ticks: those without a stored range are left out.\<close>

fun combineRanges :: "(int \<times> int) option list \<Rightarrow> int \<Rightarrow> int \<Rightarrow> int \<times> int" where
  "combineRanges [] minId maxId = (minId, maxId)"
| "combineRanges (r # rs) minId maxId =
     (case r of None \<Rightarrow> combineRanges rs minId maxId
      | Some (tickFromId, tickLength) \<Rightarrow>
          if tickFromId \<noteq> - 1 \<and> tickLength \<noteq> - 1
          then combineRanges rs (min minId tickFromId) (max maxId (tickFromId + tickLength))
          else combineRanges rs minId maxId)"

definition db_get_combined_log_range_for_ticks :: "'s env \<Rightarrow> 's servers \<Rightarrow> nat \<Rightarrow> nat \<Rightarrow> (int \<times> int) option" where
  "db_get_combined_log_range_for_ticks E st startTick endTick =
     (if endTick < startTick then None
      else let (minId, maxId) = combineRanges
                 (map (\<lambda>tick. db_try_get_log_range_for_tick E st (of_nat tick)) [startTick..<Suc endTick]) (2 ^ 63 - 1) (- 1)
           in Some (if minId = 2 ^ 63 - 1 \<or> maxId = - 1 then (- 1, - 1) else (minId, maxId - minId)))"

section \<open>Progress counters\<close>

text \<open>
  The counters live in fields of a hash. The scripts that only raise a counter run atomically on the server; here
  they are one step, with whole numbers for the numbers of the script language.
\<close>

definition hget :: "'s redis \<Rightarrow> string \<Rightarrow> string \<Rightarrow> 's \<Rightarrow> string option option" where
  "hget R key fieldName s = (case rHMGet R key [fieldName] s of Some [v] \<Rightarrow> Some v | _ \<Rightarrow> None)"

definition raiseCounter :: "'s env \<Rightarrow> string \<Rightarrow> string \<Rightarrow> int \<Rightarrow> 's servers \<Rightarrow> bool \<times> 's servers" where
  "raiseCounter E key fieldName new_id =
     onKeydb (\<lambda>s. case hget (g_redis E) key fieldName s of
        None \<Rightarrow> None
      | Some v \<Rightarrow>
          let current_id = (case v of None \<Rightarrow> - 1 | Some cs \<Rightarrow> (case stoll cs of None \<Rightarrow> - 1 | Some n \<Rightarrow> n))
          in if current_id < new_id then rHMSet (g_redis E) key [(fieldName, int_to_string new_id)] s else Some s)"

definition statusKey :: "u16 \<Rightarrow> string" where
  "statusKey epoch = ''db_status:epoch:'' @ to_string (unat epoch)"

definition db_update_latest_log_id :: "'s env \<Rightarrow> u16 \<Rightarrow> int \<Rightarrow> 's servers \<Rightarrow> bool \<times> 's servers" where
  "db_update_latest_log_id E epoch logId = raiseCounter E (statusKey epoch) ''latest_log_id'' logId"

definition db_update_latest_verified_tick :: "'s env \<Rightarrow> u32 \<Rightarrow> 's servers \<Rightarrow> bool \<times> 's servers" where
  "db_update_latest_verified_tick E tick = raiseCounter E ''db_status'' ''latest_verified_tick'' (uint tick)"

text \<open>A counter that is missing or malformed reads as -1.\<close>

definition readCounter :: "'s env \<Rightarrow> string \<Rightarrow> string \<Rightarrow> 's servers \<Rightarrow> int" where
  "readCounter E key fieldName st =
     (case hget (g_redis E) key fieldName (keydb st) of
        Some (Some cs) \<Rightarrow> (case stoll cs of None \<Rightarrow> - 1 | Some n \<Rightarrow> n)
      | _ \<Rightarrow> - 1)"

definition db_get_latest_log_id :: "'s env \<Rightarrow> 's servers \<Rightarrow> u16 \<Rightarrow> int" where
  "db_get_latest_log_id E st epoch = readCounter E (statusKey epoch) ''latest_log_id'' st"

definition db_get_latest_verified_tick :: "'s env \<Rightarrow> 's servers \<Rightarrow> int" where
  "db_get_latest_verified_tick E st = readCounter E ''db_status'' ''latest_verified_tick'' st"

definition db_get_end_epoch_log_range :: "'s env \<Rightarrow> 's servers \<Rightarrow> u16 \<Rightarrow> (int \<times> int) option" where
  "db_get_end_epoch_log_range E st epoch =
     (case rHMGet (g_redis E) (''end_epoch:tick_log_range:'' @ to_string (unat epoch)) [''fromLogId'', ''length''] (keydb st) of
        Some [Some a, Some b] \<Rightarrow> (case (stoll a, stoll b) of (Some f, Some l) \<Rightarrow> Some (f, l) | _ \<Rightarrow> None)
      | _ \<Rightarrow> None)"

definition db_log_exists :: "'s env \<Rightarrow> 's servers \<Rightarrow> u16 \<Rightarrow> u64 \<Rightarrow> bool" where
  "db_log_exists E st epoch logId = (case rExists (g_redis E) (logKey epoch logId) (keydb st) of Some b \<Rightarrow> b | None \<Rightarrow> False)"

definition db_check_log_range :: "'s env \<Rightarrow> 's servers \<Rightarrow> u32 \<Rightarrow> bool" where
  "db_check_log_range E st tick = (case rExists (g_redis E) (logRangesKey tick) (keydb st) of Some b \<Rightarrow> b | None \<Rightarrow> False)"

section \<open>Logs of several ticks\<close>

definition db_try_get_logs :: "'s env \<Rightarrow> 's servers \<Rightarrow> u16 \<Rightarrow> int \<Rightarrow> int \<Rightarrow> LogEvent list" where
  "db_try_get_logs E st epoch logIdStart logIdEnd = List.map_filter (db_try_get_log E st epoch) (logIds logIdStart logIdEnd)"

definition logInRange :: "u16 \<Rightarrow> u32 \<Rightarrow> u32 \<Rightarrow> LogEvent \<Rightarrow> bool" where
  "logInRange epoch start_tick end_tick le \<longleftrightarrow>
     hasPackedHeader le \<and> getEpoch le = epoch \<and> \<not> (getTick le < start_tick \<or> end_tick < getTick le) \<and> selfCheck epoch le"

text \<open>The loop over the ticks, below the largest 32-bit number; the flag is \<open>success\<close>.\<close>

fun logsOfTicks :: "'s env \<Rightarrow> 's servers \<Rightarrow> u16 \<Rightarrow> u32 \<Rightarrow> u32 \<Rightarrow> u32 list \<Rightarrow> LogEvent list \<Rightarrow> bool \<times> LogEvent list" where
  "logsOfTicks E st epoch start_tick end_tick [] out = (True, out)"
| "logsOfTicks E st epoch start_tick end_tick (tick # ticks) out =
     (case db_try_get_log_range_for_tick E st tick of
        None \<Rightarrow> (False, out)
      | Some (fromId, len) \<Rightarrow>
          if fromId = - 1 \<or> len = - 1 \<or> len = 0 then logsOfTicks E st epoch start_tick end_tick ticks out
          else let logs = db_try_get_logs E st epoch fromId (fromId + len - 1)
               in if \<forall>le \<in> set logs. logInRange epoch start_tick end_tick le
                  then logsOfTicks E st epoch start_tick end_tick ticks (out @ logs)
                  else (False, []))"

definition db_get_logs_by_tick_range :: "'s env \<Rightarrow> 's servers \<Rightarrow> u16 \<Rightarrow> u32 \<Rightarrow> u32 \<Rightarrow> bool \<times> LogEvent list" where
  "db_get_logs_by_tick_range E st epoch start_tick end_tick =
     logsOfTicks E st epoch start_tick end_tick (map of_nat [unat start_tick..<Suc (unat end_tick)]) []"

text \<open>The number of votes stored for a tick, -1 after an error.\<close>

function countVotesFrom :: "'s redis \<Rightarrow> 's \<Rightarrow> u32 \<Rightarrow> nat \<Rightarrow> nat \<Rightarrow> int" where
  "countVotesFrom R s tick start count =
     (if start < 676
      then case rMGet R (map (\<lambda>i. tickVoteKey tick (of_nat i)) [start..<min 676 (start + 128)]) s of
          None \<Rightarrow> - 1
        | Some vals \<Rightarrow> countVotesFrom R s tick (start + 128) (count + length (filter (\<lambda>v. v \<noteq> None) vals))
      else int count)"
  by pat_completeness auto
termination by (relation "measure (\<lambda>(R, s, tick, start, count). 676 - start)") auto

declare countVotesFrom.simps [simp del]

definition db_get_tick_vote_count :: "'s env \<Rightarrow> 's servers \<Rightarrow> u32 \<Rightarrow> int" where
  "db_get_tick_vote_count E st tick = countVotesFrom (g_redis E) (keydb st) tick 0 0"

section \<open>Compressed ticks\<close>

definition sizeofFullTick :: nat where
  "sizeofFullTick = sizeofTickData + 676 * sizeofTickVote"

definition putCompressed :: "'s env \<Rightarrow> string \<Rightarrow> u8 list \<Rightarrow> 's servers \<Rightarrow> bool \<times> 's servers" where
  "putCompressed E key bytes st =
     (case ZSTD_compress (zstd E) bytes of
        None \<Rightarrow> (False, st)
      | Some compressed \<Rightarrow> onKvrocks (rSet (g_kvrocks E) key compressed) st)"

definition getCompressed :: "'s env \<Rightarrow> string \<Rightarrow> nat \<Rightarrow> 's servers \<Rightarrow> u8 list option" where
  "getCompressed E key n st =
     (case getOr (g_kvrocks E) (kvrocks st) key of
        None \<Rightarrow> None
      | Some val \<Rightarrow> (case ZSTD_decompress (zstd E) val of
            None \<Rightarrow> None
          | Some bytes \<Rightarrow> if length bytes \<noteq> n then None else Some bytes))"

definition db_insert_vtick_to_kvrocks :: "'s env \<Rightarrow> u32 \<Rightarrow> u8 list \<Rightarrow> 's servers \<Rightarrow> bool \<times> 's servers" where
  "db_insert_vtick_to_kvrocks E tick fullTick = putCompressed E (vtickKey tick) fullTick"

definition db_get_vtick_from_kvrocks :: "'s env \<Rightarrow> 's servers \<Rightarrow> u32 \<Rightarrow> u8 list option" where
  "db_get_vtick_from_kvrocks E st tick = getCompressed E (vtickKey tick) sizeofFullTick st"

definition db_insert_cLogRange_to_kvrocks :: "'s env \<Rightarrow> u32 \<Rightarrow> u8 list \<Rightarrow> 's servers \<Rightarrow> bool \<times> 's servers" where
  "db_insert_cLogRange_to_kvrocks E tick logRange = putCompressed E (cLogRangeKey tick) logRange"

definition db_get_cLogRange_from_kvrocks :: "'s env \<Rightarrow> 's servers \<Rightarrow> u32 \<Rightarrow> u8 list option" where
  "db_get_cLogRange_from_kvrocks E st tick = getCompressed E (cLogRangeKey tick) sizeofLogRanges st"

definition db_insert_TickLogRange_to_kvrocks :: "'s env \<Rightarrow> u32 \<Rightarrow> int \<Rightarrow> int \<Rightarrow> 's servers \<Rightarrow> bool \<times> 's servers" where
  "db_insert_TickLogRange_to_kvrocks E tick logStart logLen =
     onKvrocks (rHMSet (g_kvrocks E) (tickLogRangeKey tick)
       [(''fromLogId'', int_to_string logStart), (''length'', int_to_string logLen)])"

definition db_try_get_log_ranges :: "'s env \<Rightarrow> 's servers \<Rightarrow> u32 \<Rightarrow> u8 list option" where
  "db_try_get_log_ranges E st tick =
     (case db_get_log_ranges E st tick of
        Some lr \<Rightarrow> Some lr
      | None \<Rightarrow> db_get_cLogRange_from_kvrocks E st tick)"

text \<open>The tick data and the votes of a full tick record.\<close>

definition fullTickData :: "u8 list \<Rightarrow> TickData" where
  "fullTickData full = take sizeofTickData full"

definition fullTickVote :: "u8 list \<Rightarrow> nat \<Rightarrow> u8 list" where
  "fullTickVote full i = field (sizeofTickData + sizeofTickVote * i) sizeofTickVote full"

definition db_try_get_tick_data :: "'s env \<Rightarrow> 's servers \<Rightarrow> u32 \<Rightarrow> bool \<times> TickData" where
  "db_try_get_tick_data E st tick =
     (let (ok, data) = db_get_tick_data (getOr (g_redis E) (keydb st)) tick []
      in if ok then (True, data)
      else case db_get_vtick_from_kvrocks E st tick of
        Some full \<Rightarrow> (True, fullTickData full)
      | None \<Rightarrow> (False, replicate sizeofTickData 0))"

definition db_try_get_tick_vote :: "'s env \<Rightarrow> 's servers \<Rightarrow> u32 \<Rightarrow> u8 list list" where
  "db_try_get_tick_vote E st tick =
     (let result = db_get_tick_votes E st tick
      in if result \<noteq> [] then result
      else case db_get_vtick_from_kvrocks E st tick of
        Some full \<Rightarrow> filter (\<lambda>v. voteTick (decodeTickVote v) = tick) (map (fullTickVote full) [0..<676])
      | None \<Rightarrow> [])"

section \<open>What is relied on\<close>

text \<open>
  The documented behaviour of the commands that answer: a set value is read back, \<open>SET NX\<close> writes only
  a free key, unlinking frees the keys, no command touches other keys, and a hash lives apart from strings.
\<close>

definition redis_laws :: "'s redis \<Rightarrow> bool" where
  "redis_laws R \<longleftrightarrow>
     (\<forall>k v s s'. rSet R k v s = Some s' \<longrightarrow> (\<forall>j. getOr R s' j = (if j = k then Some v else getOr R s j))) \<and>
     (\<forall>k v s s'. rSetNX R k v s = Some s' \<longrightarrow>
        (\<forall>j. getOr R s' j = (if j = k \<and> getOr R s k = None then Some v else getOr R s j))) \<and>
     (\<forall>ks s s'. rUnlink R ks s = Some s' \<longrightarrow> (\<forall>j. getOr R s' j = (if j \<in> set ks then None else getOr R s j))) \<and>
     (\<forall>ks s vs. rMGet R ks s = Some vs \<longrightarrow> vs = map (getOr R s) ks) \<and>
     (\<forall>k fs s s'. rHMSet R k fs s = Some s' \<longrightarrow> (\<forall>j. getOr R s' j = getOr R s j))"

definition responsive :: "'s redis \<Rightarrow> bool" where
  "responsive R \<longleftrightarrow> (\<forall>k v s. rSet R k v s \<noteq> None) \<and> (\<forall>k v s. rSetNX R k v s \<noteq> None) \<and> (\<forall>ks s. rUnlink R ks s \<noteq> None) \<and>
     (\<forall>ks s. rMGet R ks s \<noteq> None) \<and> (\<forall>k fs s. rHMSet R k fs s \<noteq> None)"

lemma redis_set: "redis_laws R \<Longrightarrow> rSet R k v s = Some s' \<Longrightarrow> getOr R s' j = (if j = k then Some v else getOr R s j)"
  unfolding redis_laws_def by metis

lemma redis_setNX:
  "redis_laws R \<Longrightarrow> rSetNX R k v s = Some s' \<Longrightarrow> getOr R s' j = (if j = k \<and> getOr R s k = None then Some v else getOr R s j)"
  unfolding redis_laws_def by metis

lemma redis_unlink: "redis_laws R \<Longrightarrow> rUnlink R ks s = Some s' \<Longrightarrow> getOr R s' j = (if j \<in> set ks then None else getOr R s j)"
  unfolding redis_laws_def by metis

lemma redis_mget: "redis_laws R \<Longrightarrow> rMGet R ks s = Some vs \<Longrightarrow> vs = map (getOr R s) ks"
  unfolding redis_laws_def by metis

lemma redis_hmset: "redis_laws R \<Longrightarrow> rHMSet R k fs s = Some s' \<Longrightarrow> getOr R s' j = getOr R s j"
  unfolding redis_laws_def by metis

definition codec_laws :: "codec \<Rightarrow> bool" where
  "codec_laws Z \<longleftrightarrow> (\<forall>x. \<exists>y. ZSTD_compress Z x = Some y \<and> ZSTD_decompress Z y = Some x)"

text \<open>A server in memory that behaves so.\<close>

type_synonym memory_server = "(string \<rightharpoonup> u8 list) \<times> (string \<Rightarrow> string \<rightharpoonup> string)"

definition memoryRedis :: "memory_server redis" where
  "memoryRedis = \<lparr>rGet = (\<lambda>k s. Some (fst s k)), rMGet = (\<lambda>ks s. Some (map (fst s) ks)), rExists = (\<lambda>k s. Some (fst s k \<noteq> None)),
     rSet = (\<lambda>k v s. Some ((fst s)(k \<mapsto> v), snd s)), rSetNX = (\<lambda>k v s. Some (if fst s k = None then (fst s)(k \<mapsto> v) else fst s, snd s)),
     rUnlink = (\<lambda>ks s. Some (\<lambda>j. if j \<in> set ks then None else fst s j, snd s)),
     rHMSet = (\<lambda>k fs s. Some (fst s, (snd s)(k := snd s k ++ map_of (rev fs)))), rHMGet = (\<lambda>k fs s. Some (map (snd s k) fs))\<rparr>"

definition plainCodec :: codec where
  "plainCodec = \<lparr>ZSTD_compress = Some, ZSTD_decompress = Some\<rparr>"

lemma memoryRedis_laws: "redis_laws memoryRedis" and memoryRedis_responsive: "responsive memoryRedis" and plainCodec_laws: "codec_laws plainCodec"
  by (auto simp: redis_laws_def responsive_def codec_laws_def memoryRedis_def plainCodec_def getOr_def)

lemma memoryRedis_get [simp]: "getOr memoryRedis s k = fst s k"
  by (simp add: getOr_def memoryRedis_def)

section \<open>Keys do not collide\<close>

lemma to_string_digits: "c \<in> set (to_string n) \<Longrightarrow> isDigit c"
proof (induction n rule: to_string.induct)
  case (1 n)
  then show ?case by (subst (asm) (2) to_string.simps) (auto simp: isDigit_def split: if_splits)
qed

lemma digitsValue_append: "digitsValue (xs @ [c]) = 10 * digitsValue xs + (of_char c - 48)"
  by (simp add: digitsValue_def)

lemma digitsValue_to_string: "digitsValue (to_string n) = n"
proof (induction n rule: to_string.induct)
  case (1 n)
  show ?case
  proof (cases "n < 10")
    case True
    then have "to_string n = [] @ [char_of (n + 48)]" by (simp add: to_string.simps [of n])
    then show ?thesis using True by (simp only: digitsValue_append) (simp add: digitsValue_def)
  next
    case False
    then have "to_string n = to_string (n div 10) @ [char_of (n mod 10 + 48)]" by (subst to_string.simps) simp
    then show ?thesis using 1 [OF False] by (simp only: digitsValue_append) simp
  qed
qed

lemma to_string_eq [simp]: "to_string m = to_string n \<longleftrightarrow> m = n"
  by (metis digitsValue_to_string)

lemma colon_not_digit: "CHR '':'' \<notin> set (to_string n)"
  using to_string_digits [of "CHR '':''" n] by (auto simp: isDigit_def)

lemma split_at_colon:
  assumes "a @ CHR '':'' # b = c @ CHR '':'' # d" and "CHR '':'' \<notin> set a" and "CHR '':'' \<notin> set c"
  shows "a = c \<and> b = d"
  using assms
proof (induction a arbitrary: c)
  case Nil
  then show ?case by (cases c) auto
next
  case (Cons x a)
  then show ?case by (cases c) auto
qed

lemma tickVoteKey_eq [simp]: "tickVoteKey t i = tickVoteKey u j \<longleftrightarrow> t = u \<and> i = j"
proof
  assume "tickVoteKey t i = tickVoteKey u j"
  then have "to_string (unat t) @ CHR '':'' # to_string (unat i) = to_string (unat u) @ CHR '':'' # to_string (unat j)"
    by (simp add: tickVoteKey_def)
  from split_at_colon [OF this colon_not_digit colon_not_digit] show "t = u \<and> i = j" by (simp add: word_unat_eq_iff)
qed simp

lemma logKey_eq [simp]: "logKey e i = logKey f j \<longleftrightarrow> e = f \<and> i = j"
proof
  assume "logKey e i = logKey f j"
  then have "to_string (unat e) @ CHR '':'' # to_string (unat i) = to_string (unat f) @ CHR '':'' # to_string (unat j)"
    by (simp add: logKey_def)
  from split_at_colon [OF this colon_not_digit colon_not_digit] show "e = f \<and> i = j" by (simp add: word_unat_eq_iff)
qed simp

lemma tickDataKey_eq [simp]: "tickDataKey t = tickDataKey u \<longleftrightarrow> t = u"
  by (simp add: tickDataKey_def word_unat_eq_iff)

lemma vtickKey_eq [simp]: "vtickKey t = vtickKey u \<longleftrightarrow> t = u"
  by (simp add: vtickKey_def word_unat_eq_iff)

lemma keys_distinct [simp]:
  "tickVoteKey t i \<noteq> tickDataKey u" "tickDataKey u \<noteq> tickVoteKey t i" "vtickKey t \<noteq> cLogRangeKey u" "cLogRangeKey u \<noteq> vtickKey t"
  "tickVoteKey t i \<noteq> logKey e l" "logKey e l \<noteq> tickVoteKey t i" "tickDataKey u \<noteq> logKey e l" "logKey e l \<noteq> tickDataKey u"
  "tickVoteKey t i \<noteq> ''transaction:'' @ h" "''transaction:'' @ h \<noteq> tickVoteKey t i" "tickDataKey u \<noteq> ''transaction:'' @ h"
  "''transaction:'' @ h \<noteq> tickDataKey u" "logRangesKey u \<noteq> logKey e l" "logKey e l \<noteq> logRangesKey u"
  by (simp_all add: tickVoteKey_def tickDataKey_def vtickKey_def cLogRangeKey_def logKey_def logRangesKey_def)

section \<open>What is read was checked\<close>

lemma logsOfTicks_checked:
  assumes "logsOfTicks E st epoch a b ticks out = (True, logs)" and "\<forall>le \<in> set out. logInRange epoch a b le"
  shows "\<forall>le \<in> set logs. logInRange epoch a b le"
  using assms
proof (induction ticks arbitrary: out)
  case (Cons t ticks)
  then show ?case by (auto simp: Let_def split: option.splits if_splits prod.splits dest!: Cons.IH)
qed simp

text \<open>
  When the log events of a range of ticks are fetched successfully, every event returned is of
  the epoch asked for and of a tick in the range, and passes the self check, so that the reads of its body are in bounds.
\<close>

lemma fetched_logs_are_checked:
  assumes "db_get_logs_by_tick_range E st epoch start_tick end_tick = (True, logs)" and "le \<in> set logs"
  shows "getEpoch le = epoch \<and> start_tick \<le> getTick le \<and> getTick le \<le> end_tick \<and> selfCheck epoch le"
  using logsOfTicks_checked [OF assms(1) [unfolded db_get_logs_by_tick_range_def]] assms(2)
  by (auto simp: logInRange_def)

definition exampleEvent :: LogEvent where
  "exampleEvent = makeEvent 200 7 8 1 (replicate 44 9)"

definition exampleEnv :: "memory_server env" where
  "exampleEnv = \<lparr>g_redis = memoryRedis, g_kvrocks = memoryRedis, zstd = plainCodec\<rparr>"

lemma exampleEvent_ok: "logInRange 200 7 7 exampleEvent"
proof -
  have "selfCheck 200 (makeEvent 200 7 8 1 (replicate 44 9))"
    by (rule selfCheck_makeEvent) (simp_all add: expectedMinBodySizeForType_def)
  then show ?thesis by (simp add: logInRange_def exampleEvent_def hasPackedHeader_def PackedHeaderSize_def)
qed

end
