(* ===== verification/GarbageCleaner.thy ===== *)
theory GarbageCleaner
  imports Database
begin

text \<open>
  The garbage cleaner \<open>database/garbageCleaner.cpp\<close>: it packs the votes and the data of old ticks into one compressed
  record of the second server, removes the raw keys, and moves or drops transactions and logs. The lemmas
  show that readers do not notice the move.
\<close>

section \<open>The code\<close>

datatype storageMode = LastNTick | Kvrocks | Free

definition cleanOneTransaction :: "'s env \<Rightarrow> storageMode \<Rightarrow> TickData \<Rightarrow> LogRangesPerTxInTick \<Rightarrow> nat \<Rightarrow> 's servers \<Rightarrow> 's servers" where
  "cleanOneTransaction E txMode td lr i st =
     (if tdTransactionDigests td i = 0 then st
      else let hash = hashOfDigest (tdTransactionDigests td i);
               st = (if txMode = Kvrocks then snd (db_copy_transaction_to_kvrocks E hash st) else st);
               st = (if 0 < sint (fromLogId lr i) \<and> 0 < sint (logLength lr i)
                     then let start = sint (fromLogId lr i);
                              end = sint (fromLogId lr i + logLength lr i - 1);
                              st = (if txMode = Kvrocks then snd (db_move_logs_to_kvrocks_by_range E (tdEpoch td) start end st) else st)
                          in snd (db_delete_logs E (tdEpoch td) start end st)
                     else st)
           in snd (db_delete_transaction E hash st))"

definition cleanTransactionAndLogsAndSaveToDisk :: "'s env \<Rightarrow> storageMode \<Rightarrow> TickData \<Rightarrow> LogRangesPerTxInTick \<Rightarrow> 's servers \<Rightarrow> 's servers" where
  "cleanTransactionAndLogsAndSaveToDisk E txMode td lr st =
     fold (cleanOneTransaction E txMode td lr) [0..<NUMBER_OF_TRANSACTIONS_PER_TICK] st"

definition emptyVote :: "u8 list" where
  "emptyVote = replicate sizeofTickVote 0"

definition placeVote :: "u8 list \<Rightarrow> u8 list list \<times> nat \<times> nat \<Rightarrow> u8 list list \<times> nat \<times> nat" where
  "placeVote v acc =
     (case acc of (tv, count, emptyCount) \<Rightarrow>
        let vote = decodeTickVote v
        in if unat (computorIndex vote) < 676 \<and> voteEpoch vote \<noteq> 0
           then (tv[unat (computorIndex vote) := v], count + 1, if transactionDigest vote = 0 then emptyCount + 1 else emptyCount)
           else acc)"

definition compressTickAndMoveToKVRocks :: "'s env \<Rightarrow> u32 \<Rightarrow> 's servers \<Rightarrow> 's servers" where
  "compressTickAndMoveToKVRocks E tick st =
     (let votes = db_get_tick_votes E st tick;
          (tv, count, emptyCount) = fold placeVote votes (replicate 676 emptyVote, 0, 0);
          (ok, td) = db_get_tick_data (getOr (g_redis E) (keydb st)) tick (replicate sizeofTickData 0)
      in if \<not> ok \<and> emptyCount \<le> 225 then st
      else let (ok, st) = db_insert_vtick_to_kvrocks E tick (td @ concat tv) st
      in if \<not> ok then st
      else let st = (case db_try_get_log_ranges E st tick of
                       Some lr \<Rightarrow> snd (db_insert_cLogRange_to_kvrocks E tick lr st) | None \<Rightarrow> st)
      in case db_try_get_log_range_for_tick E st tick of
           Some (log_start, log_len) \<Rightarrow> snd (db_insert_TickLogRange_to_kvrocks E tick log_start log_len st)
         | None \<Rightarrow> st)"

definition cleanTransactionLogs :: "'s env \<Rightarrow> storageMode \<Rightarrow> u32 \<Rightarrow> 's servers \<Rightarrow> bool \<times> 's servers" where
  "cleanTransactionLogs E txMode tick st =
     (let (ok, td) = db_try_get_tick_data E st tick
      in if \<not> ok then (False, st)
      else case db_try_get_log_ranges E st tick of
        None \<Rightarrow> (False, st)
      | Some lr \<Rightarrow>
          let (_, st) = db_delete_log_ranges E tick st
          in (True, cleanTransactionAndLogsAndSaveToDisk E txMode td (decodeLogRanges lr) st))"

definition cleanOneTick :: "'s env \<Rightarrow> storageMode \<Rightarrow> bool \<Rightarrow> u32 \<Rightarrow> 's servers \<Rightarrow> 's servers" where
  "cleanOneTick E txMode withTransactions tick st =
     (let st = (if withTransactions then snd (cleanTransactionLogs E txMode tick st) else st);
          st = snd (db_delete_tick_data E tick st)
      in snd (db_delete_tick_vote E tick st))"

text \<open>The ticks of a loop from \<open>fromTick\<close> to \<open>toTick\<close>, both included (below the largest 32-bit number).\<close>

definition tickRange :: "int \<Rightarrow> int \<Rightarrow> u32 list" where
  "tickRange fromTick toTick = map of_int [fromTick..toTick]"

definition cleanRawTick :: "'s env \<Rightarrow> storageMode \<Rightarrow> int \<Rightarrow> int \<Rightarrow> bool \<Rightarrow> 's servers \<Rightarrow> 's servers" where
  "cleanRawTick E txMode fromTick toTick withTransactions st =
     fold (cleanOneTick E txMode withTransactions) (tickRange fromTick toTick) st"

text \<open>The state of the thread, and one turn of its loop.\<close>

record cleaner =
  lastCleanTickData :: int
  lastCleanTransactionTick :: int

record cleanerConfig =
  gTickStorageMode :: storageMode
  gTxStorageMode :: storageMode
  gLastNTickStorage :: int
  gTxTickToLive :: int

definition db_insert_u32 :: "'s env \<Rightarrow> string \<Rightarrow> u32 \<Rightarrow> 's servers \<Rightarrow> 's servers" where
  "db_insert_u32 E key n st = snd (onKeydb (rSet (g_redis E) key (map of_char (to_string (unat n)))) st)"

definition stoul :: "string \<Rightarrow> u64 option" where
  "stoul cs =
     (let cs = dropWhile isSpace cs;
          negative = (case cs of c # _ \<Rightarrow> c = CHR ''-'' | [] \<Rightarrow> False);
          cs = (case cs of c # rest \<Rightarrow> if c = CHR ''-'' \<or> c = CHR ''+'' then rest else cs | [] \<Rightarrow> []);
          ds = takeWhile isDigit cs
      in if ds = [] \<or> 2 ^ 64 \<le> digitsValue ds then None
      else Some (if negative then - of_nat (digitsValue ds) else of_nat (digitsValue ds)))"

definition db_get_u32 :: "'s env \<Rightarrow> 's servers \<Rightarrow> string \<Rightarrow> u32 option" where
  "db_get_u32 E st key =
     (case getOr (g_redis E) (keydb st) key of
        None \<Rightarrow> None
      | Some val \<Rightarrow> map_option ucast (stoul (map (\<lambda>b. char_of (unat b)) val)))"

abbreviation KEY_LAST_CLEAN_TICK_DATA :: string where
  "KEY_LAST_CLEAN_TICK_DATA \<equiv> ''garbage_cleaner:last_clean_tick_data''"

abbreviation KEY_LAST_CLEAN_TX_TICK :: string where
  "KEY_LAST_CLEAN_TX_TICK \<equiv> ''garbage_cleaner:last_clean_tx_tick''"

definition loadLastClean :: "u32 option \<Rightarrow> u32 \<Rightarrow> int" where
  "loadLastClean loaded initialTick =
     (let last = (case loaded of Some n \<Rightarrow> if 0 < n then uint n else uint initialTick | None \<Rightarrow> uint initialTick)
      in if last < uint initialTick then uint initialTick else last)"

definition garbageCleanerInit :: "'s env \<Rightarrow> u32 \<Rightarrow> 's servers \<Rightarrow> cleaner" where
  "garbageCleanerInit E gInitialTick st =
     \<lparr>lastCleanTickData = loadLastClean (db_get_u32 E st KEY_LAST_CLEAN_TICK_DATA) gInitialTick,
      lastCleanTransactionTick = loadLastClean (db_get_u32 E st KEY_LAST_CLEAN_TX_TICK) gInitialTick\<rparr>"

definition cleanTicks :: "'s env \<Rightarrow> cleanerConfig \<Rightarrow> int \<Rightarrow> cleaner \<times> 's servers \<Rightarrow> cleaner \<times> 's servers" where
  "cleanTicks E cfg indexing cs =
     (case cs of (c, st) \<Rightarrow>
        if gTickStorageMode cfg = LastNTick then
          let cleanToTick = min (indexing - 5) (indexing - 1 - gLastNTickStorage cfg)
          in if lastCleanTickData c < cleanToTick
             then let st = cleanRawTick E (gTxStorageMode cfg) (lastCleanTickData c + 1) cleanToTick (gTxStorageMode cfg = LastNTick) st
                  in (c\<lparr>lastCleanTickData := cleanToTick\<rparr>, db_insert_u32 E KEY_LAST_CLEAN_TICK_DATA (of_int cleanToTick) st)
             else cs
        else if gTickStorageMode cfg = Kvrocks then
          let cleanToTick = indexing - 5
          in if lastCleanTickData c < cleanToTick
             then let st = fold (compressTickAndMoveToKVRocks E) (tickRange (lastCleanTickData c + 1) cleanToTick) st;
                      st = cleanRawTick E (gTxStorageMode cfg) (lastCleanTickData c + 1) cleanToTick False st
                  in (c\<lparr>lastCleanTickData := cleanToTick\<rparr>, db_insert_u32 E KEY_LAST_CLEAN_TICK_DATA (of_int cleanToTick) st)
             else cs
        else cs)"

definition cleanTransactions :: "'s env \<Rightarrow> cleanerConfig \<Rightarrow> int \<Rightarrow> cleaner \<times> 's servers \<Rightarrow> cleaner \<times> 's servers" where
  "cleanTransactions E cfg indexing cs =
     (case cs of (c, st) \<Rightarrow>
        if gTxStorageMode cfg = Kvrocks then
          let cleanToTick = min (indexing - 5) (indexing - 1 - gTxTickToLive cfg)
          in if lastCleanTransactionTick c < cleanToTick
             then let st = fold (\<lambda>t st. snd (cleanTransactionLogs E (gTxStorageMode cfg) t st)) (tickRange (lastCleanTransactionTick c + 1) cleanToTick) st
                  in (c\<lparr>lastCleanTransactionTick := cleanToTick\<rparr>, db_insert_u32 E KEY_LAST_CLEAN_TX_TICK (of_int cleanToTick) st)
             else cs
        else cs)"

definition garbageCleanerStep :: "'s env \<Rightarrow> cleanerConfig \<Rightarrow> int \<Rightarrow> cleaner \<times> 's servers \<Rightarrow> cleaner \<times> 's servers" where
  "garbageCleanerStep E cfg indexing cs = cleanTransactions E cfg indexing (cleanTicks E cfg indexing cs)"

text \<open>After the loop, when the epoch has ended: everything below the current tick is moved or dropped, transactions included.\<close>

definition garbageCleanerEnd :: "'s env \<Rightarrow> cleanerConfig \<Rightarrow> int \<Rightarrow> cleaner \<Rightarrow> 's servers \<Rightarrow> 's servers" where
  "garbageCleanerEnd E cfg indexing c st =
     (let cleanToTick = indexing - 1
      in if lastCleanTickData c < cleanToTick \<and> gTickStorageMode cfg \<noteq> Free
         then let st = (if gTickStorageMode cfg = Kvrocks
                        then fold (compressTickAndMoveToKVRocks E) (tickRange (lastCleanTickData c + 1) cleanToTick) st else st);
                  st = cleanRawTick E (gTxStorageMode cfg) (lastCleanTickData c + 1) cleanToTick True st
              in db_insert_u32 E KEY_LAST_CLEAN_TICK_DATA (of_int cleanToTick) st
         else st)"

text \<open>
  The thread: it starts from the stored counters, each turn reads the tick being indexed, and when the epoch has ended
  (\<open>atEnd\<close> holds the tick read then) the last pass follows.
\<close>

definition garbageCleaner :: "'s env \<Rightarrow> cleanerConfig \<Rightarrow> u32 \<Rightarrow> int list \<Rightarrow> int option \<Rightarrow> 's servers \<Rightarrow> 's servers" where
  "garbageCleaner E cfg gInitialTick readings atEnd st =
     (case fold (garbageCleanerStep E cfg) readings (garbageCleanerInit E gInitialTick st, st) of (c, st) \<Rightarrow>
        case atEnd of None \<Rightarrow> st | Some indexing \<Rightarrow> garbageCleanerEnd E cfg indexing c st)"

section \<open>Reading the votes of a tick\<close>

lemma votesFrom_filter:
  assumes R: "redis_laws R" "responsive R"
  shows "votesFrom R s tick start =
    filter (\<lambda>v. length v = sizeofTickVote) (List.map_filter (\<lambda>i. getOr R s (tickVoteKey tick (of_nat i))) [start..<676])"
proof (induction "676 - start" arbitrary: start rule: less_induct)
  case less
  have flat: "[v. Some v \<leftarrow> vals, length v = n] = filter (\<lambda>v. length v = n) (List.map_filter id vals)" for vals :: "u8 list option list" and n
    by (induction vals) (auto split: option.splits simp: List.map_filter_simps)
  have comp: "List.map_filter id (map f xs) = List.map_filter f xs" for f :: "nat \<Rightarrow> u8 list option" and xs
    by (induction xs) (simp_all add: List.map_filter_simps split: option.split)
  show ?case
  proof (cases "start < 676")
    case True
    let ?stop = "min 676 (start + 128)"
    obtain vals where vals: "rMGet R (map (\<lambda>i. tickVoteKey tick (of_nat i)) [start..<?stop]) s = Some vals"
      using R(2) unfolding responsive_def by blast
    then have v: "vals = map (\<lambda>i. getOr R s (tickVoteKey tick (of_nat i))) [start..<?stop]"
      using redis_mget [OF R(1)] by (fastforce simp: o_def)
    have split: "[start..<676] = [start..<?stop] @ [?stop..<676]" using True upt_add_eq_append [of start ?stop "676 - ?stop"] by (auto simp: min_def)
    have rest: "votesFrom R s tick (start + 128) =
        filter (\<lambda>v. length v = sizeofTickVote) (List.map_filter (\<lambda>i. getOr R s (tickVoteKey tick (of_nat i))) [?stop..<676])"
    proof (cases "start + 128 < 676")
      case True
      then show ?thesis using less [of "start + 128"] by (simp add: min_def)
    next
      case False
      then have "[?stop..<676] = []" by (simp add: min_def)
      then show ?thesis using False by (simp add: votesFrom.simps [of R s tick "start + 128"] List.map_filter_simps del: upt_eq_Nil_conv)
    qed
    have app: "List.map_filter f (xs @ ys) = List.map_filter f xs @ List.map_filter f ys" for f :: "nat \<Rightarrow> u8 list option" and xs ys
      by (simp add: List.map_filter_def)
    have "votesFrom R s tick start = [v. Some v \<leftarrow> vals, length v = sizeofTickVote] @ votesFrom R s tick (start + 128)"
      using True vals by (subst votesFrom.simps) simp
    then show ?thesis unfolding flat rest v comp split app filter_append .
  qed (simp add: votesFrom.simps [of R s tick start] List.map_filter_simps)
qed

section \<open>The packed record\<close>

text \<open>The votes of a tick as the packet handler stores them: each under its own index, with an epoch and the tick.\<close>

definition vote_ok :: "u32 \<Rightarrow> nat \<Rightarrow> u8 list \<Rightarrow> bool" where
  "vote_ok tick i v \<longleftrightarrow> length v = sizeofTickVote \<and> unat (computorIndex (decodeTickVote v)) = i \<and>
     voteEpoch (decodeTickVote v) \<noteq> 0 \<and> voteTick (decodeTickVote v) = tick"

definition slotVote :: "u8 list option \<Rightarrow> u8 list" where
  "slotVote x = (case x of None \<Rightarrow> emptyVote | Some v \<Rightarrow> v)"

lemma place_votes:
  assumes ok: "\<And>i v. i < 676 \<Longrightarrow> val i = Some v \<Longrightarrow> vote_ok tick i v" and "n \<le> 676"
  shows "fst (fold placeVote (List.map_filter val [0..<n]) (replicate 676 emptyVote, c)) =
    map (\<lambda>i. if i < n then slotVote (val i) else emptyVote) [0..<676]"
  using assms(2)
proof (induction n)
  case 0
  show ?case by (simp add: List.map_filter_simps map_replicate_const del: upt_rec_numeral)
next
  case (Suc n)
  obtain tv count emptyCount where f: "fold placeVote (List.map_filter val [0..<n]) (replicate 676 emptyVote, c) = (tv, count, emptyCount)"
    by (metis prod_cases3)
  have tv: "tv = map (\<lambda>i. if i < n then slotVote (val i) else emptyVote) [0..<676]" using Suc f by simp
  have split: "List.map_filter val [0..<Suc n] = List.map_filter val [0..<n] @ (case val n of None \<Rightarrow> [] | Some v \<Rightarrow> [v])"
    by (simp add: List.map_filter_def split: option.split)
  show ?case
  proof (cases "val n")
    case None
    then have "(if i < Suc n then slotVote (val i) else emptyVote) = (if i < n then slotVote (val i) else emptyVote)" for i
      by (auto simp: less_Suc_eq slotVote_def)
    then show ?thesis using None f tv unfolding split by simp
  next
    case (Some v)
    have v: "vote_ok tick n v" using ok Some Suc.prems by simp
    have "tv[n := v] = map (\<lambda>i. if i < Suc n then slotVote (val i) else emptyVote) [0..<676]"
      by (rule nth_equalityI) (auto simp: tv nth_list_update less_Suc_eq slotVote_def Some simp del: upt_rec_numeral)
    moreover have "fst (placeVote v (tv, count, emptyCount)) = tv[n := v]" using v Suc.prems by (simp add: placeVote_def vote_ok_def Let_def)
    ultimately show ?thesis using Some f unfolding split by simp
  qed
qed

lemma field_concat:
  assumes "\<forall>x \<in> set xs. length x = n" and "i < length xs"
  shows "take n (drop (n * i) (concat xs)) = xs ! i"
  using assms
proof (induction xs arbitrary: i)
  case (Cons x xs)
  then show ?case by (cases i) simp_all
qed simp

lemma packed_fields:
  assumes td: "length td = sizeofTickData" and tv: "\<forall>v \<in> set tv. length v = sizeofTickVote" "length tv = 676"
  shows "fullTickData (td @ concat tv) = td" and "i < 676 \<Longrightarrow> fullTickVote (td @ concat tv) i = tv ! i"
    and "length (td @ concat tv) = sizeofFullTick"
proof -
  show "fullTickData (td @ concat tv) = td" by (simp add: fullTickData_def td)
  show "i < 676 \<Longrightarrow> fullTickVote (td @ concat tv) i = tv ! i"
    using field_concat [OF tv(1), of i] tv(2) by (simp add: fullTickVote_def field_def td)
  have "map length tv = replicate (length tv) sizeofTickVote" using tv(1) by (simp add: map_replicate_const [symmetric] cong: map_cong)
  then show "length (td @ concat tv) = sizeofFullTick" by (simp add: length_concat td sizeofFullTick_def sum_list_replicate tv(2))
qed

lemma filter_slots:
  assumes "\<And>i v. i < 676 \<Longrightarrow> val i = Some v \<Longrightarrow> vote_ok tick i v" and "tick \<noteq> 0" and "n \<le> 676"
  shows "filter (\<lambda>v. voteTick (decodeTickVote v) = tick) (map (\<lambda>i. slotVote (val i)) [0..<n]) = List.map_filter val [0..<n]"
  using assms(3)
proof (induction n)
  case (Suc n)
  have "voteTick (decodeTickVote emptyVote) = 0"
    by (simp add: emptyVote_def decodeTickVote_def field_def load_le_def sizeofTickVote_def take_replicate drop_replicate)
      (simp add: eval_nat_numeral)
  then show ?case using Suc assms(1) [of n] assms(2)
    by (cases "val n") (auto simp: List.map_filter_def slotVote_def vote_ok_def)
qed (simp add: List.map_filter_simps)

section \<open>Moving a tick\<close>

lemma onKeydb_value: "onKeydb command st = (True, st') \<longleftrightarrow> (\<exists>s. command (keydb st) = Some s \<and> st' = st\<lparr>keydb := s\<rparr>)"
  by (auto simp: onKeydb_def split: option.splits)

lemma unlink_tick:
  assumes R: "redis_laws (g_redis E)" "responsive (g_redis E)"
  shows "kvrocks (cleanOneTick E m False tick st) = kvrocks st"
    and "getOr (g_redis E) (keydb (cleanOneTick E m False tick st)) k =
      (if k = tickDataKey tick \<or> k \<in> (\<lambda>i. tickVoteKey tick (of_nat i)) ` {0..<676} then None else getOr (g_redis E) (keydb st) k)"
proof -
  obtain s1 where s1: "rUnlink (g_redis E) [tickDataKey tick] (keydb st) = Some s1" using R(2) unfolding responsive_def by blast
  obtain s2 where s2: "rUnlink (g_redis E) (map (\<lambda>i. tickVoteKey tick (of_nat i)) [0..<676]) s1 = Some s2" using R(2) unfolding responsive_def by blast
  have st: "cleanOneTick E m False tick st = st\<lparr>keydb := s2\<rparr>"
    by (simp add: cleanOneTick_def db_delete_tick_data_def db_delete_tick_vote_def onKeydb_def s1 s2 del: upt_rec_numeral)
  show "kvrocks (cleanOneTick E m False tick st) = kvrocks st" by (simp add: st)
  show "getOr (g_redis E) (keydb (cleanOneTick E m False tick st)) k =
      (if k = tickDataKey tick \<or> k \<in> (\<lambda>i. tickVoteKey tick (of_nat i)) ` {0..<676} then None else getOr (g_redis E) (keydb st) k)"
    using redis_unlink [OF R(1) s2, of k] redis_unlink [OF R(1) s1, of k] by (simp add: st del: upt_rec_numeral) auto
qed

lemma compress_keeps:
  assumes K: "redis_laws (g_kvrocks E)" "responsive (g_kvrocks E)" and Z: "codec_laws (zstd E)"
    and td: "getOr (g_redis E) (keydb st) (tickDataKey tick) = Some td" "length td = sizeofTickData"
    and tv: "fst (fold placeVote (db_get_tick_votes E st tick) (replicate 676 emptyVote, 0, 0)) = tv"
      "length (td @ concat tv) = sizeofFullTick"
  shows "keydb (compressTickAndMoveToKVRocks E tick st) = keydb st"
    and "db_get_vtick_from_kvrocks E (compressTickAndMoveToKVRocks E tick st) tick = Some (td @ concat tv)"
proof -
  obtain count emptyCount where f: "fold placeVote (db_get_tick_votes E st tick) (replicate 676 emptyVote, 0, 0) = (tv, count, emptyCount)"
    using tv(1) by (metis prod.collapse)
  have get: "db_get_tick_data (getOr (g_redis E) (keydb st)) tick d = (True, td)" for d
    using td by (simp add: db_get_tick_data_def tickDataKey_def)
  obtain z where z: "ZSTD_compress (zstd E) (td @ concat tv) = Some z" "ZSTD_decompress (zstd E) z = Some (td @ concat tv)"
    using Z unfolding codec_laws_def by blast
  obtain k1 where k1: "rSet (g_kvrocks E) (vtickKey tick) z (kvrocks st) = Some k1" using K(2) unfolding responsive_def by blast
  define st1 where "st1 = st\<lparr>kvrocks := k1\<rparr>"
  have ins: "db_insert_vtick_to_kvrocks E tick (td @ concat tv) st = (True, st1)"
    by (simp add: db_insert_vtick_to_kvrocks_def putCompressed_def z onKvrocks_def k1 st1_def)
  define st2 where "st2 = (case db_try_get_log_ranges E st1 tick of
    Some lr \<Rightarrow> snd (db_insert_cLogRange_to_kvrocks E tick lr st1) | None \<Rightarrow> st1)"
  define st3 where "st3 = (case db_try_get_log_range_for_tick E st2 tick of
    Some (log_start, log_len) \<Rightarrow> snd (db_insert_TickLogRange_to_kvrocks E tick log_start log_len st2) | None \<Rightarrow> st2)"
  have c: "compressTickAndMoveToKVRocks E tick st = st3"
    unfolding st3_def st2_def by (simp add: compressTickAndMoveToKVRocks_def f get ins Let_def)
  have k1v: "getOr (g_kvrocks E) (kvrocks st1) (vtickKey tick) = Some z" using redis_set [OF K(1) k1] by (simp add: st1_def)
  have "keydb st2 = keydb st \<and> getOr (g_kvrocks E) (kvrocks st2) (vtickKey tick) = Some z"
    unfolding st2_def using k1v
    by (auto simp: db_insert_cLogRange_to_kvrocks_def putCompressed_def onKvrocks_def st1_def redis_set [OF K(1)] split: option.splits)
  then have "keydb st3 = keydb st \<and> getOr (g_kvrocks E) (kvrocks st3) (vtickKey tick) = Some z"
    unfolding st3_def by (auto simp: db_insert_TickLogRange_to_kvrocks_def onKvrocks_def redis_hmset [OF K(1)] split: option.splits)
  then show "keydb (compressTickAndMoveToKVRocks E tick st) = keydb st"
    "db_get_vtick_from_kvrocks E (compressTickAndMoveToKVRocks E tick st) tick = Some (td @ concat tv)"
    using tv(2) by (simp_all add: c db_get_vtick_from_kvrocks_def getCompressed_def z)
qed

lemma unlinked_votes:
  assumes R: "redis_laws (g_redis E)" "responsive (g_redis E)"
  shows "db_get_tick_votes E (cleanOneTick E m False tick st) tick = []"
    and "db_get_tick_data (getOr (g_redis E) (keydb (cleanOneTick E m False tick st))) tick d = (False, d)"
proof -
  have none: "getOr (g_redis E) (keydb (cleanOneTick E m False tick st)) (tickVoteKey tick (of_nat i)) = None" if "i < 676" for i
    using that by (subst unlink_tick(2) [OF R]) auto
  have "List.map_filter (\<lambda>i. getOr (g_redis E) (keydb (cleanOneTick E m False tick st)) (tickVoteKey tick (of_nat i))) [0..<676] = []"
    unfolding List.map_filter_def by (simp add: none filter_empty_conv del: upt_rec_numeral)
  then show "db_get_tick_votes E (cleanOneTick E m False tick st) tick = []"
    unfolding db_get_tick_votes_def votesFrom_filter [OF R] by simp
  have "getOr (g_redis E) (keydb (cleanOneTick E m False tick st)) (tickDataKey tick) = None"
    by (subst unlink_tick(2) [OF R]) simp
  then show "db_get_tick_data (getOr (g_redis E) (keydb (cleanOneTick E m False tick st))) tick d = (False, d)"
    by (simp add: db_get_tick_data_def tickDataKey_def)
qed

lemma votes_in_order:
  assumes R: "redis_laws (g_redis E)" "responsive (g_redis E)"
    and ok: "\<And>i v. i < 676 \<Longrightarrow> getOr (g_redis E) (keydb st) (tickVoteKey tick (of_nat i)) = Some v \<Longrightarrow> vote_ok tick i v"
  shows "db_get_tick_votes E st tick = List.map_filter (\<lambda>i. getOr (g_redis E) (keydb st) (tickVoteKey tick (of_nat i))) [0..<676]"
  unfolding db_get_tick_votes_def votesFrom_filter [OF R]
  by (rule filter_True) (use ok in \<open>auto simp: List.map_filter_def vote_ok_def simp del: upt_rec_numeral\<close>)

section \<open>What the cleaner leaves alone\<close>

text \<open>The keys that cleaning transactions and logs never removes.\<close>

definition outside_logs :: "string \<Rightarrow> bool" where
  "outside_logs k \<longleftrightarrow> (\<forall>h. k \<noteq> ''transaction:'' @ h) \<and> (\<forall>e l. k \<noteq> logKey e l) \<and> (\<forall>t. k \<noteq> logRangesKey t) \<and> (\<forall>t. k \<noteq> tickLogRangeKey t)"

lemma outside_logs_keys: "outside_logs (tickDataKey t)" "outside_logs (tickVoteKey t i)"
    "outside_logs KEY_LAST_CLEAN_TICK_DATA" "outside_logs KEY_LAST_CLEAN_TX_TICK"
  by (simp_all add: outside_logs_def tickDataKey_def tickVoteKey_def logKey_def logRangesKey_def tickLogRangeKey_def)

lemma onKvrocks_keydb: "keydb (snd (onKvrocks c st)) = keydb st"
  by (simp add: onKvrocks_def split: option.split)

lemma unlink_frame:
  assumes "redis_laws (g_redis E)" and "k \<notin> set ks"
  shows "getOr (g_redis E) (keydb (snd (onKeydb (rUnlink (g_redis E) ks) st))) k = getOr (g_redis E) (keydb st) k"
  using redis_unlink [OF assms(1)] assms(2) by (auto simp: onKeydb_def split: option.split)

lemma deleteLogList_frame:
  assumes "redis_laws R" and "k \<notin> set ks"
  shows "getOr R (snd (deleteLogList R ks s)) k = getOr R s k"
  using assms(2)
proof (induction ks arbitrary: s)
  case (Cons key ks)
  then show ?case using redis_unlink [OF assms(1), of "[key]" s _ k] by (auto split: option.split)
qed simp

lemma moveLogs_keydb: "keydb (snd (fold (moveLogStep E epoch) ids r)) = keydb (snd r)"
proof (induction ids arbitrary: r)
  case (Cons i ids)
  then show ?case by (simp add: moveLogStep_def db_move_log_to_kvrocks_def onKvrocks_keydb split: prod.split option.split)
      (metis (no_types, lifting) onKvrocks_keydb snd_conv)
qed simp

lemma cleanOneTransaction_frame:
  assumes R: "redis_laws (g_redis E)" and k: "outside_logs k"
  shows "getOr (g_redis E) (keydb (cleanOneTransaction E m td lr i st)) k = getOr (g_redis E) (keydb st) k"
proof -
  have tx: "getOr (g_redis E) (keydb (snd (db_delete_transaction E h st))) k = getOr (g_redis E) (keydb st) k" for h st
    unfolding db_delete_transaction_def using k by (intro unlink_frame [OF R]) (simp add: outside_logs_def)
  have logs: "getOr (g_redis E) (keydb (snd (db_delete_logs E e a b st))) k = getOr (g_redis E) (keydb st) k" for e a b st
  proof -
    have "k \<notin> set (map (logKey e) (logIds a b))" using k by (auto simp: outside_logs_def)
    from deleteLogList_frame [OF R this, of "keydb st"] show ?thesis by (simp add: db_delete_logs_def case_prod_unfold Let_def)
  qed
  have move: "keydb (snd (db_move_logs_to_kvrocks_by_range E e a b st)) = keydb st" for e a b st
    by (simp add: db_move_logs_to_kvrocks_by_range_def moveLogs_keydb)
  have copy: "keydb (snd (db_copy_transaction_to_kvrocks E h st)) = keydb st" for h st
    by (simp add: db_copy_transaction_to_kvrocks_def onKvrocks_keydb split: option.split)
  show ?thesis by (simp add: cleanOneTransaction_def Let_def tx logs move copy)
qed

lemma cleanTransactionLogs_frame:
  assumes R: "redis_laws (g_redis E)" and k: "outside_logs k"
  shows "getOr (g_redis E) (keydb (snd (cleanTransactionLogs E m tick st))) k = getOr (g_redis E) (keydb st) k"
proof -
  have all: "getOr (g_redis E) (keydb (fold (cleanOneTransaction E m td lr) is st)) k = getOr (g_redis E) (keydb st) k" for td lr "is" st
    by (induction "is" arbitrary: st) (simp_all add: cleanOneTransaction_frame [OF R k])
  have ranges: "getOr (g_redis E) (keydb (snd (db_delete_log_ranges E tick st))) k = getOr (g_redis E) (keydb st) k"
    using unlink_frame [OF R, of k "[logRangesKey tick]" st] unlink_frame [OF R, of k "[tickLogRangeKey tick]"] k
    by (simp add: db_delete_log_ranges_def outside_logs_def split: prod.split) (metis snd_conv)
  show ?thesis
    by (simp add: cleanTransactionLogs_def cleanTransactionAndLogsAndSaveToDisk_def Let_def all ranges split: prod.split option.split)
      (metis ranges snd_conv)
qed

lemma cleanRawTick_frame:
  assumes R: "redis_laws (g_redis E)" and k: "outside_logs k"
    and far: "\<And>t. t \<in> set (tickRange a b) \<Longrightarrow> k \<noteq> tickDataKey t \<and> (\<forall>i. k \<noteq> tickVoteKey t i)"
  shows "getOr (g_redis E) (keydb (cleanRawTick E m a b w st)) k = getOr (g_redis E) (keydb st) k"
proof -
  have one: "getOr (g_redis E) (keydb (cleanOneTick E m w t st)) k = getOr (g_redis E) (keydb st) k"
    if "k \<noteq> tickDataKey t" and "\<forall>i. k \<noteq> tickVoteKey t i" for t st
  proof -
    have "getOr (g_redis E) (keydb (snd (db_delete_tick_data E t st))) k = getOr (g_redis E) (keydb st) k" for st
      unfolding db_delete_tick_data_def using that by (intro unlink_frame [OF R]) simp
    moreover have "getOr (g_redis E) (keydb (snd (db_delete_tick_vote E t st))) k = getOr (g_redis E) (keydb st) k" for st
      unfolding db_delete_tick_vote_def using that by (intro unlink_frame [OF R]) (auto simp del: upt_rec_numeral)
    ultimately show ?thesis by (simp add: cleanOneTick_def Let_def cleanTransactionLogs_frame [OF R k])
  qed
  have "getOr (g_redis E) (keydb (fold (cleanOneTick E m w) ts st)) k = getOr (g_redis E) (keydb st) k"
    if "set ts \<subseteq> set (tickRange a b)" for ts
    using that by (induction ts arbitrary: st) (simp_all add: one far)
  then show ?thesis unfolding cleanRawTick_def by simp
qed

lemma compress_keydb: "keydb (compressTickAndMoveToKVRocks E tick st) = keydb st"
proof -
  have put: "keydb (snd (putCompressed E key x st)) = keydb st" for key x st
    by (simp add: putCompressed_def onKvrocks_keydb split: option.split)
  have "keydb (snd (db_insert_vtick_to_kvrocks E tick x st)) = keydb st" for x st
    by (simp add: db_insert_vtick_to_kvrocks_def put)
  then show ?thesis
    by (auto simp: compressTickAndMoveToKVRocks_def Let_def db_insert_cLogRange_to_kvrocks_def db_insert_TickLogRange_to_kvrocks_def
        put onKvrocks_keydb split: prod.split option.split) (metis snd_conv)+
qed

lemma fold_compress_keydb: "keydb (fold (compressTickAndMoveToKVRocks E) ts st) = keydb st"
  by (induction ts arbitrary: st) (simp_all add: compress_keydb)

lemma fold_transactions_frame:
  assumes "redis_laws (g_redis E)" and "outside_logs k"
  shows "getOr (g_redis E) (keydb (fold (\<lambda>t st. snd (cleanTransactionLogs E m t st)) ts st)) k = getOr (g_redis E) (keydb st) k"
  by (induction ts arbitrary: st) (simp_all add: cleanTransactionLogs_frame [OF assms])

lemma insert_u32_frame:
  assumes "redis_laws (g_redis E)" and "k \<noteq> key"
  shows "getOr (g_redis E) (keydb (db_insert_u32 E key n st)) k = getOr (g_redis E) (keydb st) k"
  using redis_set [OF assms(1)] assms(2) by (auto simp: db_insert_u32_def onKeydb_def split: option.split)

lemma in_tickRange: "t \<in> set (tickRange a b) \<Longrightarrow> 0 \<le> a \<Longrightarrow> b < 2 ^ 32 \<Longrightarrow> a \<le> uint t \<and> uint t \<le> b"
  by (auto simp: tickRange_def uint_word_of_int)

lemma loadLastClean_initial: "uint gInitialTick \<le> loadLastClean x gInitialTick"
  by (simp add: loadLastClean_def Let_def)

lemma raw_key_kept:
  assumes R: "redis_laws (g_redis E)" and key: "k = tickDataKey t \<or> k = tickVoteKey t i"
    and later: "b < uint t" and a: "0 \<le> a"
  shows "getOr (g_redis E) (keydb (cleanRawTick E m a b w st)) k = getOr (g_redis E) (keydb st) k"
proof (rule cleanRawTick_frame [OF R])
  show "outside_logs k" using key outside_logs_keys by auto
  have "b < 2 ^ 32" using later uint_lt2p [of t] by simp
  moreover fix u assume "u \<in> set (tickRange a b)"
  ultimately have "uint u \<le> b" using in_tickRange [of u a b] a by simp
  then have "u \<noteq> t" using later by auto
  then show "k \<noteq> tickDataKey u \<and> (\<forall>i. k \<noteq> tickVoteKey u i)" using key by auto
qed

lemma cleanTicks_counter:
  "0 \<le> lastCleanTickData (fst cs) \<Longrightarrow> 0 \<le> lastCleanTickData (fst (cleanTicks E cfg indexing cs))"
  by (auto simp: cleanTicks_def Let_def split: prod.split)

lemma step_counter:
  "0 \<le> lastCleanTickData (fst cs) \<Longrightarrow> 0 \<le> lastCleanTickData (fst (garbageCleanerStep E cfg indexing cs))"
  using cleanTicks_counter [of cs E cfg indexing]
  by (auto simp: garbageCleanerStep_def cleanTransactions_def Let_def split: prod.split)

lemma recent_key_kept:
  assumes R: "redis_laws (g_redis E)" and key: "k = tickDataKey t \<or> k = tickVoteKey t i"
    and recent: "indexing - 5 < uint t" and counter: "0 \<le> lastCleanTickData (fst cs)"
  shows "getOr (g_redis E) (keydb (snd (garbageCleanerStep E cfg indexing cs))) k = getOr (g_redis E) (keydb (snd cs)) k"
proof -
  have k: "outside_logs k" using key outside_logs_keys by auto
  have g: "k \<noteq> KEY_LAST_CLEAN_TICK_DATA" "k \<noteq> KEY_LAST_CLEAN_TX_TICK" using key by (auto simp: tickDataKey_def tickVoteKey_def)
  obtain c st where cs: "cs = (c, st)" by fastforce
  have raw: "getOr (g_redis E) (keydb (cleanRawTick E m (lastCleanTickData c + 1) b w st)) k = getOr (g_redis E) (keydb st) k"
    if "b \<le> indexing - 5" for m b w st
    using recent counter that by (intro raw_key_kept [OF R key]) (simp_all add: cs)
  have ticks: "getOr (g_redis E) (keydb (snd (cleanTicks E cfg indexing cs))) k = getOr (g_redis E) (keydb (snd cs)) k"
    by (simp add: cs cleanTicks_def Let_def raw insert_u32_frame [OF R g(1)] fold_compress_keydb)
  have "getOr (g_redis E) (keydb (snd (cleanTransactions E cfg indexing cs))) k = getOr (g_redis E) (keydb (snd cs)) k" for cs
    by (simp add: cleanTransactions_def Let_def insert_u32_frame [OF R g(2)] fold_transactions_frame [OF R k] split: prod.split)
  then show ?thesis by (simp add: garbageCleanerStep_def ticks)
qed

lemma recent_key_kept_turns:
  assumes R: "redis_laws (g_redis E)" and key: "k = tickDataKey t \<or> k = tickVoteKey t i"
    and "\<forall>indexing\<in>set readings. indexing - 5 < uint t" and "0 \<le> lastCleanTickData (fst cs)"
  shows "getOr (g_redis E) (keydb (snd (fold (garbageCleanerStep E cfg) readings cs))) k = getOr (g_redis E) (keydb (snd cs)) k \<and>
    0 \<le> lastCleanTickData (fst (fold (garbageCleanerStep E cfg) readings cs))"
  using assms(3,4)
  by (induction readings arbitrary: cs) (simp_all add: step_counter recent_key_kept [OF R key])

lemma last_pass_keeps:
  assumes R: "redis_laws (g_redis E)" and key: "k = tickDataKey t \<or> k = tickVoteKey t i"
    and "indexing \<le> uint t" and "0 \<le> lastCleanTickData c"
  shows "getOr (g_redis E) (keydb (garbageCleanerEnd E cfg indexing c st)) k = getOr (g_redis E) (keydb st) k"
proof -
  have "k \<noteq> KEY_LAST_CLEAN_TICK_DATA" using key by (auto simp: tickDataKey_def tickVoteKey_def)
  then show ?thesis
    using raw_key_kept [OF R key, of "indexing - 1" "lastCleanTickData c + 1"] assms(3,4)
    by (simp add: garbageCleanerEnd_def Let_def insert_u32_frame [OF R] fold_compress_keydb)
qed

text \<open>
  Claim C20. A whole run of the cleaner, from the stored counters through any number of turns of its loop and the last
  pass at the end of the epoch, in every storage mode: the raw data and every raw vote of a tick are as they were if in
  every turn the tick was less than five behind the tick being indexed, and, when the last pass takes place, it is not
  behind the tick being indexed then.
\<close>

theorem recent_ticks_untouched:
  assumes "redis_laws (g_redis E)" and "\<forall>indexing\<in>set readings. indexing - 5 < uint tick"
    and "\<forall>indexing. atEnd = Some indexing \<longrightarrow> indexing \<le> uint tick"
    and "garbageCleaner E cfg gInitialTick readings atEnd st = st'"
  shows "getOr (g_redis E) (keydb st') (tickDataKey tick) = getOr (g_redis E) (keydb st) (tickDataKey tick) \<and>
    getOr (g_redis E) (keydb st') (tickVoteKey tick i) = getOr (g_redis E) (keydb st) (tickVoteKey tick i)"
proof -
  obtain c st1 where run: "fold (garbageCleanerStep E cfg) readings (garbageCleanerInit E gInitialTick st, st) = (c, st1)"
    by fastforce
  have start: "0 \<le> lastCleanTickData (fst (garbageCleanerInit E gInitialTick st, st))"
    using order_trans [OF uint_ge_0 loadLastClean_initial] by (simp add: garbageCleanerInit_def)
  have "getOr (g_redis E) (keydb st') k = getOr (g_redis E) (keydb st) k" if k: "k = tickDataKey tick \<or> k = tickVoteKey tick i" for k
    using recent_key_kept_turns [OF assms(1) k assms(2) start, of cfg] last_pass_keeps [OF assms(1) k, of _ c cfg st1] assms(3,4)
    by (auto simp: garbageCleaner_def run split: option.splits)
  then show ?thesis by blast
qed

text \<open>
  A tick whose data and votes are stored is read back exactly as before, data and votes in their order, after the
  cleaner has packed it for the second server and removed the raw keys.
\<close>

lemma archived_tick_readable:
  assumes R: "redis_laws (g_redis E)" "responsive (g_redis E)"
    and K: "redis_laws (g_kvrocks E)" "responsive (g_kvrocks E)" and Z: "codec_laws (zstd E)"
    and td: "getOr (g_redis E) (keydb st) (tickDataKey tick) = Some td" "length td = sizeofTickData"
    and ok: "\<And>i v. i < 676 \<Longrightarrow> getOr (g_redis E) (keydb st) (tickVoteKey tick (of_nat i)) = Some v \<Longrightarrow> vote_ok tick i v"
    and tick: "tick \<noteq> 0"
    and moved: "st' = cleanOneTick E txMode False tick (compressTickAndMoveToKVRocks E tick st)"
  shows "db_try_get_tick_data E st' tick = (True, td) \<and> db_try_get_tick_vote E st' tick = db_get_tick_votes E st tick"
proof -
  define val where "val i = getOr (g_redis E) (keydb st) (tickVoteKey tick (of_nat i))" for i
  have ok': "\<And>i v. i < 676 \<Longrightarrow> val i = Some v \<Longrightarrow> vote_ok tick i v" using ok by (simp add: val_def)
  define tv where "tv = map (\<lambda>i. slotVote (val i)) [0..<676]"
  have votes: "db_get_tick_votes E st tick = List.map_filter val [0..<676]"
    unfolding val_def by (rule votes_in_order [OF R ok])
  have placed: "fst (fold placeVote (db_get_tick_votes E st tick) (replicate 676 emptyVote, 0, 0)) = tv"
    unfolding votes tv_def using place_votes [OF ok', where n = 676 and c = "(0, 0)"] by (simp del: upt_rec_numeral cong: map_cong)
  have ltv: "length tv = 676" by (simp add: tv_def del: upt_rec_numeral)
  have len: "length v = sizeofTickVote" if "v \<in> set tv" for v
    using that ok' by (auto simp: tv_def slotVote_def emptyVote_def vote_ok_def split: option.splits simp del: upt_rec_numeral)
  have fields: "fullTickData (td @ concat tv) = td" "\<And>i. i < 676 \<Longrightarrow> fullTickVote (td @ concat tv) i = tv ! i"
      "length (td @ concat tv) = sizeofFullTick"
    using packed_fields [OF td(2), of tv] len by (auto simp: tv_def simp del: upt_rec_numeral)
  note kept = compress_keeps [OF K Z td placed fields(3)]
  have full: "db_get_vtick_from_kvrocks E st' tick = Some (td @ concat tv)"
    using kept(2) unlink_tick(1) [OF R] by (simp add: moved db_get_vtick_from_kvrocks_def getCompressed_def)
  have "map (fullTickVote (td @ concat tv)) [0..<676] = tv"
    by (rule nth_equalityI) (simp_all add: fields(2) ltv del: upt_rec_numeral)
  moreover have "filter (\<lambda>v. voteTick (decodeTickVote v) = tick) tv = List.map_filter val [0..<676]"
    unfolding tv_def by (rule filter_slots [OF ok' tick]) simp_all
  moreover have "db_get_tick_votes E st' tick = []" unfolding moved by (rule unlinked_votes(1) [OF R])
  ultimately have "db_try_get_tick_vote E st' tick = db_get_tick_votes E st tick"
    unfolding db_try_get_tick_vote_def full votes Let_def by simp
  moreover have "db_try_get_tick_data E st' tick = (True, td)"
    using unlinked_votes(2) [OF R, of txMode tick _ "[]", folded moved] unfolding db_try_get_tick_data_def full
    by (simp add: moved fields(1))
  ultimately show ?thesis by simp
qed

section \<open>A restart goes on where the cleaner stopped\<close>

lemma to_string_nonempty: "to_string n \<noteq> []"
  by (subst to_string.simps) simp

lemma stoul_to_string:
  assumes "n < 2 ^ 64"
  shows "stoul (to_string n) = Some (of_nat n)"
proof -
  obtain c cs where cs: "to_string n = c # cs" using to_string_nonempty by (meson list.exhaust)
  have "isDigit c" using to_string_digits [of c n] cs by simp
  then have "\<not> isSpace c" "c \<noteq> CHR ''-''" "c \<noteq> CHR ''+''" by (auto simp: isDigit_def isSpace_def)
  moreover have "takeWhile isDigit (to_string n) = to_string n" using to_string_digits by (auto simp: takeWhile_eq_all_conv)
  moreover have "digitsValue (c # cs) = n" using digitsValue_to_string [of n] cs by simp
  ultimately show ?thesis using assms unfolding stoul_def cs by (simp add: Let_def)
qed

lemma stored_u32:
  assumes "redis_laws (g_redis E)" "responsive (g_redis E)"
  shows "db_get_u32 E (db_insert_u32 E key n st) key = Some n"
proof -
  obtain s where s: "rSet (g_redis E) key (map of_char (to_string (unat n))) (keydb st) = Some s"
    using assms(2) unfolding responsive_def by blast
  have "map ((\<lambda>b. char_of (unat b)) \<circ> (of_char :: char \<Rightarrow> u8)) cs = cs" for cs
  proof (rule map_idI)
    fix c
    have "unat (of_nat (of_char c) :: u8) = of_char c" by (simp only: unat_of_nat) (simp add: nat_of_char_less_256)
    then show "((\<lambda>b. char_of (unat b)) \<circ> (of_char :: char \<Rightarrow> u8)) c = c" by (simp add: of_nat_of_char)
  qed
  moreover have "unat n < 2 ^ 64" by (rule less_trans [OF unsigned_less]) simp
  moreover have "ucast (ucast n :: u64) = n" by (rule bit_word_eqI) (simp add: bit_simps)
  ultimately show ?thesis using redis_set [OF assms(1) s, of key]
    by (simp add: db_insert_u32_def onKeydb_def s db_get_u32_def stoul_to_string)
qed

lemma get_u32_cong: "getOr (g_redis E) (keydb st') k = getOr (g_redis E) (keydb st) k \<Longrightarrow> db_get_u32 E st' k = db_get_u32 E st k"
  by (simp add: db_get_u32_def)

lemma loadLastClean_stored:
  assumes "uint gInitialTick < n" and "n < 2 ^ 32"
  shows "loadLastClean (Some (of_int n)) gInitialTick = n"
proof -
  have n: "0 < n" using uint_ge_0 [of gInitialTick] assms(1) by linarith
  then have "n mod 4294967296 = n" using assms(2) by simp
  then show ?thesis using assms(1) n by (simp add: loadLastClean_def Let_def uint_word_of_int word_less_def)
qed

lemma cleanTicks_restart:
  assumes R: "redis_laws (g_redis E)" "responsive (g_redis E)" and c: "garbageCleanerInit E gInitialTick st = c"
    and "indexing < 2 ^ 32"
  shows "garbageCleanerInit E gInitialTick (snd (cleanTicks E cfg indexing (c, st))) = fst (cleanTicks E cfg indexing (c, st))"
proof -
  have low: "uint gInitialTick \<le> lastCleanTickData c" using loadLastClean_initial by (auto simp: c [symmetric] garbageCleanerInit_def)
  have tx: "db_get_u32 E (db_insert_u32 E KEY_LAST_CLEAN_TICK_DATA n (cleanRawTick E m a b w st')) KEY_LAST_CLEAN_TX_TICK =
      db_get_u32 E st' KEY_LAST_CLEAN_TX_TICK" for n m a b w st'
  proof (rule get_u32_cong)
    have "getOr (g_redis E) (keydb (cleanRawTick E m a b w st')) KEY_LAST_CLEAN_TX_TICK = getOr (g_redis E) (keydb st') KEY_LAST_CLEAN_TX_TICK"
      by (rule cleanRawTick_frame [OF R(1) outside_logs_keys(4)]) (simp add: tickDataKey_def tickVoteKey_def)
    then show "getOr (g_redis E) (keydb (db_insert_u32 E KEY_LAST_CLEAN_TICK_DATA n (cleanRawTick E m a b w st'))) KEY_LAST_CLEAN_TX_TICK =
        getOr (g_redis E) (keydb st') KEY_LAST_CLEAN_TX_TICK"
      by (subst insert_u32_frame [OF R(1)]) simp_all
  qed
  have packed: "db_get_u32 E (fold (compressTickAndMoveToKVRocks E) ts st) k = db_get_u32 E st k" for ts k
    by (rule get_u32_cong) (simp add: fold_compress_keydb)
  have "garbageCleanerInit E gInitialTick (db_insert_u32 E KEY_LAST_CLEAN_TICK_DATA (of_int b) (cleanRawTick E m a' b' w st')) =
      c\<lparr>lastCleanTickData := b\<rparr>"
    if "lastCleanTickData c < b" and "b < 2 ^ 32" and "db_get_u32 E st' KEY_LAST_CLEAN_TX_TICK = db_get_u32 E st KEY_LAST_CLEAN_TX_TICK"
    for b m a' b' w st'
    using that low loadLastClean_stored [of gInitialTick b] by (simp add: garbageCleanerInit_def stored_u32 [OF R] tx c [symmetric])
  then show ?thesis using assms(4) c by (simp add: cleanTicks_def Let_def packed del: of_int_diff)
qed

lemma cleanTransactions_restart:
  assumes R: "redis_laws (g_redis E)" "responsive (g_redis E)" and c: "garbageCleanerInit E gInitialTick st = c"
    and "indexing < 2 ^ 32"
  shows "garbageCleanerInit E gInitialTick (snd (cleanTransactions E cfg indexing (c, st))) = fst (cleanTransactions E cfg indexing (c, st))"
proof -
  have low: "uint gInitialTick \<le> lastCleanTransactionTick c" using loadLastClean_initial by (auto simp: c [symmetric] garbageCleanerInit_def)
  have td: "db_get_u32 E (db_insert_u32 E KEY_LAST_CLEAN_TX_TICK n (fold (\<lambda>t st. snd (cleanTransactionLogs E m t st)) ts st)) KEY_LAST_CLEAN_TICK_DATA =
      db_get_u32 E st KEY_LAST_CLEAN_TICK_DATA" for n m ts
    by (rule get_u32_cong) (subst insert_u32_frame [OF R(1)], simp, rule fold_transactions_frame [OF R(1) outside_logs_keys(3)])
  have "garbageCleanerInit E gInitialTick (db_insert_u32 E KEY_LAST_CLEAN_TX_TICK (of_int b) (fold (\<lambda>t st. snd (cleanTransactionLogs E m t st)) ts st)) =
      c\<lparr>lastCleanTransactionTick := b\<rparr>"
    if "lastCleanTransactionTick c < b" and "b < 2 ^ 32" for b m ts
    using that low loadLastClean_stored [of gInitialTick b] by (simp add: garbageCleanerInit_def stored_u32 [OF R] td c [symmetric])
  then show ?thesis using assms(4) c by (simp add: cleanTransactions_def Let_def)
qed

text \<open>
  Claim C21. The cleaner's progress survives a restart: when its two counters are what start-up reads from the
  store, they still are after any turn of its loop, whatever was compressed, moved and deleted in it.
\<close>

theorem restart_resumes_cleaning:
  assumes "redis_laws (g_redis E)" and "responsive (g_redis E)" and "indexing < 2 ^ 32"
    and "garbageCleanerInit E gInitialTick st = c" and "garbageCleanerStep E cfg indexing (c, st) = (c', st')"
  shows "garbageCleanerInit E gInitialTick st' = c'"
  using cleanTransactions_restart [OF assms(1,2) cleanTicks_restart [OF assms(1,2,4,3)] assms(3), of cfg] assms(5)
  unfolding garbageCleanerStep_def by (metis prod.collapse fst_conv snd_conv)

section \<open>A store for the witnesses\<close>

definition exampleVote :: "u8 list" where
  "exampleVote = [1, 0, 7, 0, 9] @ replicate (sizeofTickVote - 5) 0"

definition exampleStore :: "memory_server servers" where
  "exampleStore = \<lparr>keydb = ([tickDataKey 9 \<mapsto> replicate sizeofTickData 5, tickVoteKey 9 1 \<mapsto> exampleVote], \<lambda>_ _. None),
     kvrocks = (\<lambda>_. None, \<lambda>_ _. None)\<rparr>"

definition exampleConfig :: cleanerConfig where
  "exampleConfig = \<lparr>gTickStorageMode = Kvrocks, gTxStorageMode = Kvrocks, gLastNTickStorage = 100, gTxTickToLive = 50\<rparr>"

lemma exampleVote_ok: "vote_ok 9 1 exampleVote"
  by code_simp

lemmas example_simps = exampleEnv_def exampleStore_def exampleConfig_def memoryRedis_laws memoryRedis_responsive plainCodec_laws

theorem recent_ticks_untouched_witness:
  "let st' = garbageCleaner exampleEnv exampleConfig 4 [7, 8, 9] (Some 9) exampleStore
   in getOr memoryRedis (keydb st') (tickDataKey 9) = Some (replicate sizeofTickData 5) \<and>
      getOr memoryRedis (keydb st') (tickVoteKey 9 1) = Some exampleVote"
  using recent_ticks_untouched [of exampleEnv "[7, 8, 9]" 9 "Some 9" exampleConfig 4 exampleStore _ 1, OF _ _ _ refl]
  unfolding Let_def by (simp add: example_simps del: memoryRedis_get) (simp add: getOr_def memoryRedis_def)

theorem restart_resumes_cleaning_witness:
  "let (c, st) = garbageCleanerStep exampleEnv exampleConfig 20 (garbageCleanerInit exampleEnv 4 exampleStore, exampleStore)
   in garbageCleanerInit exampleEnv 4 st = c"
  using restart_resumes_cleaning [of exampleEnv 20 4 exampleStore _ exampleConfig, OF _ _ _ refl]
  by (auto simp: exampleEnv_def memoryRedis_laws memoryRedis_responsive)

end
