(* ===== verification/DataProcessors.thy ===== *)
theory DataProcessors
  imports GarbageCleaner SchnorrQ Connection
begin

text \<open>
  The workers behind the receiver, \<open>DataProcessors.cpp\<close>: the data thread checks votes, tick data, transactions and log
  events and stores them, the request thread answers other nodes. The lemmas show what can get into the store, when an
  answer never ends, and how far the request thread can go in its buffer. Global variables are an argument; a
  thread's buffer is a list of bytes, and a handler gets the bytes from its payload to the end of that buffer, of which the
  packet is only the front part.
\<close>

section \<open>Globals\<close>

record Computors =
  compEpoch :: u16
  publicKeys :: "u8 list list"
  compSignature :: "u8 list"

record globals =
  gCurrentProcessingEpoch :: u16
  gCurrentVerifyLoggingTick :: u32
  gInitialTick :: u32
  computorsList :: Computors

section \<open>Storing what was received\<close>

definition verifySignature :: "u8 list \<Rightarrow> u8 list \<Rightarrow> nat \<Rightarrow> bool" where
  "verifySignature p pubkey structSize = verify pubkey (KangarooTwelve (take (structSize - 64) p) 32) (take 64 (drop (structSize - 64) p))"

text \<open>\<open>computorIndex ^= k\<close> on the first two bytes of a structure.\<close>

definition xorIndex :: "u16 \<Rightarrow> u8 list \<Rightarrow> u8 list" where
  "xorIndex k bs = store_le ((load_le (take 2 bs) :: u16) XOR k) @ drop 2 bs"

text \<open>An index beyond the list of computors makes the key a read out of bounds.\<close>

definition processTickVote :: "'s env \<Rightarrow> globals \<Rightarrow> u8 list \<Rightarrow> 's servers \<Rightarrow> 's servers result" where
  "processTickVote E g ptr st =
     (let vote = take sizeofTickVote ptr
      in if voteEpoch (decodeTickVote vote) \<noteq> gCurrentProcessingEpoch g then Inr st
      else if voteTick (decodeTickVote vote) < gCurrentVerifyLoggingTick g - 1 then Inr st
      else let index = unat (computorIndex (decodeTickVote vote))
      in if 676 \<le> index then Inl OutOfBounds
      else let compPubkey = publicKeys (computorsList g) ! index;
               vote = xorIndex 3 vote;
               ok = verifySignature vote compPubkey sizeofTickVote;
               vote = xorIndex 3 vote
      in Inr (if ok then snd (db_insert_tick_vote E vote st) else st))"

definition tdComputorIndex :: "TickData \<Rightarrow> u16" where
  "tdComputorIndex td = load_le (field 0 2 td)"

definition processTickData :: "'s env \<Rightarrow> globals \<Rightarrow> u8 list \<Rightarrow> 's servers \<Rightarrow> 's servers result" where
  "processTickData E g ptr st =
     (let data = take sizeofTickData ptr
      in if tdEpoch data \<noteq> gCurrentProcessingEpoch g then Inr st
      else if tdTick data < gCurrentVerifyLoggingTick g - 1 then Inr st
      else let index = unat (tdComputorIndex data)
      in if 676 \<le> index then Inl OutOfBounds
      else let compPubkey = publicKeys (computorsList g) ! index;
               data = xorIndex 8 data;
               ok = verifySignature data compPubkey sizeofTickData;
               data = xorIndex 8 data
      in Inr (if ok then snd (db_insert_tick_data E data st) else st))"

definition processTransaction :: "'s env \<Rightarrow> globals \<Rightarrow> u8 list \<Rightarrow> 's servers \<Rightarrow> 's servers" where
  "processTransaction E g ptr st =
     (let tx = take 80 ptr
      in if 1024 < txInputSize tx then st
      else if txTick tx < gCurrentVerifyLoggingTick g - 1 then st
      else let (ok, td) = db_try_get_tick_data E st (txTick tx)
      in if \<not> ok then st
      else let buf = take (txSize tx) ptr;
               tx_digest = load_le (KangarooTwelve buf 32);
               found = (\<exists>i \<in> set [0..<NUMBER_OF_TRANSACTIONS_PER_TICK]. tdTransactionDigests td i \<noteq> 0 \<and> tdTransactionDigests td i = tx_digest)
      in if \<not> found then st
      else if verifySignature buf (take 32 buf) (txSize tx) then snd (db_insert_transaction E buf st)
      else st)"

text \<open>
  The loop over the events of a chunk. The event at the offset is read with the size its header declares, which may lie
  beyond the chunk; a read beyond the thread's buffer is \<open>OutOfBounds\<close>, so the offset stays below \<open>2 ^ 24\<close>.
\<close>

definition eventMessageSize :: "u8 list \<Rightarrow> nat" where
  "eventMessageSize p = unat ((load_le (field 6 4 p) :: u32) AND 0x00FFFFFF)"

function logEventLoop :: "'s env \<Rightarrow> u16 \<Rightarrow> u8 list \<Rightarrow> nat \<Rightarrow> nat \<Rightarrow> u64 \<Rightarrow> 's servers \<Rightarrow> (u64 \<times> 's servers) result" where
  "logEventLoop E epoch ptr chunkSize offset maxLogId st =
     (if offset < chunkSize then
        let p = drop offset ptr;
            sz = eventMessageSize p + PackedHeaderSize
        in if length p < sz then Inl OutOfBounds
        else let le = updateContent (take sz p) \<lparr>content = []\<rparr>
        in if selfCheck epoch le
           then let logId = load_le (field 10 8 p);
                    st = snd (db_insert_log E (load_le (field 0 2 p)) logId (take sz p) st)
                in logEventLoop E epoch ptr chunkSize (offset + sz) (max maxLogId logId) st
           else Inr (maxLogId, st)
      else Inr (maxLogId, st))"
  by pat_completeness auto
termination by (relation "measure (\<lambda>(E, epoch, ptr, chunkSize, offset, m, st). chunkSize - offset)") (auto simp: PackedHeaderSize_def)

declare logEventLoop.simps [simp del]

definition processLogEvent :: "'s env \<Rightarrow> globals \<Rightarrow> u8 list \<Rightarrow> nat \<Rightarrow> 's servers \<Rightarrow> 's servers result" where
  "processLogEvent E g ptr chunkSize st =
     bind_result (logEventLoop E (gCurrentProcessingEpoch g) ptr chunkSize 0 0 st)
       (\<lambda>(maxLogId, st). Inr (snd (db_update_latest_log_id E (gCurrentProcessingEpoch g) (sint maxLogId) st)))"

text \<open>The remembered request is a header, a passcode, the tick and four bytes of padding.\<close>

definition processLogRanges :: "'s env \<Rightarrow> 'conn RequestMap \<Rightarrow> RequestResponseHeader \<Rightarrow> u8 list \<Rightarrow> 's servers \<Rightarrow> 's servers" where
  "processLogRanges E requestMapperFrom header ptr st =
     (let request = (case requestGet (hdejavu header) requestMapperFrom of Some (bytes, _) \<Rightarrow> bytes | None \<Rightarrow> [])
      in if length request = 48
         then let tick = load_le (field 40 4 request)
              in if unat (header_size header) = 8 + sizeofLogRanges
                 then snd (db_insert_log_range E tick (take sizeofLogRanges ptr) st) else st
         else st)"

text \<open>The state of the data thread: its buffer, the servers and the answers of smart contracts.\<close>

record 's dataThread =
  dataBuf :: "u8 list"
  store :: "'s servers"
  responseSCData :: "unit option RequestMap"

definition recordSmartContractResponse :: "u64 \<Rightarrow> u32 \<Rightarrow> u32 \<Rightarrow> u8 list \<Rightarrow> 's dataThread \<Rightarrow> 's dataThread" where
  "recordSmartContractResponse now sz dejavu ptr d =
     d\<lparr>responseSCData := requestAdd now dejavu (Some ptr) (sint sz) None (responseSCData d)\<rparr>"

abbreviation bufferSize :: nat where
  "bufferSize \<equiv> 0xFFFFFF"

definition setStore :: "'s dataThread \<Rightarrow> 's servers \<Rightarrow> 's dataThread" where
  "setStore d st = d\<lparr>store := st\<rparr>"

text \<open>One turn of the data thread on the packet that the queue hands out.\<close>

definition DataProcessorStep :: "'s env \<Rightarrow> globals \<Rightarrow> u64 \<Rightarrow> 'conn RequestMap \<Rightarrow> u8 list \<Rightarrow> 's dataThread \<Rightarrow> 's dataThread result" where
  "DataProcessorStep E g now requestMapperFrom packet d =
     (let packet_size = length packet
      in if bufferSize < packet_size then Inl OutOfBounds
      else let d = d\<lparr>dataBuf := copyIn 0 packet (dataBuf d)\<rparr>
      in if packet_size = 0 \<or> bufferSize \<le> packet_size then Inr d
      else let header = readHeader (take 8 (dataBuf d));
               type = htype header;
               ptr = drop 8 (dataBuf d)
      in if type = 3 then bind_result (processTickVote E g ptr (store d)) (Inr \<circ> setStore d)
      else if type = 8 then bind_result (processTickData E g ptr (store d)) (Inr \<circ> setStore d)
      else if type = 24 then Inr (setStore d (processTransaction E g ptr (store d)))
      else if type = 45 then bind_result (processLogEvent E g ptr (unat (of_nat packet_size - 8 :: u32)) (store d)) (Inr \<circ> setStore d)
      else if type = 51 then Inr (setStore d (processLogRanges E requestMapperFrom header ptr (store d)))
      else if type = 43 then Inr (recordSmartContractResponse now (header_size header - 8) (hdejavu header) ptr d)
      else Inr d)"

section \<open>Answering requests\<close>

text \<open>An answer is a list of packets handed to \<open>enqueueSend\<close> in this order; the random number is that of an end packet without dejavu.\<close>

definition replyPacket :: "u8 \<Rightarrow> u32 \<Rightarrow> u8 list \<Rightarrow> u8 list" where
  "replyPacket type dejavu body =
     headerBytes (setSize (of_nat (8 + length body)) (setDejavu dejavu (setType type emptyHeader))) @ body"

abbreviation noDejavu :: u32 where
  "noDejavu \<equiv> 0xffffffff"

text \<open>Bit \<open>i\<close> of the flags behind the tick of a request.\<close>

definition requestFlag :: "u8 list \<Rightarrow> nat \<Rightarrow> bool" where
  "requestFlag ptr i \<longleftrightarrow> bit (ptr ! (4 + i div 8)) (i mod 8)"

definition replyTransaction :: "'s env \<Rightarrow> 's servers \<Rightarrow> u32 \<Rightarrow> u32 \<Rightarrow> u8 list \<Rightarrow> u8 list list" where
  "replyTransaction E st r dejavu ptr =
     (let tick = load_le (field 0 4 ptr);
          (ok, td) = db_try_get_tick_data E st tick
      in if \<not> ok then [endPacket dejavu r]
      else List.map_filter (\<lambda>i.
          if tdTransactionDigests td i \<noteq> 0 \<and> \<not> requestFlag ptr i
          then map_option (replyPacket 24 dejavu) (db_try_get_transaction E st (hashOfDigest (tdTransactionDigests td i)))
          else None) [0..<NUMBER_OF_TRANSACTIONS_PER_TICK] @ [endPacket dejavu r])"

definition computorsBytes :: "Computors \<Rightarrow> u8 list" where
  "computorsBytes c = store_le (compEpoch c) @ concat (publicKeys c) @ compSignature c"

definition replyComputorList :: "globals \<Rightarrow> u32 \<Rightarrow> u32 \<Rightarrow> u8 list list" where
  "replyComputorList g r dejavu =
     (if compEpoch (computorsList g) \<noteq> 0 then [replyPacket 2 dejavu (computorsBytes (computorsList g))]
      else [endPacket dejavu r])"

definition replyTickVotes :: "'s env \<Rightarrow> globals \<Rightarrow> 's servers \<Rightarrow> u32 \<Rightarrow> u32 \<Rightarrow> u8 list \<Rightarrow> u8 list list" where
  "replyTickVotes E g st r dejavu ptr =
     (let tick = load_le (field 0 4 ptr)
      in if gCurrentVerifyLoggingTick g \<le> tick then [endPacket noDejavu r]
      else map (replyPacket 3 dejavu) (filter (\<lambda>tv. voteEpoch (decodeTickVote tv) \<noteq> 0 \<and> voteTick (decodeTickVote tv) = tick \<and>
          \<not> requestFlag ptr (unat (computorIndex (decodeTickVote tv)))) (db_try_get_tick_vote E st tick)) @ [endPacket dejavu r])"

definition replyTickData :: "'s env \<Rightarrow> globals \<Rightarrow> 's servers \<Rightarrow> u32 \<Rightarrow> u32 \<Rightarrow> u8 list \<Rightarrow> u8 list list" where
  "replyTickData E g st r dejavu ptr =
     (let tick = load_le (field 0 4 ptr)
      in if gCurrentVerifyLoggingTick g \<le> tick then [endPacket noDejavu r]
      else let (ok, td) = db_try_get_tick_data E st tick
      in if \<not> ok then [endPacket dejavu r] else [replyPacket 8 dejavu td])"

text \<open>The loop over the log ids: the counter has 64 bits and the test is \<open>i <= toid\<close>.\<close>

partial_function (option) collectLogs :: "(u64 \<Rightarrow> LogEvent option) \<Rightarrow> u64 \<Rightarrow> u64 \<Rightarrow> u8 list \<Rightarrow> u8 list option" where
  "collectLogs get toid i resp =
     (if i \<le> toid
      then collectLogs get toid (i + 1)
        (case get i of Some le \<Rightarrow> resp @ take (unat (getLogSize le) + PackedHeaderSize) (content le) | None \<Rightarrow> resp)
      else Some resp)"

definition passcodeSet :: "u8 list \<Rightarrow> bool" where
  "passcodeSet ptr \<longleftrightarrow> (\<exists>k \<in> set [0..<4]. (load_le (field (8 * k) 8 ptr) :: u64) \<noteq> 0)"

definition replyLogEvent :: "'s env \<Rightarrow> globals \<Rightarrow> 's servers \<Rightarrow> u32 \<Rightarrow> u32 \<Rightarrow> u8 list \<Rightarrow> u8 list list result" where
  "replyLogEvent E g st r dejavu ptr =
     (let fromid = (load_le (field 32 8 ptr) :: u64);
          toid = load_le (field 40 8 ptr)
      in if passcodeSet ptr then Inr [endPacket noDejavu r]
      else if 1000 \<le> toid - fromid + 1 then Inr [endPacket noDejavu r]
      else bind_result (loop_result (collectLogs (db_try_get_log E st (gCurrentProcessingEpoch g)) toid fromid []))
        (\<lambda>resp. Inr [replyPacket 45 dejavu resp]))"

definition replyLogRange :: "'s env \<Rightarrow> globals \<Rightarrow> 's servers \<Rightarrow> u32 \<Rightarrow> u32 \<Rightarrow> u8 list \<Rightarrow> u8 list list" where
  "replyLogRange E g st r dejavu ptr =
     (let tick = load_le (field 32 4 ptr)
      in if gCurrentVerifyLoggingTick g \<le> tick then [endPacket noDejavu r]
      else if passcodeSet ptr then [endPacket noDejavu r]
      else case db_try_get_log_ranges E st tick of
        Some logRange \<Rightarrow> [replyPacket 51 dejavu logRange]
      | None \<Rightarrow> [endPacket dejavu r])"

definition replyCurrentTickInfo :: "globals \<Rightarrow> u32 \<Rightarrow> u8 list list" where
  "replyCurrentTickInfo g dejavu =
     [replyPacket 28 dejavu
        (if compEpoch (computorsList g) \<noteq> 0
         then store_le (0 :: u16) @ store_le (gCurrentProcessingEpoch g) @ store_le (gCurrentVerifyLoggingTick g - 1) @
              store_le (0 :: u16) @ store_le (0 :: u16) @ store_le (gInitialTick g)
         else replicate 16 0)]"

text \<open>
  One turn of the request thread. The pointer into the buffer moves by eight bytes with every packet and is never
  reset; the packet is written at the pointer.
\<close>

record 'conn requestThread =
  reqBuf :: "u8 list"
  reqPtr :: nat
  sent :: "('conn \<times> u8 list) list"

definition answer :: "'s env \<Rightarrow> globals \<Rightarrow> 's servers \<Rightarrow> u32 \<Rightarrow> u8 \<Rightarrow> u32 \<Rightarrow> u8 list \<Rightarrow> u8 list list result" where
  "answer E g st r type dejavu ptr =
     (if type = 11 then Inr (replyComputorList g r dejavu)
      else if type = 14 then Inr (replyTickVotes E g st r dejavu ptr)
      else if type = 16 then Inr (replyTickData E g st r dejavu ptr)
      else if type = 27 then Inr (replyCurrentTickInfo g dejavu)
      else if type = 29 then Inr (replyTransaction E st r dejavu ptr)
      else if type = 44 then replyLogEvent E g st r dejavu ptr
      else if type = 50 then Inr (replyLogRange E g st r dejavu ptr)
      else Inr [])"

definition RequestProcessorStep :: "'s env \<Rightarrow> globals \<Rightarrow> 's servers \<Rightarrow> 'conn option RequestMap \<Rightarrow> u32 \<Rightarrow> u8 list \<Rightarrow>
    'conn requestThread \<Rightarrow> 'conn requestThread result" where
  "RequestProcessorStep E g st mapperTo r packet t =
     (let packet_size = length packet
      in if bufferSize < reqPtr t + packet_size then Inl OutOfBounds
      else let t = t\<lparr>reqBuf := copyIn (reqPtr t) packet (reqBuf t)\<rparr>
      in if packet_size = 0 \<or> bufferSize \<le> packet_size then Inr t
      else let header = readHeader (take 8 (drop (reqPtr t) (reqBuf t)));
               t = t\<lparr>reqPtr := reqPtr t + 8\<rparr>
      in case requestGet (hdejavu header) mapperTo of
        Some (_, Some c) \<Rightarrow>
          bind_result (answer E g st r (htype header) (hdejavu header) (drop (reqPtr t) (reqBuf t)))
            (\<lambda>packets. Inr (t\<lparr>sent := sent t @ map (Pair c) packets\<rparr>))
      | _ \<Rightarrow> Inr t)"

section \<open>What gets into the store\<close>

definition signedVote :: "globals \<Rightarrow> u32 \<Rightarrow> u16 \<Rightarrow> u8 list \<Rightarrow> bool" where
  "signedVote g t i v \<longleftrightarrow> length v = sizeofTickVote \<and> voteTick (decodeTickVote v) = t \<and> computorIndex (decodeTickVote v) = i \<and>
     voteEpoch (decodeTickVote v) = gCurrentProcessingEpoch g \<and> unat i < 676 \<and>
     verifySignature (xorIndex 3 v) (publicKeys (computorsList g) ! unat i) sizeofTickVote"

definition signedData :: "globals \<Rightarrow> u32 \<Rightarrow> u8 list \<Rightarrow> bool" where
  "signedData g t v \<longleftrightarrow> length v = sizeofTickData \<and> tdTick v = t \<and> tdEpoch v = gCurrentProcessingEpoch g \<and> unat (tdComputorIndex v) < 676 \<and>
     verifySignature (xorIndex 8 v) (publicKeys (computorsList g) ! unat (tdComputorIndex v)) sizeofTickData"

definition listedTransaction :: "'s env \<Rightarrow> 's servers \<Rightarrow> string \<Rightarrow> u8 list \<Rightarrow> bool" where
  "listedTransaction E st h v \<longleftrightarrow> h = getQubicHash v True \<and> length v = txSize v \<and> verifySignature v (take 32 v) (txSize v) \<and>
     (\<exists>td i. db_try_get_tick_data E st (txTick v) = (True, td) \<and> i < NUMBER_OF_TRANSACTIONS_PER_TICK \<and>
       tdTransactionDigests td i \<noteq> 0 \<and> tdTransactionDigests td i = load_le (KangarooTwelve v 32))"

definition checkedLog :: "globals \<Rightarrow> u16 \<Rightarrow> u64 \<Rightarrow> u8 list \<Rightarrow> bool" where
  "checkedLog g e l v \<longleftrightarrow> e = gCurrentProcessingEpoch g \<and> selfCheck e \<lparr>content = v\<rparr> \<and> getLogId \<lparr>content = v\<rparr> = l"

definition requestedRange :: "'conn RequestMap \<Rightarrow> u32 \<Rightarrow> u8 list \<Rightarrow> bool" where
  "requestedRange mapper t v \<longleftrightarrow> length v = sizeofLogRanges \<and>
     (\<exists>dejavu request c. requestGet dejavu mapper = Some (request, c) \<and> length request = 48 \<and> t = load_le (field 40 4 request))"

lemma insertNX_value:
  assumes "redis_laws (g_redis E)" and "getOr (g_redis E) (keydb (snd (onKeydb (rSetNX (g_redis E) k v) st))) j = Some w"
  shows "getOr (g_redis E) (keydb st) j = Some w \<or> j = k \<and> w = v"
  using assms redis_setNX [OF assms(1)] by (auto simp: onKeydb_def split: option.splits if_splits)

lemma insert_value:
  assumes "redis_laws (g_redis E)" and "getOr (g_redis E) (keydb (snd (onKeydb (rSet (g_redis E) k v) st))) j = Some w"
  shows "getOr (g_redis E) (keydb st) j = Some w \<or> j = k \<and> w = v"
  using assms redis_set [OF assms(1)] by (auto simp: onKeydb_def split: option.splits if_splits)

lemma hash_frame:
  assumes "redis_laws (g_redis E)"
  shows "getOr (g_redis E) (keydb (snd (onKeydb (rHMSet (g_redis E) k fs) st))) j = getOr (g_redis E) (keydb st) j"
    and "getOr (g_redis E) (keydb (snd (raiseCounter E k f n st))) j = getOr (g_redis E) (keydb st) j"
  using redis_hmset [OF assms] by (auto simp: onKeydb_def raiseCounter_def Let_def split: option.splits if_splits)

lemma xorIndex_twice: "2 \<le> length bs \<Longrightarrow> xorIndex k (xorIndex k bs) = bs"
proof -
  assume len: "2 \<le> length bs"
  define w where "w = (load_le (take 2 bs) :: u16)"
  have "xorIndex k (xorIndex k bs) = store_le w @ drop 2 bs"
    by (simp add: xorIndex_def w_def xor.assoc)
  also have "store_le w = take 2 bs" unfolding w_def using len by (intro store_load_le) simp
  finally show ?thesis by simp
qed

lemma processTickVote_stores:
  assumes R: "redis_laws (g_redis E)" and len: "sizeofTickVote \<le> length ptr"
    and step: "processTickVote E g ptr st = Inr st'" and v: "getOr (g_redis E) (keydb st') k = Some v"
  shows "getOr (g_redis E) (keydb st) k = Some v \<or> (\<exists>t i. k = tickVoteKey t i \<and> signedVote g t i v)"
proof -
  let ?vote = "take sizeofTickVote ptr"
  have twice: "xorIndex 3 (xorIndex 3 ?vote) = ?vote" using len by (intro xorIndex_twice) (simp add: sizeofTickVote_def)
  from step v show ?thesis
    using insertNX_value [OF R, of "tickVoteKey (voteTick (decodeTickVote ?vote)) (computorIndex (decodeTickVote ?vote))" ?vote st k v] len
    by (auto simp: processTickVote_def Let_def db_insert_tick_vote_def twice signedVote_def split: if_splits)
qed

lemma processTickData_stores:
  assumes R: "redis_laws (g_redis E)" and len: "sizeofTickData \<le> length ptr"
    and step: "processTickData E g ptr st = Inr st'" and v: "getOr (g_redis E) (keydb st') k = Some v"
  shows "getOr (g_redis E) (keydb st) k = Some v \<or> (\<exists>t. k = tickDataKey t \<and> signedData g t v)"
proof -
  let ?data = "take sizeofTickData ptr"
  have twice: "xorIndex 8 (xorIndex 8 ?data) = ?data" using len by (intro xorIndex_twice) (simp add: sizeofTickData_def)
  from step v show ?thesis
    using insert_value [OF R, of "tickDataKey (tdTick ?data)" ?data st k v] len
    by (auto simp: processTickData_def Let_def db_insert_tick_data_def twice signedData_def split: if_splits)
qed

lemma tx_fields_take:
  assumes "80 \<le> n"
  shows "txTick (take n ptr) = txTick ptr" "txInputSize (take n ptr) = txInputSize ptr" "txSize (take n ptr) = txSize ptr"
  using assms by (simp_all add: txTick_def txInputSize_def txSize_def field_def min_def drop_take)

lemma processTransaction_stores:
  assumes R: "redis_laws (g_redis E)" and len: "1168 \<le> length ptr"
    and v: "getOr (g_redis E) (keydb (processTransaction E g ptr st)) k = Some v"
  shows "getOr (g_redis E) (keydb st) k = Some v \<or> (\<exists>h. k = ''transaction:'' @ h \<and> listedTransaction E st h v)"
proof (cases "processTransaction E g ptr st = st")
  case False
  let ?buf = "take (txSize ptr) ptr"
  have size: "txSize (take 80 ptr) = txSize ptr" "txTick (take 80 ptr) = txTick ptr" "txSize ?buf = txSize ptr" "txTick ?buf = txTick ptr"
    by (simp_all add: tx_fields_take txSize_def)
  obtain ok td where td: "db_try_get_tick_data E st (txTick ptr) = (ok, td)" by (metis surj_pair)
  have checks: "\<not> 1024 < txInputSize (take 80 ptr)" "ok" "verifySignature ?buf (take 32 ?buf) (txSize ptr)"
      "\<exists>i \<in> set [0..<NUMBER_OF_TRANSACTIONS_PER_TICK]. tdTransactionDigests td i \<noteq> 0 \<and> tdTransactionDigests td i = load_le (KangarooTwelve ?buf 32)"
    and insert: "processTransaction E g ptr st = snd (db_insert_transaction E ?buf st)"
    using False td by (auto simp: processTransaction_def Let_def size split: if_splits)
  have "unat (txInputSize ptr) \<le> 1024" using checks(1) by (simp add: tx_fields_take word_le_nat_alt not_less)
  then have "length ?buf = txSize ?buf" using len by (simp only: size) (simp add: txSize_def min_def)
  moreover obtain i where "i < NUMBER_OF_TRANSACTIONS_PER_TICK" "tdTransactionDigests td i \<noteq> 0"
      "tdTransactionDigests td i = load_le (KangarooTwelve ?buf 32)"
    using checks(4) by auto
  ultimately have "listedTransaction E st (getQubicHash ?buf True) ?buf"
    unfolding listedTransaction_def size using checks(3) td [unfolded eqTrueI [OF checks(2)]] by blast
  moreover have "getOr (g_redis E) (keydb st) k = Some v \<or> k = ''transaction:'' @ getQubicHash ?buf True \<and> v = ?buf"
    using v insertNX_value [OF R, of "''transaction:'' @ getQubicHash ?buf True" ?buf st k v]
    by (simp add: insert db_insert_transaction_def size Let_def)
  ultimately show ?thesis by blast
qed (use v in simp)

lemma field_take: "a + n \<le> m \<Longrightarrow> field a n (take m p) = field a n p"
  by (simp add: field_def drop_take min_def)

lemma logEventLoop_stores:
  assumes R: "redis_laws (g_redis E)" and "logEventLoop E (gCurrentProcessingEpoch g) ptr chunkSize offset maxLogId st = Inr (m', st')"
    and "getOr (g_redis E) (keydb st') k = Some v"
  shows "getOr (g_redis E) (keydb st) k = Some v \<or> (\<exists>e l. k = logKey e l \<and> checkedLog g e l v)"
  using assms
proof (induction E "gCurrentProcessingEpoch g" ptr chunkSize offset maxLogId st arbitrary: m' st' rule: logEventLoop.induct)
  case (1 E ptr chunkSize offset maxLogId st)
  let ?p = "drop offset ptr" let ?n = "eventMessageSize ?p + PackedHeaderSize"
  let ?le = "\<lparr>content = take ?n ?p\<rparr>"
  let ?st = "snd (db_insert_log E (load_le (field 0 2 ?p)) (load_le (field 10 8 ?p)) (take ?n ?p) st)"
  show ?case
  proof (cases "offset < chunkSize \<and> \<not> length ?p < ?n \<and> selfCheck (gCurrentProcessingEpoch g) ?le")
    case True
    then have rec: "logEventLoop E (gCurrentProcessingEpoch g) ptr chunkSize (offset + ?n) (max maxLogId (load_le (field 10 8 ?p))) ?st = Inr (m', st')"
      using "1.prems"(2) by (subst (asm) logEventLoop.simps) (simp add: Let_def updateContent_def)
    have le: "hasPackedHeader ?le" using True by (simp add: hasPackedHeader_def)
    have fields: "load_le (field 0 2 ?p) = getEpoch ?le" "load_le (field 10 8 ?p) = getLogId ?le"
      using le by (simp_all add: getEpoch_def getLogId_def bytes_at_def field_def take_drop PackedHeaderSize_def min_def)
    have "getEpoch ?le = gCurrentProcessingEpoch g" using True by (auto simp: selfCheck_def split: if_splits)
    then have new: "checkedLog g (load_le (field 0 2 ?p)) (load_le (field 10 8 ?p)) (take ?n ?p)"
      using True by (simp add: checkedLog_def fields)
    have "getOr (g_redis E) (keydb ?st) k = Some v \<or> (\<exists>e l. k = logKey e l \<and> checkedLog g e l v)"
      using "1.hyps" [OF _ refl refl _ refl _ refl refl "1.prems"(1) rec "1.prems"(3)] True by (simp add: updateContent_def)
    then show ?thesis using insertNX_value [OF "1.prems"(1)] new unfolding db_insert_log_def by blast
  next
    case False
    then have "st' = st" using "1.prems"(2) by (subst (asm) logEventLoop.simps) (auto simp: Let_def updateContent_def split: if_splits)
    then show ?thesis using "1.prems"(3) by simp
  qed
qed

lemma processLogRanges_stores:
  assumes R: "redis_laws (g_redis E)" and len: "sizeofLogRanges \<le> length ptr"
    and v: "getOr (g_redis E) (keydb (processLogRanges E mapper header ptr st)) k = Some v"
  shows "getOr (g_redis E) (keydb st) k = Some v \<or> (\<exists>t. k = logRangesKey t \<and> requestedRange mapper t v)"
proof -
  let ?lr = "take sizeofLogRanges ptr"
  have ins: "getOr (g_redis E) (keydb st) k = Some v \<or> k = logRangesKey t \<and> v = ?lr"
    if "getOr (g_redis E) (keydb (snd (db_insert_log_range E t ?lr st))) k = Some v" for t
    using that insertNX_value [OF R, of "logRangesKey t" ?lr st k v] hash_frame(1) [OF R]
    by (auto simp: db_insert_log_range_def Let_def split: if_splits option.splits prod.splits)
  show ?thesis
  proof (cases "requestGet (hdejavu header) mapper")
    case None
    then show ?thesis using v by (simp add: processLogRanges_def)
  next
    case (Some rc)
    obtain request c where rc: "rc = (request, c)" by (metis surj_pair)
    let ?t = "load_le (field 40 4 request)"
    have "requestedRange mapper ?t ?lr" if "length request = 48" using that Some rc len by (auto simp: requestedRange_def)
    moreover have "getOr (g_redis E) (keydb st) k = Some v \<or> length request = 48 \<and> k = logRangesKey ?t \<and> v = ?lr"
      using v ins [of ?t] by (auto simp: processLogRanges_def Some rc Let_def split: if_splits)
    ultimately show ?thesis by blast
  qed
qed

lemma copyIn_start_length: "length packet \<le> length buf \<Longrightarrow> length (copyIn 0 packet buf) = length buf"
  by (simp add: copyIn_def)

definition checkedValue :: "'s env \<Rightarrow> globals \<Rightarrow> 'conn RequestMap \<Rightarrow> 's servers \<Rightarrow> string \<Rightarrow> u8 list \<Rightarrow> bool" where
  "checkedValue E g mapper st k v \<longleftrightarrow>
     (\<exists>t i. k = tickVoteKey t i \<and> signedVote g t i v) \<or> (\<exists>t. k = tickDataKey t \<and> signedData g t v) \<or>
     (\<exists>h. k = ''transaction:'' @ h \<and> listedTransaction E st h v) \<or> (\<exists>e l. k = logKey e l \<and> checkedLog g e l v) \<or>
     (\<exists>t. k = logRangesKey t \<and> requestedRange mapper t v)"

lemma dataStep_cases:
  assumes "DataProcessorStep E g now mapper packet d = Inr d'" and "length (dataBuf d) = bufferSize"
  obtains "store d' = store d" | ptr where "length ptr = bufferSize - 8" "processTickVote E g ptr (store d) = Inr (store d')"
  | ptr where "length ptr = bufferSize - 8" "processTickData E g ptr (store d) = Inr (store d')"
  | ptr where "length ptr = bufferSize - 8" "store d' = processTransaction E g ptr (store d)"
  | ptr n where "length ptr = bufferSize - 8" "processLogEvent E g ptr n (store d) = Inr (store d')"
  | ptr header where "length ptr = bufferSize - 8" "store d' = processLogRanges E mapper header ptr (store d)"
proof -
  define ptr where "ptr = drop 8 (copyIn 0 packet (dataBuf d))"
  have "length ptr = bufferSize - 8" if "length packet \<le> bufferSize"
    using that assms(2) copyIn_start_length [of packet "dataBuf d"] by (simp add: ptr_def)
  then show thesis using assms(1) that
    by (auto simp: DataProcessorStep_def Let_def ptr_def [symmetric] setStore_def recordSmartContractResponse_def bind_result_Inr_iff
        split: if_splits)
qed

lemma dataStep_stores:
  assumes R: "redis_laws (g_redis E)" and len: "length (dataBuf d) = bufferSize"
    and step: "DataProcessorStep E g now mapper packet d = Inr d'" and v: "getOr (g_redis E) (keydb (store d')) k = Some v"
  shows "getOr (g_redis E) (keydb (store d)) k = Some v \<or> checkedValue E g mapper (store d) k v"
  using step len
proof (cases rule: dataStep_cases)
  case 1
  then show ?thesis using v by simp
next
  case (2 ptr)
  then show ?thesis using processTickVote_stores [OF R _ 2(2) v] unfolding checkedValue_def by (simp add: sizeofTickVote_def) blast
next
  case (3 ptr)
  then show ?thesis using processTickData_stores [OF R _ 3(2) v] unfolding checkedValue_def by (simp add: sizeofTickData_def) blast
next
  case (4 ptr)
  then show ?thesis using processTransaction_stores [OF R, of ptr g "store d" k v] v unfolding checkedValue_def by simp blast
next
  case (5 ptr n)
  then obtain m st where loop: "logEventLoop E (gCurrentProcessingEpoch g) ptr n 0 0 (store d) = Inr (m, st)"
    and st: "store d' = snd (db_update_latest_log_id E (gCurrentProcessingEpoch g) (sint m) st)"
    by (auto simp: processLogEvent_def bind_result_Inr_iff)
  have "getOr (g_redis E) (keydb st) k = Some v" using v hash_frame(2) [OF R] by (simp add: st db_update_latest_log_id_def)
  from logEventLoop_stores [OF R loop this] show ?thesis unfolding checkedValue_def by blast
next
  case (6 ptr header)
  then show ?thesis using processLogRanges_stores [OF R, of ptr mapper header "store d" k v] v unfolding checkedValue_def
    by (simp add: sizeofLogRanges_def LOG_TX_PER_TICK_def NUMBER_OF_TRANSACTIONS_PER_TICK_def) blast
qed

text \<open>
  Claim C17. Whatever packet the data thread handles, a value found in the first server afterwards was there
  before or has passed its check: a vote or tick data of the current epoch under its own tick (and index), with a valid
  signature of the computor it names, a signed transaction whose digest is in the stored data of its tick under its own hash, a
  log event that passes the self check under its own id, or log ranges for a tick that was asked for.
\<close>

theorem data_thread_stores_only_checked:
  assumes "redis_laws (g_redis E)" and "length (dataBuf d) = bufferSize"
    and "DataProcessorStep E g now mapper packet d = Inr d'" and "getOr (g_redis E) (keydb (store d')) k = Some v"
  shows "getOr (g_redis E) (keydb (store d)) k = Some v \<or>
     (\<exists>t i. k = tickVoteKey t i \<and> signedVote g t i v) \<or> (\<exists>t. k = tickDataKey t \<and> signedData g t v) \<or>
     (\<exists>h. k = ''transaction:'' @ h \<and> listedTransaction E (store d) h v) \<or> (\<exists>e l. k = logKey e l \<and> checkedLog g e l v) \<or>
     (\<exists>t. k = logRangesKey t \<and> requestedRange mapper t v)"
  using dataStep_stores [OF assms] unfolding checkedValue_def .

section \<open>Votes in the store\<close>

text \<open>The data thread over a sequence of packets, with the globals and the requests of each moment.\<close>

primrec dataRun :: "'s env \<Rightarrow> (globals \<times> u64 \<times> 'conn RequestMap \<times> u8 list) list \<Rightarrow> 's dataThread \<Rightarrow> 's dataThread result" where
  "dataRun E [] d = Inr d"
| "dataRun E (x # xs) d = (case x of (g, now, mapper, packet) \<Rightarrow> bind_result (DataProcessorStep E g now mapper packet d) (dataRun E xs))"

definition votes_ok :: "'s env \<Rightarrow> 's servers \<Rightarrow> bool" where
  "votes_ok E st \<longleftrightarrow> (\<forall>t i v. getOr (g_redis E) (keydb st) (tickVoteKey t i) = Some v \<longrightarrow> vote_ok t (unat i) v)"

lemma dataStep_votes_ok:
  assumes R: "redis_laws (g_redis E)" and len: "length (dataBuf d) = bufferSize" and step: "DataProcessorStep E g now mapper packet d = Inr d'"
    and "gCurrentProcessingEpoch g \<noteq> 0" and "votes_ok E (store d)"
  shows "votes_ok E (store d')"
  unfolding votes_ok_def
proof (intro allI impI)
  fix t i v
  assume v: "getOr (g_redis E) (keydb (store d')) (tickVoteKey t i) = Some v"
  have "tickVoteKey t i \<noteq> logRangesKey u" for u by (simp add: tickVoteKey_def logRangesKey_def)
  then have "getOr (g_redis E) (keydb (store d)) (tickVoteKey t i) = Some v \<or> signedVote g t i v"
    using dataStep_stores [OF R len step v] unfolding checkedValue_def by (metis keys_distinct(1,5,9) tickVoteKey_eq)
  with assms(4,5) show "vote_ok t (unat i) v" by (auto simp: votes_ok_def signedVote_def vote_ok_def)
qed

lemma dataStep_buffer:
  assumes "DataProcessorStep E g now mapper packet d = Inr d'" and "length (dataBuf d) = bufferSize"
  shows "length (dataBuf d') = bufferSize"
  using assms copyIn_start_length [of packet "dataBuf d"]
  by (auto simp: DataProcessorStep_def Let_def setStore_def recordSmartContractResponse_def bind_result_Inr_iff split: if_splits)

lemma dataRun_votes_ok:
  assumes R: "redis_laws (g_redis E)"
  shows "dataRun E inputs d = Inr d' \<Longrightarrow> length (dataBuf d) = bufferSize \<Longrightarrow> \<forall>(g, _) \<in> set inputs. gCurrentProcessingEpoch g \<noteq> 0 \<Longrightarrow>
    votes_ok E (store d) \<Longrightarrow> votes_ok E (store d')"
proof (induction inputs arbitrary: d)
  case (Cons x inputs)
  obtain g now mapper packet where x: "x = (g, now, mapper, packet)" by (metis prod_cases4)
  then obtain d1 where d1: "DataProcessorStep E g now mapper packet d = Inr d1" "dataRun E inputs d1 = Inr d'"
    using Cons.prems(1) by (auto simp: bind_result_Inr_iff)
  have "length (dataBuf d1) = bufferSize" by (rule dataStep_buffer [OF d1(1) Cons.prems(2)])
  moreover have "votes_ok E (store d1)" using dataStep_votes_ok [OF R Cons.prems(2) d1(1)] Cons.prems(3,4) x by auto
  ultimately show ?case using Cons.IH [OF d1(2)] Cons.prems(3) by simp
qed simp

section \<open>Answers that never end\<close>

lemma collectLogs_full:
  assumes "collectLogs get toid i resp = Some out"
  shows "toid \<noteq> - 1"
proof (rule collectLogs.raw_induct [where P = "\<lambda>get toid i resp out. toid \<noteq> - 1", OF _ assms])
  fix collect :: "(u64 \<Rightarrow> LogEvent option) \<Rightarrow> u64 \<Rightarrow> u64 \<Rightarrow> u8 list \<Rightarrow> u8 list option" and get toid i resp out
  assume "\<And>get toid i resp out. collect get toid i resp = Some out \<Longrightarrow> toid \<noteq> - 1"
    and "(if i \<le> toid then collect get toid (i + 1)
        (case get i of Some le \<Rightarrow> resp @ take (unat (getLogSize le) + PackedHeaderSize) (content le) | None \<Rightarrow> resp)
      else Some resp) = Some out"
  then show "toid \<noteq> - 1" by (metis word_order.extremum)
qed

lemma collectLogs_ends:
  assumes "toid \<noteq> - 1"
  shows "\<exists>out. collectLogs get toid i resp = Some out"
proof (induction "Suc (unat toid) - unat i" arbitrary: i resp rule: less_induct)
  case less
  show ?case
  proof (cases "i \<le> toid")
    case True
    then have "i \<noteq> - 1" using assms by (metis word_order.extremum_unique)
    then have "1 + i \<noteq> 0" by (simp add: add_eq_0_iff)
    then have "unat (i + 1) = Suc (unat i)" using unatSuc [of i] by (simp add: add.commute)
    then have "Suc (unat toid) - unat (i + 1) < Suc (unat toid) - unat i" using True by (simp add: word_le_nat_alt)
    from less [OF this] True show ?thesis by (subst collectLogs.simps) auto
  next
    case False
    then show ?thesis by (subst collectLogs.simps) simp
  qed
qed

lemma count_wraps: "1000 \<le> - (w :: u64) \<longleftrightarrow> \<not> (w = 0 \<or> 2 ^ 64 - 1000 < unat w)"
proof (cases "w = 0")
  case False
  then have pos: "0 < unat w" by (simp add: unat_gt_0)
  have "unat w < 2 ^ LENGTH(64)" by (rule unsigned_less)
  then have bound: "unat w < 2 ^ 64" by simp
  have "unat (- w) = 2 ^ 64 - unat w"
  proof -
    have "- w = of_nat (2 ^ 64 - unat w)" using bound by (simp add: of_nat_diff)
    moreover have "2 ^ 64 - unat w < (2 :: nat) ^ 64" using pos by simp
    ultimately show ?thesis by (simp add: unat_of_nat)
  qed
  then show ?thesis using False bound by (simp add: word_le_nat_alt) linarith
qed simp

text \<open>
  Claim C39. A request for log events makes the request thread loop forever exactly when it carries no passcode, its last id is
  the largest 64-bit number, and the count \<open>toid - fromid + 1\<close>, which wraps to 0 for the full range, is below 1000. Every
  other request is answered.
\<close>

theorem replyLogEvent_hangs_iff:
  "replyLogEvent E g st r dejavu ptr = Inl Diverges \<longleftrightarrow>
     \<not> passcodeSet ptr \<and> load_le (field 40 8 ptr) = (- 1 :: u64) \<and>
     (load_le (field 32 8 ptr) = (0 :: u64) \<or> 2 ^ 64 - 1000 < unat (load_le (field 32 8 ptr) :: u64))"
proof -
  let ?from = "load_le (field 32 8 ptr) :: u64" and ?to = "load_le (field 40 8 ptr) :: u64"
  have loop: "loop_result (collectLogs get ?to i resp) = Inl Diverges \<longleftrightarrow> ?to = - 1" for get i resp
    using collectLogs_full [of get ?to i resp] collectLogs_ends [of ?to get i resp] by (cases "collectLogs get ?to i resp") auto
  have end_loop: "bind_result x (\<lambda>resp. Inr (f resp)) = Inl Diverges \<longleftrightarrow> x = Inl Diverges" for x :: "u8 list result" and f :: "u8 list \<Rightarrow> u8 list list"
    by (cases x) auto
  have count: "1000 \<le> - 1 - ?from + 1 \<longleftrightarrow> \<not> (?from = 0 \<or> 2 ^ 64 - 1000 < unat ?from)"
    using count_wraps [of ?from] by simp
  show ?thesis
  proof (cases "?to = - 1")
    case True
    then show ?thesis using loop count by (auto simp: replyLogEvent_def Let_def end_loop)
  next
    case False
    then show ?thesis using loop by (auto simp: replyLogEvent_def Let_def end_loop)
  qed
qed

section \<open>The pointer of the request thread\<close>

text \<open>The request thread over a sequence of packets, with what it reads at each moment.\<close>

primrec requestRun :: "'s env \<Rightarrow> (globals \<times> 's servers \<times> 'conn option RequestMap \<times> u32 \<times> u8 list) list \<Rightarrow>
    'conn requestThread \<Rightarrow> 'conn requestThread result" where
  "requestRun E [] t = Inr t"
| "requestRun E (x # xs) t =
     (case x of (g, st, mapper, r, packet) \<Rightarrow> bind_result (RequestProcessorStep E g st mapper r packet t) (requestRun E xs))"

lemma requestStep_ptr:
  assumes "RequestProcessorStep E g st mapper r packet t = Inr t'" and "8 \<le> length packet" and "length packet < bufferSize"
  shows "reqPtr t' = reqPtr t + 8 \<and> reqPtr t' \<le> bufferSize"
  using assms by (auto simp: RequestProcessorStep_def Let_def bind_result_Inr_iff split: if_splits option.splits)

lemma requestRun_ptr:
  assumes "requestRun E inputs t = Inr t'" and "\<forall>(g, st, mapper, r, packet) \<in> set inputs. 8 \<le> length packet \<and> length packet < bufferSize"
    and "reqPtr t \<le> bufferSize"
  shows "reqPtr t' = reqPtr t + 8 * length inputs \<and> reqPtr t' \<le> bufferSize"
  using assms
proof (induction inputs arbitrary: t)
  case (Cons x inputs)
  obtain g st mapper r packet where x: "x = (g, st, mapper, r, packet)" by (metis prod_cases5)
  then obtain t1 where t1: "RequestProcessorStep E g st mapper r packet t = Inr t1" "requestRun E inputs t1 = Inr t'"
    using Cons.prems(1) by (auto simp: bind_result_Inr_iff)
  have "reqPtr t1 = reqPtr t + 8 \<and> reqPtr t1 \<le> bufferSize" by (rule requestStep_ptr [OF t1(1)]) (use Cons.prems(2) x in auto)
  then show ?case using Cons.IH [OF t1(2)] Cons.prems(2) by simp
qed simp

text \<open>
  Claim C40. The request thread starts with its pointer at the beginning of its buffer. In every run in which it neither
  hangs nor writes outside the buffer it has handled at most 2097151 requests, with the pointer eight bytes further for each: one
  more request of any kind, however short, is written beyond the end of the buffer.
\<close>

theorem request_thread_overruns:
  assumes "\<forall>(g, st, mapper, r, packet) \<in> set inputs. 8 \<le> length packet \<and> length packet < bufferSize" and "reqPtr t = 0"
    and "requestRun E inputs t = Inr t'"
  shows "reqPtr t' = 8 * length inputs \<and> length inputs \<le> 2097151"
  using requestRun_ptr [OF assms(3,1)] assms(2) by auto

section \<open>Examples for the witnesses\<close>

definition exampleGlobals :: globals where
  "exampleGlobals = \<lparr>gCurrentProcessingEpoch = 200, gCurrentVerifyLoggingTick = 7, gInitialTick = 5,
     computorsList = \<lparr>compEpoch = 200, publicKeys = replicate 676 (replicate 32 0), compSignature = replicate 64 0\<rparr>\<rparr>"

definition exampleThread :: "memory_server dataThread" where
  "exampleThread = \<lparr>dataBuf = replicate bufferSize 0, store = \<lparr>keydb = (\<lambda>_. None, \<lambda>_ _. None), kvrocks = (\<lambda>_. None, \<lambda>_ _. None)\<rparr>,
     responseSCData = (\<lambda>_. None)\<rparr>"

definition examplePacket :: "u8 list" where
  "examplePacket = replyPacket 45 7 (content exampleEvent)"

lemma length_exampleEvent: "length (content exampleEvent) = 70"
  by (simp add: exampleEvent_def)

lemma length_examplePacket: "length examplePacket = 78"
  by (simp add: examplePacket_def replyPacket_def headerBytes_def setSize_def length_exampleEvent)

lemma example_chunk:
  assumes "p = content exampleEvent @ rest"
  shows "eventMessageSize p + PackedHeaderSize = 70" and "take 70 p = content exampleEvent"
    and "load_le (field 0 2 p) = (200 :: u16)" and "load_le (field 10 8 p) = (1 :: u64)"
proof -
  have f: "field a n p = bytes_at (content exampleEvent) a n" if "a + n \<le> 70" for a n
    using that by (simp add: assms field_def bytes_at_def length_exampleEvent)
  have h: "hasPackedHeader exampleEvent" by (simp add: hasPackedHeader_def PackedHeaderSize_def length_exampleEvent)
  have "eventMessageSize p = unat (getLogSize exampleEvent)" using h by (simp add: eventMessageSize_def f getLogSize_def)
  then show "eventMessageSize p + PackedHeaderSize = 70" by (simp add: exampleEvent_def PackedHeaderSize_def)
  show "take 70 p = content exampleEvent" by (simp add: assms length_exampleEvent)
  have "load_le (field 0 2 p) = getEpoch exampleEvent" "load_le (field 10 8 p) = getLogId exampleEvent"
    using h by (simp_all add: f getEpoch_def getLogId_def)
  then show "load_le (field 0 2 p) = (200 :: u16)" "load_le (field 10 8 p) = (1 :: u64)" by (simp_all add: exampleEvent_def)
qed

lemma example_loop:
  "logEventLoop exampleEnv 200 (content exampleEvent @ rest) 70 0 0 st =
     Inr (1, st\<lparr>keydb := (if fst (keydb st) (logKey 200 1) = None then (fst (keydb st))(logKey 200 1 \<mapsto> content exampleEvent) else fst (keydb st), snd (keydb st))\<rparr>)"
proof -
  have "\<lparr>content = content exampleEvent\<rparr> = exampleEvent" by simp
  then have ok: "selfCheck 200 \<lparr>content = content exampleEvent\<rparr>" using exampleEvent_ok unfolding logInRange_def by metis
  note chunk = example_chunk [OF refl, of rest]
  have stop: "logEventLoop E e p 70 70 m st = Inr (m, st)" for E e p m and st :: "memory_server servers"
    by (subst logEventLoop.simps) simp
  have ins: "snd (db_insert_log exampleEnv 200 1 v st) =
      st\<lparr>keydb := (if fst (keydb st) (logKey 200 1) = None then (fst (keydb st))(logKey 200 1 \<mapsto> v) else fst (keydb st), snd (keydb st))\<rparr>" for v
    by (simp add: db_insert_log_def onKeydb_def exampleEnv_def memoryRedis_def)
  show ?thesis by (subst logEventLoop.simps) (simp add: Let_def chunk updateContent_def ok length_exampleEvent stop ins)
qed

lemma example_step:
  "\<exists>d'. DataProcessorStep exampleEnv exampleGlobals 0 Map.empty examplePacket exampleThread = Inr d' \<and>
     getOr (g_redis exampleEnv) (keydb (store d')) (logKey 200 1) = Some (content exampleEvent)"
proof -
  define h where "h = setSize 78 (setDejavu 7 (setType 45 emptyHeader))"
  define rest where "rest = drop 78 (dataBuf exampleThread)"
  have buf: "copyIn 0 examplePacket (dataBuf exampleThread) = headerBytes h @ content exampleEvent @ rest"
    unfolding copyIn_def length_examplePacket rest_def by (simp add: examplePacket_def replyPacket_def h_def length_exampleEvent)
  have len: "length (headerBytes h) = 8" by (simp add: headerBytes_def h_def setSize_def)
  have "readHeader (headerBytes h @ []) = h" by (rule readHeader_headerBytes) (simp add: header_ok_def h_def setSize_def)
  then have hdr: "readHeader (headerBytes h) = h" by simp
  have type: "htype h = 45" by (simp add: h_def setSize_def setDejavu_def setType_def)
  have kept: "getOr (g_redis exampleEnv) (keydb (snd (db_update_latest_log_id exampleEnv 200 1 st))) k = getOr (g_redis exampleEnv) (keydb st) k" for st k
    unfolding db_update_latest_log_id_def by (rule hash_frame(2)) (simp add: exampleEnv_def memoryRedis_laws)
  show ?thesis
    using example_loop [of rest "store exampleThread"]
    by (simp add: DataProcessorStep_def Let_def buf hdr type len length_examplePacket processLogEvent_def exampleGlobals_def setStore_def kept)
      (simp add: exampleThread_def exampleEnv_def)
qed

theorem data_thread_stores_only_checked_witness:
  "checkedLog exampleGlobals 200 1 (content exampleEvent)"
proof -
  obtain d' where step: "DataProcessorStep exampleEnv exampleGlobals 0 (Map.empty :: unit RequestMap) examplePacket exampleThread = Inr d'"
    and v: "getOr (g_redis exampleEnv) (keydb (store d')) (logKey 200 1) = Some (content exampleEvent)"
    using example_step by blast
  have laws: "redis_laws (g_redis exampleEnv)" by (simp add: exampleEnv_def memoryRedis_laws)
  have len: "length (dataBuf exampleThread) = bufferSize" unfolding exampleThread_def dataThread.simps by (rule length_replicate)
  have "getOr (g_redis exampleEnv) (keydb (store exampleThread)) (logKey 200 1) = None" by (simp add: exampleEnv_def exampleThread_def)
  moreover have tx: "(logKey 200 1 = ''transaction:'' @ h) = False" for h by (simp add: logKey_def)
  ultimately show ?thesis using data_thread_stores_only_checked [OF laws len step v]
    by (elim disjE exE conjE) (simp_all only: tx logKey_eq keys_distinct option.distinct simp_thms)
qed

theorem request_thread_overruns_witness:
  "requestRun exampleEnv [(exampleGlobals, store exampleThread, Map.empty, 0, replicate 8 1)] \<lparr>reqBuf = [], reqPtr = 0, sent = ([] :: (nat \<times> u8 list) list)\<rparr> =
     Inr \<lparr>reqBuf = replicate 8 1, reqPtr = 8 * 1, sent = []\<rparr> \<and> 1 \<le> (2097151 :: nat)"
proof -
  have run: "requestRun exampleEnv [(exampleGlobals, store exampleThread, Map.empty, 0, replicate 8 1)] \<lparr>reqBuf = [], reqPtr = 0, sent = ([] :: (nat \<times> u8 list) list)\<rparr> =
      Inr \<lparr>reqBuf = replicate 8 1, reqPtr = 8, sent = []\<rparr>"
    by (simp add: RequestProcessorStep_def Let_def copyIn_def requestGet_def)
  show ?thesis using request_thread_overruns [OF _ _ run] run by simp
qed

end
