(* ===== verification/Indexer.thy ===== *)
theory Indexer
  imports DataProcessors
begin

text \<open>
  The indexer \<open>QubicIndexer.cpp\<close> with the index part of \<open>db.cpp\<close>: for every verified tick it records its transactions and
  adds the tick to the sorted sets of the topics of its log events; a search reads one such set. The lemmas show that
  a search finds every indexed event that fits it, and that events that pass their self check are read inside their bounds. Sorted sets are a state of their own next to the strings of the server.
\<close>

section \<open>Sorted sets\<close>

record 'i zsets =
  rZAdd :: "string \<Rightarrow> string \<Rightarrow> nat \<Rightarrow> 'i \<Rightarrow> 'i option"
  rZRangeByScore :: "string \<Rightarrow> nat \<Rightarrow> nat \<Rightarrow> 'i \<Rightarrow> string list option"

definition db_add_indexer :: "'i zsets \<Rightarrow> string \<Rightarrow> u32 \<Rightarrow> 'i \<Rightarrow> 'i" where
  "db_add_indexer Z key tickNumber ix =
     (case rZAdd Z key (to_string (unat tickNumber)) (unat tickNumber) ix of Some ix' \<Rightarrow> ix' | None \<Rightarrow> ix)"

text \<open>The text that stands for any topic: the identity of the zero key in lower case.\<close>

definition anyTopic :: string where
  "anyTopic = ''aaaaaaaaaaaaaaaaaaaaaaaaaaaaaaaaaaaaaaaaaaaaaaaaaaaaaaaafxib''"

definition toPart :: "string \<Rightarrow> string" where
  "toPart t = (if t = anyTopic then ''ANY'' else t)"

definition searchKey :: "u32 \<Rightarrow> u32 \<Rightarrow> string \<Rightarrow> string \<Rightarrow> string \<Rightarrow> string" where
  "searchKey scIndex scLogType topic1 topic2 topic3 =
     (if topic1 = anyTopic \<and> topic2 = anyTopic \<and> topic3 = anyTopic
      then if scLogType = 0xffffffff then ''indexed:'' @ to_string (unat scIndex)
           else ''indexed:'' @ to_string (unat scIndex) @ '':'' @ to_string (unat scLogType)
      else ''indexed:'' @ to_string (unat scIndex) @ '':'' @ to_string (unat scLogType) @ '':'' @
        toPart topic1 @ '':'' @ toPart topic2 @ '':'' @ toPart topic3)"

definition db_search_log :: "'i zsets \<Rightarrow> 'i \<Rightarrow> u32 \<Rightarrow> u32 \<Rightarrow> u32 \<Rightarrow> u32 \<Rightarrow> string \<Rightarrow> string \<Rightarrow> string \<Rightarrow> u32 list" where
  "db_search_log Z ix scIndex scLogType fromTick toTick topic1 topic2 topic3 =
     (if length topic1 \<noteq> 60 \<or> length topic2 \<noteq> 60 \<or> length topic3 \<noteq> 60 then []
      else case rZRangeByScore Z (searchKey scIndex scLogType topic1 topic2 topic3) (unat fromTick) (unat toTick) ix of
        None \<Rightarrow> []
      | Some members \<Rightarrow> List.map_filter (\<lambda>m. map_option ucast (stoul m)) members)"

section \<open>Indexed transactions\<close>

definition indexedTxData :: "int \<Rightarrow> bool \<Rightarrow> u64 \<Rightarrow> u64 \<Rightarrow> u64 \<Rightarrow> u8 list" where
  "indexedTxData tx_index isExecuted from_log_id to_log_id ts =
     store_le (of_int tx_index :: u32) @ [if isExecuted then 1 else 0] @ store_le from_log_id @ store_le to_log_id @ store_le ts"

definition db_set_indexed_tx :: "'s env \<Rightarrow> string \<Rightarrow> int \<Rightarrow> u64 \<Rightarrow> u64 \<Rightarrow> u64 \<Rightarrow> bool \<Rightarrow> 's servers \<Rightarrow> 's servers" where
  "db_set_indexed_tx E key tx_index from_log_id to_log_id ts isExecuted st =
     snd (onKeydb (rSet (g_redis E) key (indexedTxData tx_index isExecuted from_log_id to_log_id ts)) st)"

definition db_get_indexed_tx :: "'s env \<Rightarrow> 's servers \<Rightarrow> string \<Rightarrow> (int \<times> bool \<times> u64 \<times> u64 \<times> u64) option" where
  "db_get_indexed_tx E st tx_hash =
     (case getOr (g_redis E) (keydb st) (''itx:'' @ tx_hash) of
        None \<Rightarrow> None
      | Some val \<Rightarrow> if length val \<noteq> 29 then None
          else Some (sint (load_le (field 0 4 val) :: u32), field 4 1 val \<noteq> [0], load_le (field 5 8 val), load_le (field 13 8 val), load_le (field 21 8 val)))"

section \<open>The indexer\<close>

definition txAmount :: "u8 list \<Rightarrow> u64" where
  "txAmount tx = load_le (field 64 8 tx)"

definition matchesTransaction :: "QuTransfer \<Rightarrow> u8 list \<Rightarrow> bool" where
  "matchesTransaction transfer tx \<longleftrightarrow> qtSourcePublicKey transfer = keyAt tx 0 \<and> qtDestinationPublicKey transfer = keyAt tx 32 \<and>
     qtAmount transfer = txAmount tx"

text \<open>\<open>timegm\<close>: seconds since 1970 of a broken-down time whose month may be out of range.\<close>

definition monthDays :: "int \<Rightarrow> int list" where
  "monthDays y = [31, if y mod 4 = 0 \<and> (y mod 100 \<noteq> 0 \<or> y mod 400 = 0) then 29 else 28, 31, 30, 31, 30, 31, 31, 30, 31, 30, 31]"

definition timegm :: "int \<Rightarrow> int \<Rightarrow> int \<Rightarrow> int \<Rightarrow> int \<Rightarrow> int \<Rightarrow> int" where
  "timegm year month day hour minute second =
     (let y = year + 1900 + month div 12;
          days = 365 * (y - 1970) + (y - 1969) div 4 - (y - 1901) div 100 + (y - 1601) div 400 +
            sum_list (take (nat (month mod 12)) (monthDays y)) + day - 1
      in ((days * 24 + hour) * 60 + minute) * 60 + second)"

definition calculateUnixTimestamp :: "TickData \<Rightarrow> u64" where
  "calculateUnixTimestamp td =
     (let byte = (\<lambda>i. uint (td ! i));
          t = timegm (byte 15 + 2000 - 1900) (byte 14 - 1) (byte 13) (byte 12) (byte 11) (byte 10)
      in of_int t * 1000 + ucast (load_le (field 8 2 td) :: u16))"

text \<open>What the event variable holds after \<open>db_try_get_log\<close>, found or not.\<close>

definition triedLog :: "'s env \<Rightarrow> 's servers \<Rightarrow> u16 \<Rightarrow> u64 \<Rightarrow> LogEvent" where
  "triedLog E st epoch logId =
     (let first = getOr (g_redis E) (keydb st) (logKey epoch logId)
      in case logOf epoch logId first of Some log \<Rightarrow> log
      | None \<Rightarrow> (case getOr (g_kvrocks E) (kvrocks st) (logKey epoch logId) of
            Some bytes \<Rightarrow> \<lparr>content = bytes\<rparr>
          | None \<Rightarrow> \<lparr>content = (case first of Some bytes \<Rightarrow> bytes | None \<Rightarrow> [])\<rparr>))"

text \<open>The result \<open>Inr None\<close> is a transaction that is left out as spam.\<close>

definition executed :: "'s env \<Rightarrow> int \<Rightarrow> TickData \<Rightarrow> LogRangesPerTxInTick \<Rightarrow> nat \<Rightarrow> 's servers \<Rightarrow> bool option result" where
  "executed E gSpamThreshold td lr i st =
     (if 0 < sint (logLength lr i) then
        let firstEvent = triedLog E st (tdEpoch td) (fromLogId lr i)
        in if getType firstEvent = 0 then
          bind_result (readBody 72 firstEvent) (\<lambda>body.
            case db_try_get_transaction E st (hashOfDigest (tdTransactionDigests td i)) of
              None \<Rightarrow> Inr (Some False)
            | Some tx \<Rightarrow>
                if length tx < 80 then Inl OutOfBounds
                else if sint (txAmount tx) < gSpamThreshold \<and> txInputSize tx = 0 \<and> (load_le (field 76 2 tx) :: u16) = 0 then Inr None
                else Inr (Some (matchesTransaction (decodeQuTransfer body) tx)))
        else Inr (Some False)
      else Inr (Some False))"

definition indexTransaction :: "'s env \<Rightarrow> int \<Rightarrow> TickData \<Rightarrow> LogRangesPerTxInTick \<Rightarrow> u64 \<Rightarrow> nat \<Rightarrow> 's servers result \<Rightarrow> 's servers result" where
  "indexTransaction E gSpamThreshold td lr ts i r = bind_result r (\<lambda>st.
     if tdTransactionDigests td i = 0 then Inr st
     else bind_result (executed E gSpamThreshold td lr i st) (\<lambda>isExecuted.
       case isExecuted of None \<Rightarrow> Inr st
       | Some isExecuted \<Rightarrow> Inr (db_set_indexed_tx E (''itx:'' @ hashOfDigest (tdTransactionDigests td i)) (int i) (fromLogId lr i)
           (fromLogId lr i + logLength lr i - 1) ts isExecuted st)))"

definition indexSpecial :: "'s env \<Rightarrow> u32 \<Rightarrow> LogRangesPerTxInTick \<Rightarrow> u64 \<Rightarrow> nat \<Rightarrow> 's servers \<Rightarrow> 's servers" where
  "indexSpecial E tick lr ts i st =
     db_set_indexed_tx E (''itx:'' @ to_string (unat tick) @ ''_'' @ to_string i) (int i) (fromLogId lr i)
       (fromLogId lr i + logLength lr i - 1) ts True st"

text \<open>Contract, type and topics of an event; \<open>Inr None\<close> is an event that is not indexed.\<close>

record topics =
  SC_index :: u32
  logType :: u32
  topic1 :: m256
  topic2 :: m256
  topic3 :: m256

definition laneKey :: "u32 \<Rightarrow> m256" where
  "laneKey n = push_bit 192 (ucast n)"

definition assetTopic :: "u8 list \<Rightarrow> nat \<Rightarrow> nat \<Rightarrow> m256" where
  "assetTopic body issuerAt nameStart = load_le (KangarooTwelve (bytes_at body issuerAt 32 @ bytes_at body nameStart 7) 32)"

definition padTopic :: "u8 list \<Rightarrow> nat \<Rightarrow> m256" where
  "padTopic body start = load_le (bytes_at body start 32)"

definition contractTopics :: "LogEvent \<Rightarrow> topics option" where
  "contractTopics le =
     (let body = take (unat (getLogSize le)) (getLogBody le);
          t = \<lparr>SC_index = u32At body 0, logType = u32At body 4, topic1 = padTopic body 8, topic2 = padTopic body 40, topic3 = padTopic body 72\<rparr>
      in if 8 \<le> unat (getLogSize le) \<and> 100000 \<le> logType t \<and> SC_index t \<noteq> 0xffffffff then Some t else None)"

definition topicsOf :: "LogEvent \<Rightarrow> topics option result" where
  "topicsOf le =
     (let type = getType le;
          indexed = (\<lambda>n f. bind_result (readBody n le) (\<lambda>body. case f body of (a, b, c) \<Rightarrow>
            Inr (Some \<lparr>SC_index = 0, logType = type, topic1 = a, topic2 = b, topic3 = c\<rparr>)))
      in if type = 0 then indexed 72 (\<lambda>e. (keyAt e 0, keyAt e 32, 0))
      else if type = 1 then indexed 63 (\<lambda>e. (keyAt e 0, load_le (bytes_at e 32 31), 0))
      else if type = 2 \<or> type = 3 then indexed 127 (\<lambda>e. (keyAt e 0, keyAt e 32, assetTopic e 64 112))
      else if type = 11 then indexed 87 (\<lambda>e. (keyAt e 0, assetTopic e 32 80, 0))
      else if type = 12 then indexed 119 (\<lambda>e. (keyAt e 32, assetTopic e 64 112, 0))
      else if type = 8 then indexed 44 (\<lambda>e. (keyAt e 0, laneKey (u32At e 40), 0))
      else if type = 13 then indexed 20 (\<lambda>e. (laneKey (u32At e 16), 0, 0))
      else if 4 \<le> type \<and> type \<le> 7 then Inr (contractTopics le)
      else Inr None)"

text \<open>The sets an event is added to: without topics, and for every choice of at least one topic.\<close>

definition topicPart :: "topics \<Rightarrow> nat \<Rightarrow> nat \<Rightarrow> string" where
  "topicPart t choice j =
     (let topic = (if j = 0 then topic1 t else if j = 1 then topic2 t else topic3 t)
      in if topic = 0 then ''ANY'' else if bit choice j then hashOfDigest topic else ''ANY'')"

definition topicKey :: "topics \<Rightarrow> nat \<Rightarrow> string" where
  "topicKey t choice = ''indexed:'' @ to_string (unat (SC_index t)) @ '':'' @ to_string (unat (logType t)) @ '':'' @
     topicPart t choice 0 @ '':'' @ topicPart t choice 1 @ '':'' @ topicPart t choice 2"

definition anySet :: "topics \<Rightarrow> nat \<Rightarrow> bool" where
  "anySet t choice \<longleftrightarrow> topic1 t \<noteq> 0 \<and> bit choice 0 \<or> topic2 t \<noteq> 0 \<and> bit choice 1 \<or> topic3 t \<noteq> 0 \<and> bit choice 2"

definition eventKeys :: "topics \<Rightarrow> string list" where
  "eventKeys t =
     (if SC_index t = 0 \<and> logType t = 0 then []
      else (if SC_index t \<noteq> 0 then [''indexed:'' @ to_string (unat (SC_index t))] else []) @
        [''indexed:'' @ to_string (unat (SC_index t)) @ '':'' @ to_string (unat (logType t))]) @
     map (topicKey t) (filter (anySet t) [1..<8])"

definition indexEvent :: "'i zsets \<Rightarrow> u32 \<Rightarrow> LogEvent \<Rightarrow> 'i result \<Rightarrow> 'i result" where
  "indexEvent Z tick le r = bind_result r (\<lambda>ix. bind_result (topicsOf le) (\<lambda>t.
     case t of None \<Rightarrow> Inr ix | Some t \<Rightarrow> Inr (fold (\<lambda>key. db_add_indexer Z key tick) (eventKeys t) ix)))"

definition indexTick :: "'s env \<Rightarrow> 'i zsets \<Rightarrow> globals \<Rightarrow> int \<Rightarrow> u32 \<Rightarrow> TickData \<Rightarrow> 's servers \<times> 'i \<Rightarrow> ('s servers \<times> 'i) result" where
  "indexTick E Z g gSpamThreshold tick td s =
     (case s of (st, ix) \<Rightarrow>
        let ts = (if tdEpoch td = gCurrentProcessingEpoch g then calculateUnixTimestamp td else 0);
            lr = decodeLogRanges (case db_try_get_log_ranges E st tick of Some lr \<Rightarrow> lr | None \<Rightarrow> replicate sizeofLogRanges 255)
        in bind_result
          (if tdTick td = tick
           then fold (indexTransaction E gSpamThreshold td lr ts) [0..<NUMBER_OF_TRANSACTIONS_PER_TICK] (Inr st) else Inr st)
          (\<lambda>st. let st = fold (indexSpecial E tick lr ts) [SC_INITIALIZE_TX..<SC_END_EPOCH_TX + 1] st;
                    (_, vle) = db_get_logs_by_tick_range E st (gCurrentProcessingEpoch g) tick tick
                in bind_result (fold (indexEvent Z tick) vle (Inr ix)) (\<lambda>ix. Inr (st, ix))))"

text \<open>One turn of the loop: the new last indexed tick, \<open>None\<close> when the thread stops.\<close>

definition db_update_last_indexed_tick :: "'s env \<Rightarrow> u32 \<Rightarrow> 's servers \<Rightarrow> bool \<times> 's servers" where
  "db_update_last_indexed_tick E tick = raiseCounter E ''db_status'' ''last_indexed_tick'' (uint tick)"

definition db_get_last_indexed_tick :: "'s env \<Rightarrow> 's servers \<Rightarrow> int" where
  "db_get_last_indexed_tick E st = readCounter E ''db_status'' ''last_indexed_tick'' st"

definition indexerStart :: "'s env \<Rightarrow> globals \<Rightarrow> 's servers \<Rightarrow> int" where
  "indexerStart E g st =
     (let lastIndexed = db_get_last_indexed_tick E st in if lastIndexed = - 1 then uint (gInitialTick g - 1) else lastIndexed)"

definition indexStep :: "'s env \<Rightarrow> 'i zsets \<Rightarrow> globals \<Rightarrow> int \<Rightarrow> bool \<Rightarrow> int \<Rightarrow> 's servers \<times> 'i \<Rightarrow> (int option \<times> 's servers \<times> 'i) result" where
  "indexStep E Z g gSpamThreshold endEpoch lastIndexed s =
     (let nextTick = (of_int (lastIndexed + 1) :: u32)
      in if nextTick = gCurrentVerifyLoggingTick g \<and> endEpoch then Inr (None, s)
      else if gCurrentVerifyLoggingTick g \<le> nextTick then Inr (Some lastIndexed, s)
      else bind_result (indexTick E Z g gSpamThreshold nextTick (snd (db_try_get_tick_data E (fst s) nextTick)) s) (\<lambda>(st, ix).
        case db_update_last_indexed_tick E nextTick st of (ok, st) \<Rightarrow>
          Inr (Some (if ok then uint nextTick else lastIndexed), st, ix)))"

section \<open>What is relied on\<close>

text \<open>
  The documented behaviour of sorted sets, seen through the scores of the members of each set: \<open>ZADD NX\<close> adds a member that
  is not there and changes nothing else, and a range holds exactly the members whose score is in the bounds.
\<close>

definition zset_laws :: "'i zsets \<Rightarrow> ('i \<Rightarrow> string \<Rightarrow> string \<rightharpoonup> nat) \<Rightarrow> bool" where
  "zset_laws Z scores \<longleftrightarrow>
     (\<forall>k m n s. \<exists>s'. rZAdd Z k m n s = Some s' \<and> scores s' = (if scores s k m = None then (scores s)(k := (scores s k)(m \<mapsto> n)) else scores s)) \<and>
     (\<forall>k a b s. \<exists>ms. rZRangeByScore Z k a b s = Some ms \<and> set ms = {m. \<exists>n. scores s k m = Some n \<and> a \<le> n \<and> n \<le> b})"

text \<open>Every member is the text of its score, which is how the indexer adds them.\<close>

definition scores_ok :: "(string \<Rightarrow> string \<rightharpoonup> nat) \<Rightarrow> bool" where
  "scores_ok f \<longleftrightarrow> (\<forall>k m n. f k m = Some n \<longrightarrow> m = to_string n)"

definition listed :: "(string \<Rightarrow> string \<rightharpoonup> nat) \<Rightarrow> u32 \<Rightarrow> string \<Rightarrow> bool" where
  "listed f tick key \<longleftrightarrow> f key (to_string (unat tick)) = Some (unat tick)"

lemma add_indexer:
  assumes "zset_laws Z scores" and "scores_ok (scores ix)"
  shows "scores_ok (scores (db_add_indexer Z key tick ix))" and "listed (scores (db_add_indexer Z key tick ix)) tick key"
    and "listed (scores ix) t k \<Longrightarrow> listed (scores (db_add_indexer Z key tick ix)) t k"
proof -
  obtain ix' where ix': "rZAdd Z key (to_string (unat tick)) (unat tick) ix = Some ix'"
    "scores ix' = (if scores ix key (to_string (unat tick)) = None
       then (scores ix)(key := (scores ix key)(to_string (unat tick) \<mapsto> unat tick)) else scores ix)"
    using conjunct1 [OF assms(1) [unfolded zset_laws_def], rule_format, of key "to_string (unat tick)" "unat tick" ix] by blast
  have add: "db_add_indexer Z key tick ix = ix'" by (simp add: db_add_indexer_def ix'(1))
  have member: "scores ix k m = Some n \<Longrightarrow> m = to_string n" for k m n using assms(2) unfolding scores_ok_def by blast
  show "scores_ok (scores (db_add_indexer Z key tick ix))"
    unfolding scores_ok_def add ix'(2) using member by (simp split: if_split)
  show "listed (scores ix) t k \<Longrightarrow> listed (scores (db_add_indexer Z key tick ix)) t k"
    unfolding listed_def add ix'(2) by (auto split: if_split)
  show "listed (scores (db_add_indexer Z key tick ix)) tick key"
  proof (cases "scores ix key (to_string (unat tick))")
    case (Some n)
    then have "n = unat tick" using member [OF Some] by simp
    then show ?thesis using Some by (simp add: listed_def add ix'(2))
  qed (simp add: listed_def add ix'(2))
qed

lemma add_indexers:
  assumes Z: "zset_laws Z scores"
  shows "scores_ok (scores ix) \<Longrightarrow> scores_ok (scores (fold (\<lambda>key. db_add_indexer Z key tick) keys ix)) \<and>
    (\<forall>key. key \<in> set keys \<or> listed (scores ix) tick key \<longrightarrow> listed (scores (fold (\<lambda>key. db_add_indexer Z key tick) keys ix)) tick key)"
proof (induction keys arbitrary: ix)
  case (Cons key keys)
  from Cons.IH [OF add_indexer(1) [OF Z Cons.prems, of key tick]] show ?case using add_indexer(2,3) [OF Z Cons.prems] by auto
qed simp

lemma fold_indexEvent_error: "fold (indexEvent Z tick) les (Inl e) = Inl e"
  by (induction les) (simp_all add: indexEvent_def)

lemma index_events:
  assumes Z: "zset_laws Z scores"
  shows "fold (indexEvent Z tick) les (Inr ix) = Inr ix' \<Longrightarrow> scores_ok (scores ix) \<Longrightarrow>
    scores_ok (scores ix') \<and> (\<forall>key. listed (scores ix) tick key \<longrightarrow> listed (scores ix') tick key) \<and>
    (\<forall>le t key. le \<in> set les \<and> topicsOf le = Inr (Some t) \<and> key \<in> set (eventKeys t) \<longrightarrow> listed (scores ix') tick key)"
proof (induction les arbitrary: ix)
  case (Cons le les)
  obtain ix1 where ix1: "indexEvent Z tick le (Inr ix) = Inr ix1"
    using Cons.prems(1) by (cases "indexEvent Z tick le (Inr ix)") (simp_all add: fold_indexEvent_error)
  have one: "scores_ok (scores ix1) \<and> (\<forall>key. listed (scores ix) tick key \<longrightarrow> listed (scores ix1) tick key) \<and>
      (\<forall>t key. topicsOf le = Inr (Some t) \<and> key \<in> set (eventKeys t) \<longrightarrow> listed (scores ix1) tick key)"
  proof (cases "topicsOf le")
    case (Inr x)
    show ?thesis
    proof (cases x)
      case None
      then show ?thesis using ix1 Inr Cons.prems(2) by (simp add: indexEvent_def)
    next
      case (Some t)
      have "ix1 = fold (\<lambda>key. db_add_indexer Z key tick) (eventKeys t) ix" using ix1 Inr Some by (simp add: indexEvent_def)
      then show ?thesis using add_indexers [OF Z Cons.prems(2), of tick "eventKeys t"] Inr Some by simp
    qed
  qed (use ix1 in \<open>simp add: indexEvent_def\<close>)
  have "fold (indexEvent Z tick) les (Inr ix1) = Inr ix'" using Cons.prems(1) ix1 by simp
  from Cons.IH [OF this] one show ?case by auto
qed simp

section \<open>Searches\<close>

text \<open>
  A search fits an event when contract and type agree and every topic is left open or is that of the event; with all
  topics open the type may be left open too, and what the index leaves out on purpose cannot be asked for: transfers
  without a topic, and contract 0 without a type.
\<close>

definition topicFits :: "m256 \<Rightarrow> string \<Rightarrow> bool" where
  "topicFits topic q \<longleftrightarrow> q = anyTopic \<or> topic \<noteq> 0 \<and> q = hashOfDigest topic"

definition fits :: "topics \<Rightarrow> u32 \<Rightarrow> u32 \<Rightarrow> string \<Rightarrow> string \<Rightarrow> string \<Rightarrow> bool" where
  "fits t scIndex scLogType q1 q2 q3 \<longleftrightarrow>
     scIndex = SC_index t \<and> topicFits (topic1 t) q1 \<and> topicFits (topic2 t) q2 \<and> topicFits (topic3 t) q3 \<and>
     (if q1 = anyTopic \<and> q2 = anyTopic \<and> q3 = anyTopic
      then if scLogType = 0xffffffff then scIndex \<noteq> 0 else scLogType = logType t \<and> \<not> (scIndex = 0 \<and> scLogType = 0)
      else scLogType = logType t)"

definition choiceOf :: "string \<Rightarrow> string \<Rightarrow> string \<Rightarrow> nat" where
  "choiceOf q1 q2 q3 = (if q1 = anyTopic then 0 else 1) + (if q2 = anyTopic then 0 else 2) + (if q3 = anyTopic then 0 else 4)"

lemma choice_bits: "bit (choiceOf q1 q2 q3) 0 \<longleftrightarrow> q1 \<noteq> anyTopic" "bit (choiceOf q1 q2 q3) (Suc 0) \<longleftrightarrow> q2 \<noteq> anyTopic"
    "bit (choiceOf q1 q2 q3) 2 \<longleftrightarrow> q3 \<noteq> anyTopic" "choiceOf q1 q2 q3 < 8"
    "choiceOf q1 q2 q3 = 0 \<longleftrightarrow> q1 = anyTopic \<and> q2 = anyTopic \<and> q3 = anyTopic"
  by (auto simp: choiceOf_def bit_iff_odd)

lemma search_key_indexed:
  assumes "fits t scIndex scLogType q1 q2 q3"
  shows "searchKey scIndex scLogType q1 q2 q3 \<in> set (eventKeys t)"
proof (cases "q1 = anyTopic \<and> q2 = anyTopic \<and> q3 = anyTopic")
  case True
  then show ?thesis using assms by (auto simp: fits_def searchKey_def eventKeys_def split: if_splits)
next
  case False
  let ?c = "choiceOf q1 q2 q3"
  have part: "topicPart t ?c 0 = toPart q1" "topicPart t ?c 1 = toPart q2" "topicPart t ?c 2 = toPart q3"
    using assms by (auto simp: fits_def topicFits_def topicPart_def toPart_def Let_def choice_bits)
  have "searchKey scIndex scLogType q1 q2 q3 = topicKey t ?c"
    using assms False unfolding topicKey_def part by (auto simp: searchKey_def fits_def)
  moreover have "?c \<in> set [1..<8]" using False choice_bits(4,5) [of q1 q2 q3] by auto
  moreover have "anySet t ?c" using assms False by (auto simp: anySet_def choice_bits fits_def topicFits_def)
  ultimately show ?thesis unfolding eventKeys_def by auto
qed

lemma search_finds:
  assumes Z: "zset_laws Z scores" and listed: "listed (scores ix) tick (searchKey scIndex scLogType q1 q2 q3)"
    and len: "length q1 = 60" "length q2 = 60" "length q3 = 60" and range: "fromTick \<le> tick" "tick \<le> toTick"
  shows "tick \<in> set (db_search_log Z ix scIndex scLogType fromTick toTick q1 q2 q3)"
proof -
  obtain ms where ms: "rZRangeByScore Z (searchKey scIndex scLogType q1 q2 q3) (unat fromTick) (unat toTick) ix = Some ms"
    "set ms = {m. \<exists>n. scores ix (searchKey scIndex scLogType q1 q2 q3) m = Some n \<and> unat fromTick \<le> n \<and> n \<le> unat toTick}"
    using conjunct2 [OF Z [unfolded zset_laws_def], rule_format, of "searchKey scIndex scLogType q1 q2 q3" "unat fromTick" "unat toTick" ix] by blast
  have m: "to_string (unat tick) \<in> set ms" using listed range unfolding ms(2) by (auto simp: listed_def word_le_nat_alt)
  have "unat tick < 2 ^ 64" by (rule less_trans [OF unsigned_less]) simp
  moreover have "ucast (ucast tick :: u64) = tick" by (rule bit_word_eqI) (simp add: bit_simps)
  ultimately have "map_option ucast (stoul (to_string (unat tick))) = Some tick" by (simp add: stoul_to_string)
  with m show ?thesis unfolding db_search_log_def ms(1) using len by (force simp: List.map_filter_def)
qed

lemma fits_lengths: "fits t scIndex scLogType q1 q2 q3 \<Longrightarrow> length q1 = 60 \<and> length q2 = 60 \<and> length q3 = 60"
  by (auto simp: fits_def topicFits_def hashOfDigest_def anyTopic_def)

text \<open>
  Claim C19. After a tick has been indexed, every search that fits one of the log events of the tick (as they are read for this epoch
  and tick) and whose range contains the tick returns the tick.
\<close>

theorem indexed_event_is_found:
  assumes Z: "zset_laws Z scores" "scores_ok (scores ix)"
    and index: "indexTick E Z g gSpamThreshold tick td (st, ix) = Inr (st', ix')"
    and le: "le \<in> set (snd (db_get_logs_by_tick_range E st' (gCurrentProcessingEpoch g) tick tick))" "topicsOf le = Inr (Some t)"
    and q: "fits t scIndex scLogType q1 q2 q3" "fromTick \<le> tick" "tick \<le> toTick"
  shows "tick \<in> set (db_search_log Z ix' scIndex scLogType fromTick toTick q1 q2 q3)"
proof -
  obtain vle where vle: "snd (db_get_logs_by_tick_range E st' (gCurrentProcessingEpoch g) tick tick) = vle" by simp
  have events: "fold (indexEvent Z tick) vle (Inr ix) = Inr ix'"
    using index vle by (auto simp: indexTick_def Let_def bind_result_Inr_iff case_prod_unfold)
  then have "listed (scores ix') tick (searchKey scIndex scLogType q1 q2 q3)"
    using index_events [OF Z(1) events Z(2)] le vle search_key_indexed [OF q(1)] by blast
  from search_finds [OF Z(1) this] fits_lengths [OF q(1)] q(2,3) show ?thesis by simp
qed

section \<open>A first event that is missing\<close>

text \<open>
  An event that is on neither server leaves the variable empty, an empty event has type 0, and type 0 is that of a transfer: the
  transfer is then copied from beyond the event.
\<close>

lemma missing_event_overread:
  assumes "0 < sint (logLength lr i)" and "getOr (g_redis E) (keydb st) (logKey (tdEpoch td) (fromLogId lr i)) = None"
    and "getOr (g_kvrocks E) (kvrocks st) (logKey (tdEpoch td) (fromLogId lr i)) = None"
  shows "executed E gSpamThreshold td lr i st = Inl OutOfBounds"
  using assms by (simp add: executed_def triedLog_def logOf_def getType_def hasPackedHeader_def PackedHeaderSize_def readBody_def Let_def)

text \<open>What is recorded of a transaction is read back.\<close>

lemma indexed_tx_roundtrip:
  assumes R: "redis_laws (g_redis E)" "responsive (g_redis E)" and i: "- (2 ^ 31) \<le> i" "i < 2 ^ 31"
  shows "db_get_indexed_tx E (db_set_indexed_tx E (''itx:'' @ h) i a b ts ex st) h = Some (i, ex, a, b, ts)"
proof -
  obtain s where s: "rSet (g_redis E) (''itx:'' @ h) (indexedTxData i ex a b ts) (keydb st) = Some s"
    using R(2) unfolding responsive_def by blast
  have "keydb (db_set_indexed_tx E (''itx:'' @ h) i a b ts ex st) = s"
    unfolding db_set_indexed_tx_def onKeydb_def s by simp
  then have get: "getOr (g_redis E) (keydb (db_set_indexed_tx E (''itx:'' @ h) i a b ts ex st)) (''itx:'' @ h) = Some (indexedTxData i ex a b ts)"
    using redis_set [OF R(1) s, of "''itx:'' @ h"] by (simp only: if_True simp_thms)
  have sint: "sint (of_int i :: u32) = i"
    using i by (simp add: signed_of_int signed_take_bit_int_eq_self)
  show ?thesis unfolding db_get_indexed_tx_def get using sint by (simp add: indexedTxData_def field_def)
qed

section \<open>Examples for the witness\<close>

type_synonym memory_zsets = "string \<Rightarrow> (string \<times> nat) list"

definition memoryZsets :: "memory_zsets zsets" where
  "memoryZsets = \<lparr>rZAdd = (\<lambda>k m n s. Some (if map_of (s k) m = None then s(k := (m, n) # s k) else s)),
     rZRangeByScore = (\<lambda>k a b s. Some (filter (\<lambda>m. case map_of (s k) m of Some n \<Rightarrow> a \<le> n \<and> n \<le> b | None \<Rightarrow> False) (map fst (s k))))\<rparr>"

lemma memoryZsets_laws: "zset_laws memoryZsets (\<lambda>s k. map_of (s k))"
proof -
  have dom: "map_of xs m = Some n \<Longrightarrow> m \<in> fst ` set xs" for xs :: "(string \<times> nat) list" and m n
    by (force dest: map_of_SomeD)
  have add: "\<exists>s'. rZAdd memoryZsets k m n s = Some s' \<and> (\<lambda>k. map_of (s' k)) =
      (if map_of (s k) m = None then (\<lambda>k. map_of (s k))(k := (map_of (s k))(m \<mapsto> n)) else (\<lambda>k. map_of (s k)))" for k m n s
    by (simp add: memoryZsets_def) (auto simp: fun_eq_iff)
  show ?thesis unfolding zset_laws_def using add by (auto simp: memoryZsets_def dest: dom split: option.splits)
qed

definition exampleLogs :: "memory_server servers" where
  "exampleLogs = \<lparr>keydb = ([logKey 200 1 \<mapsto> content exampleEvent],
     (\<lambda>_ _. None)(tickLogRangeKey 7 := [''fromLogId'' \<mapsto> ''1'', ''length'' \<mapsto> ''1''])),
     kvrocks = (\<lambda>_. None, \<lambda>_ _. None)\<rparr>"

lemma example_fetch:
  assumes "fst (keydb st) (logKey 200 1) = Some (content exampleEvent)" and "snd (keydb st) = snd (keydb exampleLogs)"
  shows "db_get_logs_by_tick_range exampleEnv st 200 7 7 = (True, [exampleEvent])"
proof -
  have one: "stoll ''1'' = Some 1" by code_simp
  have "rHMGet memoryRedis (tickLogRangeKey 7) [''fromLogId'', ''length''] (keydb st) = Some [Some ''1'', Some ''1'']"
    by (simp add: memoryRedis_def assms(2)) (simp add: exampleLogs_def)
  then have range: "db_try_get_log_range_for_tick exampleEnv st 7 = Some (1, 1)"
    by (simp add: db_try_get_log_range_for_tick_def fetchRange_def exampleEnv_def one)
  have e: "updateContent (content exampleEvent) \<lparr>content = []\<rparr> = exampleEvent" by (simp add: updateContent_def)
  have "db_try_get_log exampleEnv st 200 1 = Some exampleEvent"
    using e exampleEvent_ok by (simp add: db_try_get_log_def logOf_def exampleEnv_def assms(1) logInRange_def)
      (simp add: exampleEvent_def)
  then have "db_try_get_logs exampleEnv st 200 1 1 = [exampleEvent]"
    by (simp add: db_try_get_logs_def logIds_def List.map_filter_simps)
  then show ?thesis using exampleEvent_ok by (simp add: db_get_logs_by_tick_range_def range)
qed

lemma example_special:
  assumes "fst (keydb st) (logKey 200 1) = Some (content exampleEvent)" and "snd (keydb st) = snd (keydb exampleLogs)"
  shows "fst (keydb (fold (indexSpecial exampleEnv tick lr ts) is st)) (logKey 200 1) = Some (content exampleEvent) \<and>
    snd (keydb (fold (indexSpecial exampleEnv tick lr ts) is st)) = snd (keydb exampleLogs)"
  using assms
proof (induction "is" arbitrary: st)
  case (Cons i "is")
  have "logKey 200 1 \<noteq> ''itx:'' @ k" for k by (simp add: logKey_def)
  then show ?case using Cons by (simp add: indexSpecial_def db_set_indexed_tx_def onKeydb_def exampleEnv_def memoryRedis_def)
qed simp

definition exampleTopics :: topics where
  "exampleTopics = \<lparr>SC_index = 0, logType = 8, topic1 = keyAt (replicate 44 9) 0, topic2 = laneKey (u32At (replicate 44 9) 40), topic3 = 0\<rparr>"

lemma exampleEvent_topics: "topicsOf exampleEvent = Inr (Some exampleTopics)"
proof -
  have type: "getType exampleEvent = 8" by (simp add: exampleEvent_def)
  have "selfCheck 200 exampleEvent" using exampleEvent_ok by (simp add: logInRange_def)
  from selfCheck_readBody [OF this, of 44] have "readBody 44 exampleEvent = Inr (replicate 44 9)"
    by (simp add: type expectedMinBodySizeForType_def) (simp add: exampleEvent_def)
  then show ?thesis by (simp add: topicsOf_def type exampleTopics_def Let_def)
qed

lemma example_index:
  "\<exists>st' ix'. indexTick exampleEnv memoryZsets exampleGlobals 0 7 (replicate sizeofTickData 0) (exampleLogs, \<lambda>_. []) = Inr (st', ix') \<and>
     db_get_logs_by_tick_range exampleEnv st' 200 7 7 = (True, [exampleEvent])"
proof -
  have "tdTick (replicate sizeofTickData 0) = 0" by (simp add: tdTick_def field_def load_le_def sizeofTickData_def take_replicate drop_replicate) (simp add: eval_nat_numeral)
  then have tick: "tdTick (replicate sizeofTickData 0) \<noteq> 7" by simp
  have start: "fst (keydb exampleLogs) (logKey 200 1) = Some (content exampleEvent)" by (simp add: exampleLogs_def)
  note fetch = example_fetch [OF conjunct1 [OF example_special [OF start refl]] conjunct2 [OF example_special [OF start refl]]]
  show ?thesis using tick by (simp add: indexTick_def Let_def fetch indexEvent_def exampleEvent_topics exampleGlobals_def)
qed

theorem indexed_event_is_found_witness:
  "\<exists>ix'. 7 \<in> set (db_search_log memoryZsets ix' 0 8 5 9 anyTopic anyTopic anyTopic)"
proof -
  obtain st' ix' where index: "indexTick exampleEnv memoryZsets exampleGlobals 0 7 (replicate sizeofTickData 0) (exampleLogs, \<lambda>_. []) = Inr (st', ix')"
    and fetch: "db_get_logs_by_tick_range exampleEnv st' 200 7 7 = (True, [exampleEvent])"
    using example_index by blast
  have "fits exampleTopics 0 8 anyTopic anyTopic anyTopic" by (simp add: fits_def topicFits_def exampleTopics_def)
  moreover have "exampleEvent \<in> set (snd (db_get_logs_by_tick_range exampleEnv st' (gCurrentProcessingEpoch exampleGlobals) 7 7))"
    by (simp add: exampleGlobals_def fetch)
  ultimately have "7 \<in> set (db_search_log memoryZsets ix' 0 8 5 9 anyTopic anyTopic anyTopic)"
    by (intro indexed_event_is_found [OF memoryZsets_laws _ index _ exampleEvent_topics]) (simp_all add: scores_ok_def)
  then show ?thesis by blast
qed





end
