(* ===== verification/Spec2Isabelle.thy ===== *)
theory Spec2Isabelle
  imports Spectrum AssetOps DigestTree SchnorrQ Quorum Connection DataProcessors Indexer
begin

text \<open>
  \<^bold>\<open>A verification library for bob, a node that follows the Qubic network.\<close>

  \<^bold>\<open>The program.\<close> Bob connects to nodes of the network, collects the votes and the data of each tick and the
  log events the nodes emit, replays the events on its own copy of the two ledgers (balances and
  assets), and compares the Merkle digests of the ledgers with the digests a quorum of the computors voted for.
  The parts and how they interact:

  \<^item> receiver threads cut the byte streams of the connections into packets and put them into ring buffers,
    from which worker threads take them (\<open>connection/connection.cpp\<close>, \<open>IOProcessor.cpp\<close>,
    \<open>SpecialBufferStructs.h\<close>, \<open>RequestMap.h\<close>, \<open>structs.h\<close>);
  \<^item> the data thread checks what arrives and stores it, the request thread answers other nodes
    (\<open>DataProcessors.cpp\<close>);
  \<^item> the store is two key-value servers (\<open>database/db.cpp\<close>); a cleaner moves old ticks to the second one and drops
    what is no longer needed (\<open>database/garbageCleaner.cpp\<close>), and an indexer records transactions and the topics of
    events (\<open>QubicIndexer.cpp\<close>);
  \<^item> the verifying thread decides whether a tick has a quorum and moves to the next one (\<open>IOProcessor.cpp\<close>);
  \<^item> the log processor decodes events (\<open>LogEvent.h\<close>, \<open>structs.h\<close>), applies them to the ledgers and checks the digests
    (\<open>LoggingEventProcessor.cpp\<close>);
  \<^item> the ledgers are open-addressing hash tables with change flags (\<open>Entity.h\<close>, \<open>Asset.h\<close>);
  \<^item> keys, hashes, identities and curve arithmetic (\<open>m256i.h\<close>, \<open>K12AndKeyUtil.h\<close>).

  \<^bold>\<open>The theories, in the order of their imports.\<close>

  \<^item> \<open>BobPrelude\<close>: machine integers, little-endian bytes (\<open>load_le\<close>, \<open>store_le\<close>), the result type
    \<open>failure + 'a\<close> whose failures are a loop that never ends and an access out of bounds, and shared lemmas.
  \<^item> \<open>OpenAddressing\<close>: the probe loop both tables use, as a partial function that is \<open>None\<close> when the loop does not
    end, and a locale \<open>probe_table\<close> with the facts of a table that grows by it, interpreted for both ledgers.
  \<^item> \<open>M256\<close>: \<open>m256i.h\<close>, with lane masks and order as the source computes them.
  \<^item> \<open>Spectrum\<close>: \<open>Entity.h\<close>. Credits refine an abstract ledger, debits never overdraw, the
    reorganisation keeps all balances.
  \<^item> \<open>Assets\<close>, \<open>AssetsInv\<close>, \<open>AssetOps\<close>: \<open>Asset.h\<close>: operations, invariant, and the theorems: transfers conserve
    shares, burning takes exactly the shares, issuing adds three linked records, balances read what is held.
  \<^item> \<open>Keccak\<close>, \<open>Kangaroo\<close>: the unrolled permutation is the reference permutation of twelve rounds; the sponge and the tree hash.
  \<^item> \<open>LogEvents\<close>: event headers, bodies and the self check.
  \<^item> \<open>EventProcessor\<close>: the handlers and the replay loop of a batch. A replay that returns refines the abstract replay
    \<open>ledgerReplay\<close> of its events on a map of entities and keeps both tables well formed; what a dividend window pays is
    spelled out. A window whose end is missing from the batch ends the program, and another custom message inside a
    window makes the loop run forever.
  \<^item> \<open>DigestTree\<close>: the incremental Merkle digests of both ledgers equal the digest of the whole tree, through a locale
    \<open>leaf_pass\<close> interpreted for both.
  \<^item> \<open>Field1271\<close>, \<open>FourQ\<close>, \<open>Scalars\<close>: the limb arithmetic is that of the field of \<open>2 ^ 127 - 1\<close> elements and its
    quadratic extension (locale \<open>limb_ring\<close>, interpreted for both), the point formulas follow the affine law of the curve,
    Montgomery products and the wNAF recoding are exact.
  \<^item> \<open>CurveTables\<close>, \<open>FixedBase\<close>: the literal tables and fixed-base multiplication, which computes the multiple of the
    generator its scalar asks for, given what the table holds.
  \<^item> \<open>Decomposition\<close>, \<open>ScalarMul\<close>: the four-part decomposition is exact for every scalar; variable-base and double
    multiplication compute their multiples, given the action of the endomorphisms, the former with the factor 392 of the
    cofactor clearing it starts with.
  \<^item> \<open>SchnorrQ\<close>: point encoding, signing and verification: the equation between the scalars of a signature, its format, and what is refused.
  \<^item> \<open>Packets\<close>: header, ring buffer and request map. The ring buffer is a queue of packets (locale \<open>fifo_queue\<close>).
  \<^item> \<open>Connection\<close>: the stream is received as the packets that were sent, whatever the segmentation; received packets
    keep the queues well framed and go where their type and the trust in the peer say.
  \<^item> \<open>Identity\<close>: identities are a round trip; the checksum test accepts other strings too.
  \<^item> \<open>Quorum\<close>: what \<open>verifyQuorum\<close> accepts, and that the verifying thread does not recover from tick data that
    differ from the voted digest.
  \<^item> \<open>Database\<close>: \<open>db.cpp\<close>: which key holds what, inserts, reads with the fallback to the second server, log ranges,
    counters, compressed ticks; keys of different things never collide.
  \<^item> \<open>GarbageCleaner\<close>: an archived tick is read back as it was, a run leaves ticks alone that were less than five behind
    the indexed one (and not behind it at the end of the epoch), and a restart goes on where the cleaner stopped.
  \<^item> \<open>DataProcessors\<close>: only what passed its check gets into the store; one kind of log request is never answered, and the
    request thread runs out of its buffer.
  \<^item> \<open>Indexer\<close>: a search of the index finds every indexed event that fits it; which reads of the replay and of the indexer the self
    check of an event makes safe.
  \<^item> \<open>Spec2Isabelle\<close>: what the data thread stores survives the move to the second server.

  \<^bold>\<open>How the code is represented.\<close> Structures are records, or lists of bytes where the code copies and hashes
  them; integers are words of their width, and indices into tables natural numbers bounded by the capacities
  \<open>2 ^ 24\<close> of the source. Operations return the new state. Early returns and exceptions are
  values. Loops are recursive functions with termination proofs; the loops that may not end (the probe loop,
  the dividend window and the collection of log events) are partial functions, and claims that they return or do not return are proved as such. No fuel is used.
  Every method that runs under a mutex is one atomic step, a wait is a step that is not enabled, and runs of several
  threads are sequences of such steps.

  \<^bold>\<open>Parameters.\<close> The socket (\<open>recv\<close>), the key-value servers with their client (\<open>redis\<close>), the
  compression (\<open>codec\<close>), the clock, random
  numbers and the list of computor keys are arguments of the definitions that use them. What is required of them is a named
  hypothesis (\<open>stream_socket\<close>, \<open>negative_errors\<close>, \<open>redis_laws\<close>, \<open>responsive\<close>, \<open>codec_laws\<close>, \<open>zset_laws\<close>), and witnesses
  instantiate them; \<open>redis_laws\<close> leaves out that a key of the second server may expire.

  \<^bold>\<open>Not modelled.\<close> The connection to the servers, asset snapshots and scans of the whole store, the REST
  and websocket interface, configuration, logging and start-up, which are calls to clients, frameworks and the
  system; the vendored hash library \<open>XKCP\<close>. That the literal tables hold
  multiples of the generator, that the endomorphisms multiply by their eigenvalues and that the curve law is associative are
  hypotheses where they are needed and not proved.
\<close>

section \<open>From the network to the archive\<close>

text \<open>
  Claim C18. The data thread and the garbage cleaner fit together: start from a store in which every vote lies under its own tick and
  index, let the data thread handle any packets, and let the cleaner archive a tick whose data are stored. Then the tick's
  data and all its votes, whoever sent them, are read back as they were stored.
\<close>

theorem received_votes_survive_archiving:
  assumes R: "redis_laws (g_redis E)" "responsive (g_redis E)"
    and K: "redis_laws (g_kvrocks E)" "responsive (g_kvrocks E)" and Z: "codec_laws (zstd E)"
    and start: "votes_ok E (store d)" "length (dataBuf d) = bufferSize" "\<forall>(g, _) \<in> set inputs. gCurrentProcessingEpoch g \<noteq> 0"
    and run: "dataRun E inputs d = Inr d'"
    and td: "getOr (g_redis E) (keydb (store d')) (tickDataKey tick) = Some td" "length td = sizeofTickData" and "tick \<noteq> 0"
    and moved: "st' = cleanOneTick E txMode False tick (compressTickAndMoveToKVRocks E tick (store d'))"
  shows "db_try_get_tick_data E st' tick = (True, td) \<and> db_try_get_tick_vote E st' tick = db_get_tick_votes E (store d') tick"
proof (rule archived_tick_readable [OF R K Z td _ \<open>tick \<noteq> 0\<close> moved])
  fix i v
  assume "i < 676" and v: "getOr (g_redis E) (keydb (store d')) (tickVoteKey tick (of_nat i)) = Some v"
  then have "unat (of_nat i :: u16) = i" by (simp add: unat_of_nat)
  moreover have "votes_ok E (store d')" by (rule dataRun_votes_ok [OF R(1) run start(2,3,1)])
  ultimately show "vote_ok tick i v" using v unfolding votes_ok_def by metis
qed

theorem received_votes_survive_archiving_witness:
  "let st' = cleanOneTick exampleEnv Kvrocks False 9 (compressTickAndMoveToKVRocks exampleEnv 9 exampleStore)
   in db_try_get_tick_data exampleEnv st' 9 = (True, replicate sizeofTickData 5) \<and>
      db_try_get_tick_vote exampleEnv st' 9 = db_get_tick_votes exampleEnv exampleStore 9"
proof -
  define d where "d = exampleThread\<lparr>store := exampleStore\<rparr>"
  have len: "length (dataBuf d) = bufferSize" unfolding d_def exampleThread_def dataThread.simps by (rule length_replicate)
  have ok: "votes_ok exampleEnv (store d)"
    using exampleVote_ok by (auto simp: votes_ok_def d_def exampleEnv_def exampleStore_def split: if_splits)
  have run: "dataRun exampleEnv [] d = Inr d" by simp
  have td: "getOr (g_redis exampleEnv) (keydb (store d)) (tickDataKey 9) = Some (replicate sizeofTickData 5)"
    by (simp add: d_def exampleEnv_def exampleStore_def)
  show ?thesis
    using received_votes_survive_archiving [OF _ _ _ _ _ ok len _ run td _ _ refl, where txMode = Kvrocks]
    by (simp add: d_def Let_def exampleEnv_def memoryRedis_laws memoryRedis_responsive plainCodec_laws)
qed

end
